(* ===== verification/Prelude.thy ===== *)
theory Prelude
  imports Main "HOL-Library.Word"
begin

text \<open>
  Shared vocabulary of the development: the result type with its faults, C byte buffers and
  strings, and the generic lemmas the component theories use.

  \<^item> \<open>res\<close>: the outcome of a C call.  \<open>Ok x\<close> is a normal return, \<open>Fault f\<close> is undefined
    behaviour of the C program at that point (the kind says which) or, for \<open>OutOfFuel\<close>, a
    pointer loop that did not end within the bound given to it.
  \<^item> Buffers: a C char array or struct area that was cleared with \<open>memset\<close> is the list of its
    leading bytes; every byte after the list is zero.
\<close>

section \<open>Outcomes of C calls\<close>

datatype fault = NullDeref | UseAfterFree | BufOverflow | OutOfFuel

datatype 'a res = Ok 'a | Fault fault

fun andthen :: "'a res \<Rightarrow> ('a \<Rightarrow> 'b res) \<Rightarrow> 'b res" where
  "andthen (Ok x) f = f x"
| "andthen (Fault e) f = Fault e"

fun is_ok :: "'a res \<Rightarrow> bool" where
  "is_ok (Ok x) = True"
| "is_ok (Fault e) = False"

lemma andthen_cong [fundef_cong]:
  "m = m' \<Longrightarrow> (\<And>x. m' = Ok x \<Longrightarrow> f x = g x) \<Longrightarrow> andthen m f = andthen m' g"
  by (cases m') auto

lemma andthen_Ok_iff: "andthen m f = Ok y \<longleftrightarrow> (\<exists>x. m = Ok x \<and> f x = Ok y)"
  by (cases m) auto

lemma andthen_Fault_iff:
  "andthen m f = Fault e \<longleftrightarrow> m = Fault e \<or> (\<exists>x. m = Ok x \<and> f x = Fault e)"
  by (cases m) auto

lemma andthen_assoc: "andthen (andthen m f) g = andthen m (\<lambda>x. andthen (f x) g)"
  by (cases m) auto

lemma andthen_Ok_right [simp]: "andthen m Ok = m"
  by (cases m) auto

lemma is_ok_iff: "is_ok m \<longleftrightarrow> (\<exists>x. m = Ok x)"
  by (cases m) auto

text \<open>
  \<open>ends F r P\<close>: the call returns with a result that satisfies \<open>P\<close>, or stops with a fault of
  \<open>F\<close>.  With \<open>F = UNIV\<close> this is partial correctness, with \<open>F = {}\<close> total correctness.
\<close>

definition ends :: "fault set \<Rightarrow> 'a res \<Rightarrow> ('a \<Rightarrow> bool) \<Rightarrow> bool" where
  "ends F r P \<longleftrightarrow> (case r of Ok x \<Rightarrow> P x | Fault e \<Rightarrow> e \<in> F)"

lemma ends_simps [simp]:
  "ends F (Ok x) P \<longleftrightarrow> P x" "ends F (Fault e) P \<longleftrightarrow> e \<in> F"
  "ends F (andthen m f) P \<longleftrightarrow> ends F m (\<lambda>x. ends F (f x) P)"
  by (auto simp: ends_def split: res.splits)

lemma ends_mono: "ends F r P \<Longrightarrow> (\<And>x. r = Ok x \<Longrightarrow> P x \<Longrightarrow> Q x) \<Longrightarrow> ends F r Q"
  by (auto simp: ends_def split: res.splits)

lemma ends_wp: "ends F r P \<Longrightarrow> (\<And>x. P x \<Longrightarrow> Q x) \<Longrightarrow> ends F r Q"
  by (rule ends_mono)

lemma ends_weaken: "ends F r P \<Longrightarrow> F \<subseteq> G \<Longrightarrow> ends G r P"
  by (auto simp: ends_def split: res.splits)

lemma ends_conj: "ends F r P \<Longrightarrow> ends F r Q \<Longrightarrow> ends F r (\<lambda>x. P x \<and> Q x)"
  by (auto simp: ends_def split: res.splits)

lemma ends_conj_UNIV: "ends F r P \<Longrightarrow> ends UNIV r Q \<Longrightarrow> ends F r (\<lambda>x. P x \<and> Q x)"
  by (auto simp: ends_def split: res.splits)

lemma ends_OkD: "ends F r P \<Longrightarrow> r = Ok x \<Longrightarrow> P x"
  by (simp add: ends_def)

lemma ends_UNIV: "ends UNIV r P \<longleftrightarrow> (\<forall>x. r = Ok x \<longrightarrow> P x)"
  by (cases r) auto

section \<open>C strings and byte buffers\<close>

abbreviation NUL :: char where
  "NUL \<equiv> CHR 0x00"

abbreviation CR :: char where
  "CR \<equiv> CHR 0x0D"

abbreviation LF :: char where
  "LF \<equiv> CHR 0x0A"

type_synonym bytes = "char list"

text \<open>\<open>b[i]\<close> of a cleared buffer.\<close>

definition buf_at :: "bytes \<Rightarrow> nat \<Rightarrow> char" where
  "buf_at b i = (if i < length b then b ! i else NUL)"

text \<open>\<open>memcpy(b + off, bs, length bs)\<close>.\<close>

definition buf_write :: "nat \<Rightarrow> bytes \<Rightarrow> bytes \<Rightarrow> bytes" where
  "buf_write off bs b =
     take off (b @ replicate (off - length b) NUL) @ bs @ drop (off + length bs) b"

text \<open>The \<open>n\<close> bytes starting at \<open>b + off\<close>.\<close>

definition buf_slice :: "nat \<Rightarrow> nat \<Rightarrow> bytes \<Rightarrow> bytes" where
  "buf_slice off n b = take n (drop off b @ replicate n NUL)"

text \<open>The C string that starts at \<open>b + off\<close>: the bytes before the first zero.\<close>

definition cstr :: "nat \<Rightarrow> bytes \<Rightarrow> string" where
  "cstr off b = takeWhile (\<lambda>c. c \<noteq> NUL) (drop off b)"

text \<open>\<open>snprintf\<close> into an array of \<open>n\<close> bytes keeps \<open>n - 1\<close> characters.\<close>

definition snprintf_n :: "nat \<Rightarrow> string \<Rightarrow> string" where
  "snprintf_n n s = take (n - 1) s"

text \<open>The value of a (signed) C \<open>char\<close>.\<close>

definition schar :: "char \<Rightarrow> int" where
  "schar c = (let n = (of_char c :: int) in if 128 \<le> n then n - 256 else n)"

text \<open>A \<open>uint16_t\<close> as it lies in memory (little endian) and back.\<close>

definition le16 :: "16 word \<Rightarrow> bytes" where
  "le16 w = [char_of (unat w mod 256), char_of (unat w div 256)]"

definition u16_at :: "nat \<Rightarrow> bytes \<Rightarrow> 16 word" where
  "u16_at off b =
     word_of_nat (of_char (buf_at b off) + 256 * of_char (buf_at b (off + 1)))"

lemma length_buf_slice [simp]: "length (buf_slice off n b) = n"
  by (simp add: buf_slice_def)

lemma length_buf_write [simp]:
  "length (buf_write off bs b) = max (off + length bs) (length b)"
  by (auto simp: buf_write_def)

lemma length_le16 [simp]: "length (le16 w) = 2"
  by (simp add: le16_def)

lemma buf_at_Nil [simp]: "buf_at [] i = NUL"
  by (simp add: buf_at_def)

lemma buf_at_write:
  "buf_at (buf_write off bs b) i =
     (if off \<le> i \<and> i < off + length bs then bs ! (i - off) else buf_at b i)"
  by (auto simp: buf_at_def buf_write_def nth_append min_def not_less not_le)

lemma nth_buf_slice: "i < n \<Longrightarrow> buf_slice off n b ! i = buf_at b (off + i)"
  by (auto simp: buf_slice_def buf_at_def nth_append)

lemma NUL_not_in_cstr [simp]: "NUL \<notin> set (cstr off b)"
  by (auto simp: cstr_def dest: set_takeWhileD)

lemma cstr_Nil [simp]: "cstr off [] = []"
  by (simp add: cstr_def)

lemma cstr_length_le: "length (cstr off b) \<le> length b - off"
  by (metis cstr_def length_drop length_takeWhile_le)

text \<open>A string is read back where it was written, when a zero byte follows it.\<close>

lemma cstr_at:
  assumes "NUL \<notin> set s" and "drop off b = s @ t" and "t = [] \<or> hd t = NUL"
  shows "cstr off b = s"
  using assms by (cases t) (auto simp: cstr_def takeWhile_append2 takeWhile_tail)

text \<open>Writing behind the bytes present, and reading what such writes leave.\<close>

lemma buf_write_ext:
  "length b \<le> off \<Longrightarrow> buf_write off bs b = b @ replicate (off - length b) NUL @ bs"
  by (simp add: buf_write_def)

lemma cstr_drop: "cstr (off + k) b = cstr off (drop k b)"
  by (simp add: cstr_def add.commute)

lemma cstr_0_append: "NUL \<notin> set s \<Longrightarrow> cstr 0 (s @ t) = s @ cstr 0 t"
  by (induction s) (auto simp: cstr_def)

lemma cstr_0_NUL [simp]: "cstr 0 (NUL # t) = []"
  by (simp add: cstr_def)

lemma cstr_0_id: "NUL \<notin> set s \<Longrightarrow> cstr 0 s = s"
  by (auto simp: cstr_def takeWhile_eq_all_conv)

lemma cstr_pad: "NUL \<notin> set s \<Longrightarrow> length s < n \<Longrightarrow> cstr 0 (s @ replicate (n - length s) NUL @ t) = s"
  by (cases "n - length s") (auto simp: cstr_0_append)

end
