(* ===== verification/Regex.thy ===== *)
theory Regex
  imports Prelude
begin

text \<open>
  The fragment of POSIX basic regular expressions that the server compiles with \<open>regcomp\<close>
  and runs with \<open>regexec\<close> (C locale, no \<open>REG_NEWLINE\<close>): anchored sequences of literal
  characters and of repeated character classes, some of them groups.  The matcher tries the
  longest repetition first, from left to right, as POSIX asks, and returns the text of the
  groups.  \<open>rmatch_complete\<close> relates it to the language of the expression.
\<close>

datatype bre =
    Chr char
  | Rep "char \<Rightarrow> bool" nat "nat option" bool \<comment> \<open>class, least and greatest count, is a group\<close>

definition lits :: "string \<Rightarrow> bre list" where
  "lits s = map Chr s"

definition Grp :: "(char \<Rightarrow> bool) \<Rightarrow> nat \<Rightarrow> nat \<Rightarrow> bre" where
  "Grp p lo hi = Rep p lo (Some hi) True"

definition AnyStar :: bre where
  "AnyStar = Rep (\<lambda>c. c \<noteq> NUL) 0 None False"

fun is_alnum :: "char \<Rightarrow> bool" where
  "is_alnum c = (let n = (of_char c :: nat) in
     48 \<le> n \<and> n \<le> 57 \<or> 65 \<le> n \<and> n \<le> 90 \<or> 97 \<le> n \<and> n \<le> 122)"

fun is_graph :: "char \<Rightarrow> bool" where
  "is_graph c = (let n = (of_char c :: nat) in 33 \<le> n \<and> n \<le> 126)"

fun is_print :: "char \<Rightarrow> bool" where
  "is_print c = (let n = (of_char c :: nat) in 32 \<le> n \<and> n \<le> 126)"

fun is_digit :: "char \<Rightarrow> bool" where
  "is_digit c = (let n = (of_char c :: nat) in 48 \<le> n \<and> n \<le> 57)"

fun alnum_dash :: "char \<Rightarrow> bool" where
  "alnum_dash c = (is_alnum c \<or> c = CHR ''-'')"

text \<open>The first success, trying the counts in the given order.\<close>

fun first_some :: "('a \<Rightarrow> 'b option) \<Rightarrow> 'a list \<Rightarrow> 'b option" where
  "first_some f [] = None"
| "first_some f (x # xs) = (case f x of None \<Rightarrow> first_some f xs | Some y \<Rightarrow> Some y)"

definition rep_max :: "(char \<Rightarrow> bool) \<Rightarrow> nat option \<Rightarrow> string \<Rightarrow> nat" where
  "rep_max p hi s = (let k = length (takeWhile p s) in
     case hi of None \<Rightarrow> k | Some h \<Rightarrow> min k h)"

fun bre_step :: "bre \<Rightarrow> (string \<Rightarrow> string list option) \<Rightarrow> string \<Rightarrow> string list option" where
  "bre_step (Chr c) f s =
     (case s of [] \<Rightarrow> None | x # xs \<Rightarrow> if x = c then f xs else None)"
| "bre_step (Rep p lo hi grp) f s =
     first_some
       (\<lambda>k. map_option (\<lambda>gs. if grp then take k s # gs else gs) (f (drop k s)))
       (rev [lo..<Suc (rep_max p hi s)])"

primrec rmatch :: "bre list \<Rightarrow> string \<Rightarrow> string list option" where
  "rmatch [] = (\<lambda>s. if s = [] then Some [] else None)"
| "rmatch (x # r) = bre_step x (rmatch r)"

text \<open>The language of an expression, with the text of its groups.\<close>

inductive rlang :: "bre list \<Rightarrow> string \<Rightarrow> string list \<Rightarrow> bool" where
  rl_Nil: "rlang [] [] []"
| rl_Chr: "rlang r s gs \<Longrightarrow> rlang (Chr c # r) (c # s) gs"
| rl_Rep: "rlang r s gs \<Longrightarrow> list_all p w \<Longrightarrow> lo \<le> length w \<Longrightarrow>
     (case hi of None \<Rightarrow> True | Some h \<Rightarrow> length w \<le> h) \<Longrightarrow>
     rlang (Rep p lo hi grp # r) (w @ s) (if grp then w # gs else gs)"

inductive_cases rlang_NilE: "rlang [] s gs"
inductive_cases rlang_ChrE: "rlang (Chr c # r) s gs"
inductive_cases rlang_RepE: "rlang (Rep p lo hi grp # r) s gs"

lemma first_some_SomeD: "first_some f xs = Some y \<Longrightarrow> \<exists>x\<in>set xs. f x = Some y"
  by (induction xs) (auto split: option.splits)

lemma first_some_None_iff: "first_some f xs = None \<longleftrightarrow> (\<forall>x\<in>set xs. f x = None)"
  by (induction xs) (auto split: option.splits)

lemma first_some_hd:
  assumes "xs = x # ys" and "\<forall>y\<in>set ys. f y = None"
  shows "first_some f xs = f x"
  using assms first_some_None_iff [of f ys] by (auto split: option.splits)

lemma list_all_take_rep_max:
  assumes "k \<le> rep_max p hi s"
  shows "list_all p (take k s)"
proof -
  from assms have "k \<le> length (takeWhile p s)"
    by (auto simp: rep_max_def Let_def split: option.splits)
  then have "take k s = take k (takeWhile p s)"
    by (metis append_take_drop_id length_takeWhile_le min.absorb1 take_all_iff take_append
        take_take takeWhile_dropWhile_id take_eq_Nil append_Nil2 diff_is_0_eq)
  then show ?thesis
    by (metis in_set_takeD list_all_iff set_takeWhileD)
qed

lemma rep_max_le: "rep_max p hi s \<le> length s"
  by (auto simp: rep_max_def Let_def length_takeWhile_le min.coboundedI1 split: option.splits)

lemma rep_max_hi: "rep_max p (Some h) s \<le> h"
  by (simp add: rep_max_def)

lemma rep_max_ge:
  assumes "list_all p w" and "case hi of None \<Rightarrow> True | Some h \<Rightarrow> length w \<le> h"
  shows "length w \<le> rep_max p hi (w @ s)"
  using assms by (auto simp: rep_max_def Let_def list_all_iff takeWhile_append2 split: option.splits)

lemma rmatch_sound: "rmatch r s = Some gs \<Longrightarrow> rlang r s gs"
proof (induction r arbitrary: s gs)
  case Nil
  then show ?case by (auto intro: rlang.intros split: if_splits)
next
  case (Cons x r)
  show ?case
  proof (cases x)
    case (Chr c)
    with Cons show ?thesis by (auto intro!: rlang.intros split: list.splits if_splits)
  next
    case (Rep p lo hi grp)
    with Cons.prems obtain k gs' where k: "lo \<le> k" "k \<le> rep_max p hi s"
      and m: "rmatch r (drop k s) = Some gs'" and gs: "gs = (if grp then take k s # gs' else gs')"
      by (auto dest!: first_some_SomeD)
    have len: "length (take k s) = k" using k rep_max_le [of p hi s] by simp
    have hi: "case hi of None \<Rightarrow> True | Some h \<Rightarrow> length (take k s) \<le> h"
      using k len rep_max_hi [of p _ s] by (auto split: option.split intro: le_trans)
    have "rlang (Rep p lo hi grp # r) (take k s @ drop k s)
        (if grp then take k s # gs' else gs')"
      using Cons.IH [OF m] list_all_take_rep_max [OF k(2)] _ hi
      by (rule rl_Rep) (use len k in linarith)
    then show ?thesis by (simp add: gs Rep)
  qed
qed

lemma rlang_imp_match: "rlang r s gs \<Longrightarrow> rmatch r s \<noteq> None"
proof (induction rule: rlang.induct)
  case (rl_Rep r s gs p w lo hi grp)
  have "length w \<le> rep_max p hi (w @ s)" using rl_Rep by (intro rep_max_ge) auto
  moreover obtain gs' where "rmatch r (drop (length w) (w @ s)) = Some gs'"
    using rl_Rep by auto
  ultimately have "\<exists>k\<in>set (rev [lo..<Suc (rep_max p hi (w @ s))]).
      rmatch r (drop k (w @ s)) \<noteq> None"
    using rl_Rep.hyps(3) by (intro bexI [of _ "length w"]) auto
  then show ?case
    by (simp only: rmatch.simps bre_step.simps first_some_None_iff) auto
qed auto

text \<open>
  The two directions together: the matcher finds a match exactly when the text is in the
  language, and the groups it returns are those of a derivation.
\<close>

lemma rmatch_iff: "rmatch r s \<noteq> None \<longleftrightarrow> (\<exists>gs. rlang r s gs)"
  using rmatch_sound rlang_imp_match by blast

section \<open>The shapes the server uses\<close>

lemma rmatch_lits: "rmatch (lits w @ r) s =
    (if take (length w) s = w then rmatch r (drop (length w) s) else None)"
  by (induction w arbitrary: s) (auto simp: lits_def split: list.splits)

text \<open>A group that is followed by a character outside its class takes the whole run.\<close>

lemma rmatch_Grp_sep:
  assumes "list_all p a" and "lo \<le> length a" and "length a \<le> hi" and "\<not> p c"
  shows "rmatch (Grp p lo hi # Chr c # r) (a @ c # t) = map_option ((#) a) (rmatch r t)"
proof -
  have tw: "takeWhile p (a @ c # t) = a"
    using assms by (auto simp: list_all_iff takeWhile_append2)
  have rm: "rep_max p (Some hi) (a @ c # t) = length a"
    using assms by (simp add: rep_max_def tw)
  let ?f = "\<lambda>k. map_option (\<lambda>gs. take k (a @ c # t) # gs)
      (rmatch (Chr c # r) (drop k (a @ c # t)))"
  have none: "?f k = None" if "k < length a" for k
  proof -
    have "drop k (a @ c # t) = a ! k # drop (Suc k) (a @ c # t)"
      using that by (metis Cons_nth_drop_Suc length_append nth_append trans_less_add1)
    moreover have "a ! k \<noteq> c" using assms that by (auto simp: list_all_length)
    ultimately show ?thesis by simp
  qed
  have "rev [lo..<Suc (length a)] = length a # rev [lo..<length a]"
    using assms by simp
  then have "first_some ?f (rev [lo..<Suc (length a)]) = ?f (length a)"
    by (rule first_some_hd) (use none in fastforce)
  then show ?thesis by (simp add: Grp_def rm)
qed

lemma rmatch_Rep_end:
  "rmatch [Rep p lo hi grp] s =
     (if list_all p s \<and> lo \<le> length s \<and> (case hi of None \<Rightarrow> True | Some h \<Rightarrow> length s \<le> h)
      then Some (if grp then [s] else []) else None)"
proof (cases "list_all p s \<and> lo \<le> length s \<and> (case hi of None \<Rightarrow> True | Some h \<Rightarrow> length s \<le> h)")
  case True
  then have "rep_max p hi s = length s"
    using rep_max_ge [of p s hi "[]"] rep_max_le [of p hi s] by simp
  with True show ?thesis by simp
next
  case False
  have "rmatch [Rep p lo hi grp] s = None"
  proof (rule ccontr)
    assume "\<not> ?thesis"
    then obtain gs where "rlang [Rep p lo hi grp] s gs" by (metis rmatch_iff)
    with False show False by (cases hi) (auto elim!: rlang_RepE rlang_NilE)
  qed
  with False show ?thesis by simp
qed

lemma rmatch_AnyStar_lits:
  assumes "NUL \<notin> set w"
  shows "rmatch (AnyStar # lits t) (w @ t) \<noteq> None"
proof -
  have "rlang (lits t) t []"
    by (induction t) (auto simp: lits_def intro: rlang.intros)
  then have "rlang (Rep (\<lambda>c. c \<noteq> NUL) 0 None False # lits t) (w @ t) []"
    using rl_Rep [of "lits t" t "[]" "\<lambda>c. c \<noteq> NUL" w 0 None False] assms
    by (auto simp: list_all_iff)
  then show ?thesis unfolding AnyStar_def by (rule rlang_imp_match)
qed

text \<open>Inversion of the language on the same shapes.\<close>

lemma rlang_Nil_iff: "rlang [] s gs \<longleftrightarrow> s = [] \<and> gs = []"
  by (auto elim: rlang_NilE intro: rlang.intros)

lemma rlang_lits_iff: "rlang (lits w @ r) s gs \<longleftrightarrow> (\<exists>t. s = w @ t \<and> rlang r t gs)"
  by (induction w arbitrary: s) (auto simp: lits_def elim!: rlang_ChrE intro: rlang.intros)

lemma rlang_lits_end: "rlang (lits w) s gs \<longleftrightarrow> s = w \<and> gs = []"
  using rlang_lits_iff [of w "[]"] by (auto simp: rlang_Nil_iff)

lemma rlang_Grp_iff:
  "rlang (Grp p lo hi # r) s gs \<longleftrightarrow> (\<exists>w t gs'. s = w @ t \<and> gs = w # gs' \<and> list_all p w \<and>
     lo \<le> length w \<and> length w \<le> hi \<and> rlang r t gs')"
proof
  assume "rlang (Grp p lo hi # r) s gs"
  then show "\<exists>w t gs'. s = w @ t \<and> gs = w # gs' \<and> list_all p w \<and> lo \<le> length w \<and>
      length w \<le> hi \<and> rlang r t gs'"
    unfolding Grp_def by (rule rlang_RepE) auto
next
  assume "\<exists>w t gs'. s = w @ t \<and> gs = w # gs' \<and> list_all p w \<and> lo \<le> length w \<and>
      length w \<le> hi \<and> rlang r t gs'"
  then show "rlang (Grp p lo hi # r) s gs"
    unfolding Grp_def using rl_Rep [of r _ _ p _ lo "Some hi" True] by auto
qed

lemmas rlang_iffs = rlang_lits_iff rlang_lits_end rlang_Grp_iff rlang_Nil_iff

text \<open>The equations used for reasoning; evaluation uses the defining ones.\<close>

lemma rmatch_Nil_Chr:
  "rmatch [] s = (if s = [] then Some [] else None)"
  "rmatch (Chr c # r) (x # s) = (if x = c then rmatch r s else None)"
  "rmatch (Chr c # r) [] = None"
  by simp_all

lemma lits_simps: "lits [] = []" "lits (c # s) = Chr c # lits s"
  by (simp_all add: lits_def)

lemma rmatch_line_prefix:
  "rmatch (lits w @ r) s \<noteq> None \<Longrightarrow> take (length w) s = w"
  by (auto simp: rmatch_lits split: if_splits)

lemma rmatch_line_ok:
  "NUL \<notin> set t \<Longrightarrow> rmatch (lits w @ AnyStar # lits e) (w @ t @ e) \<noteq> None"
  using rmatch_AnyStar_lits [of t e] by (simp add: rmatch_lits del: rmatch.simps)

declare rmatch.simps [simp del]

end
