(* ===== verification/Types.thy ===== *)
theory Types
  imports Regex
begin

text \<open>
  The data of the server (types.h) and the string checks (types.c).

  Structs are records and enums are datatypes.  The union \<open>msg_data_t\<close> is kept as the bytes it
  occupies, because the code writes and reads its members by address: a name that fills its
  20 bytes has no terminating zero, and the C string then runs on into the next member.  The
  same holds for the three name arrays of \<open>client_t\<close>, which lie one after the other and are
  followed by \<open>msg_count\<close>.  Offsets are those of the x86-64 layout.
\<close>

section \<open>Constants and scalar types\<close>

definition WELCOME_SOCK_COUNT :: nat where "WELCOME_SOCK_COUNT = 2"
definition POLL_REALLOC_DELTA :: nat where "POLL_REALLOC_DELTA = 128"
definition POLL_INTERVAL :: int where "POLL_INTERVAL = 75"
definition STOP_TIMEOUT :: int where "STOP_TIMEOUT = 500"
definition IPV4_MAX_LENGTH :: nat where "IPV4_MAX_LENGTH = 16"
definition USERNAME_MAX_LENGTH :: nat where "USERNAME_MAX_LENGTH = 20"
definition CHANNELID_MAX_LENGTH :: nat where "CHANNELID_MAX_LENGTH = 20"
definition SECRET_MAX_LENGTH :: nat where "SECRET_MAX_LENGTH = 128"
definition DISPLAYNAME_MAX_LENGTH :: nat where "DISPLAYNAME_MAX_LENGTH = 20"
definition MESSAGECONTENT_MAX_LENGTH :: nat where "MESSAGECONTENT_MAX_LENGTH = 1400"
definition STRING_MAX_LENGTH :: nat where "STRING_MAX_LENGTH = 2048"
definition MAX_CONFIRMED_MSG :: nat where "MAX_CONFIRMED_MSG = 32"

lemmas const_defs =
  WELCOME_SOCK_COUNT_def POLL_REALLOC_DELTA_def POLL_INTERVAL_def STOP_TIMEOUT_def
  IPV4_MAX_LENGTH_def USERNAME_MAX_LENGTH_def CHANNELID_MAX_LENGTH_def SECRET_MAX_LENGTH_def
  DISPLAYNAME_MAX_LENGTH_def MESSAGECONTENT_MAX_LENGTH_def STRING_MAX_LENGTH_def
  MAX_CONFIRMED_MSG_def

type_synonym message_id_t = "16 word"
type_synonym id_t = "16 word"

record argv_t =
  ipv4 :: string
  port :: "16 word"
  udp_timeout :: "16 word"
  udp_retransmissions :: "8 word"
  is_help :: bool

datatype transport_protocol_t = e_udp | e_tcp

datatype msg_type_t = e_confirm | e_reply | e_auth | e_join | e_msg | e_err | e_bye

datatype fsm_state_t = s_ac | s_au | s_op | s_er | s_en

fun msg_type_code :: "msg_type_t \<Rightarrow> nat" where
  "msg_type_code e_confirm = 0x00"
| "msg_type_code e_reply = 0x01"
| "msg_type_code e_auth = 0x02"
| "msg_type_code e_join = 0x03"
| "msg_type_code e_msg = 0x04"
| "msg_type_code e_err = 0xFE"
| "msg_type_code e_bye = 0xFF"

text \<open>\<open>struct sockaddr_in\<close>, the part the program compares and copies.\<close>

record sockaddr_in =
  sin_family :: "16 word"
  sin_port :: "16 word"
  sin_addr :: "32 word"

definition zero_addr :: sockaddr_in where
  "zero_addr = \<lparr>sin_family = 0, sin_port = 0, sin_addr = 0\<rparr>"

section \<open>Messages\<close>

record msg_t =
  is_confirmed :: bool
  retry_count :: "8 word"
  timeout :: "16 word"
  msg_type :: msg_type_t
  msg_id :: message_id_t
  data :: bytes
  m_sockfd :: int
  m_addr :: sockaddr_in

text \<open>A message cleared with \<open>memset\<close> (type code 0 is \<open>e_confirm\<close>).\<close>

definition zero_msg :: msg_t where
  "zero_msg = \<lparr>is_confirmed = False, retry_count = 0, timeout = 0, msg_type = e_confirm,
     msg_id = 0, data = [], m_sockfd = 0, m_addr = zero_addr\<rparr>"

text \<open>
  The members of \<open>msg_data_t\<close>:
  \<open>confirm\<close> has \<open>ref_id\<close> at 0;
  \<open>reply\<close> has \<open>result\<close> at 0, \<open>ref_id\<close> at 2 and \<open>content\<close> at 4;
  \<open>auth\<close> has \<open>username\<close> at 0, \<open>display_name\<close> at 20 and \<open>secret\<close> at 40;
  \<open>join\<close> has \<open>channel_id\<close> at 0 and \<open>display_name\<close> at 20;
  \<open>msg\<close> and \<open>err\<close> have \<open>display_name\<close> at 0 and \<open>content\<close> at 20.
  The union has 1420 bytes.  In \<open>msg_t\<close> two bytes of padding follow it, which \<open>memset\<close> clears and which
  copies of the struct take along, so the one byte by which a content of 1401 characters runs over
  the union is kept here as a further byte of \<open>data\<close>.
\<close>

definition confirm_ref_id :: "bytes \<Rightarrow> message_id_t" where
  "confirm_ref_id d = u16_at 0 d"
definition set_confirm_ref_id :: "message_id_t \<Rightarrow> bytes \<Rightarrow> bytes" where
  "set_confirm_ref_id w d = buf_write 0 (le16 w) d"

definition reply_result :: "bytes \<Rightarrow> bool" where
  "reply_result d = (buf_at d 0 \<noteq> NUL)"
definition set_reply_result :: "bool \<Rightarrow> bytes \<Rightarrow> bytes" where
  "set_reply_result r d = buf_write 0 [if r then CHR 0x01 else NUL] d"
definition reply_ref_id :: "bytes \<Rightarrow> message_id_t" where
  "reply_ref_id d = u16_at 2 d"
definition set_reply_ref_id :: "message_id_t \<Rightarrow> bytes \<Rightarrow> bytes" where
  "set_reply_ref_id w d = buf_write 2 (le16 w) d"

definition reply_content_off :: nat where "reply_content_off = 4"
definition auth_username_off :: nat where "auth_username_off = 0"
definition auth_display_name_off :: nat where "auth_display_name_off = 20"
definition auth_secret_off :: nat where "auth_secret_off = 40"
definition join_channel_id_off :: nat where "join_channel_id_off = 0"
definition join_display_name_off :: nat where "join_display_name_off = 20"
definition msg_display_name_off :: nat where "msg_display_name_off = 0"
definition msg_content_off :: nat where "msg_content_off = 20"

lemmas data_offsets =
  reply_content_off_def auth_username_off_def auth_display_name_off_def auth_secret_off_def
  join_channel_id_off_def join_display_name_off_def msg_display_name_off_def msg_content_off_def

text \<open>The C string that starts at a member of the message's union.\<close>

definition data_str :: "nat \<Rightarrow> msg_t \<Rightarrow> string" where
  "data_str off m = cstr off (data m)"

definition put_str :: "nat \<Rightarrow> bytes \<Rightarrow> msg_t \<Rightarrow> msg_t" where
  "put_str off bs m = m\<lparr>data := buf_write off bs (data m)\<rparr>"

lemma data_put_str [simp]:
  "data (put_str off bs m) = buf_write off bs (data m)" "msg_type (put_str off bs m) = msg_type m"
  "msg_id (put_str off bs m) = msg_id m"
  by (simp_all add: put_str_def)

lemma zero_msg_simps [simp]: "data zero_msg = []" "msg_id zero_msg = 0"
  by (simp_all add: zero_msg_def)

section \<open>Clients\<close>

record client_t =
  c_sockfd :: int
  c_protocol :: transport_protocol_t
  c_addr :: sockaddr_in
  c_state :: fsm_state_t
  c_names :: bytes \<comment> \<open>username, display_name and channel_id, 20 bytes each\<close>
  msg_count :: message_id_t
  msg_in_confirmed :: "message_id_t list"

text \<open>The bytes from \<open>username\<close> to the end of \<open>msg_in_confirmed\<close>.\<close>

definition client_bytes :: "client_t \<Rightarrow> bytes" where
  "client_bytes c =
     buf_slice 0 60 (c_names c) @ le16 (msg_count c) @ concat (map le16 (msg_in_confirmed c))"

definition c_username :: "client_t \<Rightarrow> string" where
  "c_username c = cstr 0 (client_bytes c)"
definition c_display_name :: "client_t \<Rightarrow> string" where
  "c_display_name c = cstr 20 (client_bytes c)"
definition c_channel_id :: "client_t \<Rightarrow> string" where
  "c_channel_id c = cstr 40 (client_bytes c)"

definition set_username :: "bytes \<Rightarrow> client_t \<Rightarrow> client_t" where
  "set_username bs c = c\<lparr>c_names := buf_write 0 bs (c_names c)\<rparr>"
definition set_display_name :: "bytes \<Rightarrow> client_t \<Rightarrow> client_t" where
  "set_display_name bs c = c\<lparr>c_names := buf_write 20 bs (c_names c)\<rparr>"
definition set_channel_id :: "bytes \<Rightarrow> client_t \<Rightarrow> client_t" where
  "set_channel_id bs c = c\<lparr>c_names := buf_write 40 bs (c_names c)\<rparr>"

text \<open>
  For evaluation: a name that ends within its array is read from the array alone.
\<close>

lemma drop_buf_slice: "k \<le> n \<Longrightarrow> drop k (buf_slice off n b) = buf_slice (off + k) (n - k) b"
  by (intro nth_equalityI) (simp_all add: nth_buf_slice add.assoc)

lemma take_buf_slice: "k \<le> n \<Longrightarrow> take k (buf_slice off n b) = buf_slice off k b"
  by (intro nth_equalityI) (simp_all add: nth_buf_slice)

lemma cstr_client_bytes:
  assumes "off + 20 \<le> 60" and "NUL \<in> set (buf_slice off 20 (c_names c))"
  shows "cstr off (client_bytes c) = cstr 0 (buf_slice off 20 (c_names c))"
proof -
  have "drop off (client_bytes c) = buf_slice off (60 - off) (c_names c) @ drop 60 (client_bytes c)"
    using assms(1) by (simp add: client_bytes_def drop_buf_slice)
  also have "buf_slice off (60 - off) (c_names c) =
      buf_slice off 20 (c_names c) @ drop 20 (buf_slice off (60 - off) (c_names c))"
    using assms(1) take_buf_slice [of 20 "60 - off" off "c_names c"] by (metis append_take_drop_id le_diff_conv2 add.commute add_leD1)
  finally show ?thesis using assms(2) by (simp add: cstr_def takeWhile_append1)
qed

lemma client_names_code [code]:
  "c_username c = (let b = buf_slice 0 20 (c_names c) in
     if NUL \<in> set b then cstr 0 b else cstr 0 (client_bytes c))"
  "c_display_name c = (let b = buf_slice 20 20 (c_names c) in
     if NUL \<in> set b then cstr 0 b else cstr 20 (client_bytes c))"
  "c_channel_id c = (let b = buf_slice 40 20 (c_names c) in
     if NUL \<in> set b then cstr 0 b else cstr 40 (client_bytes c))"
  by (simp_all add: c_username_def c_display_name_def c_channel_id_def Let_def cstr_client_bytes)

text \<open>\<open>struct pollfd\<close> and the list of them; \<open>revents\<close> holds the \<open>POLLIN\<close> bit only.\<close>

record pollfd =
  fd :: int
  events_in :: bool
  revents_in :: bool

definition zero_pollfd :: pollfd where
  "zero_pollfd = \<lparr>fd = 0, events_in = False, revents_in = False\<rparr>"

text \<open>An entry of \<open>protocol\<close> that was never written, or was cleared to 0, is \<open>None\<close>.\<close>

record pollfd_list_t =
  pl_size :: nat
  pl_cnt :: nat
  pl_list :: "pollfd list"
  pl_protocol :: "transport_protocol_t option list"

section \<open>String checks (types.c)\<close>

definition regexec_ok :: "bre list \<Rightarrow> string \<Rightarrow> bool" where
  "regexec_ok r s = (rmatch r s \<noteq> None)"

definition is_message_id :: "string \<Rightarrow> bool" where
  "is_message_id str = regexec_ok [Rep is_digit 1 None False] str"

definition is_username :: "string \<Rightarrow> bool" where
  "is_username str = regexec_ok [Rep alnum_dash 1 (Some 21) False] str"

definition is_channel_id :: "string \<Rightarrow> bool" where
  "is_channel_id str = regexec_ok [Rep alnum_dash 1 (Some 21) False] str"

definition is_secret :: "string \<Rightarrow> bool" where
  "is_secret str = regexec_ok [Rep alnum_dash 1 (Some 129) False] str"

definition is_display_name :: "string \<Rightarrow> bool" where
  "is_display_name str = regexec_ok [Rep is_graph 1 (Some 21) False] str"

definition is_message_content :: "string \<Rightarrow> bool" where
  "is_message_content str = regexec_ok [Rep is_print 1 (Some 1401) False] str"

text \<open>What the checks accept, without the matcher.\<close>

lemmas str_check_defs =
  is_message_id_def is_username_def is_channel_id_def is_secret_def is_display_name_def
  is_message_content_def regexec_ok_def rmatch_Rep_end

lemma is_username_iff:
  "is_username s \<longleftrightarrow> list_all alnum_dash s \<and> 1 \<le> length s \<and> length s \<le> 21"
  by (simp only: str_check_defs) simp

lemma is_channel_id_iff:
  "is_channel_id s \<longleftrightarrow> list_all alnum_dash s \<and> 1 \<le> length s \<and> length s \<le> 21"
  by (simp only: str_check_defs) simp

lemma is_secret_iff:
  "is_secret s \<longleftrightarrow> list_all alnum_dash s \<and> 1 \<le> length s \<and> length s \<le> 129"
  by (simp only: str_check_defs) simp

lemma is_display_name_iff:
  "is_display_name s \<longleftrightarrow> list_all is_graph s \<and> 1 \<le> length s \<and> length s \<le> 21"
  by (simp only: str_check_defs) simp

lemma is_message_content_iff:
  "is_message_content s \<longleftrightarrow> list_all is_print s \<and> 1 \<le> length s \<and> length s \<le> 1401"
  by (simp only: str_check_defs) simp

lemma is_message_id_iff:
  "is_message_id s \<longleftrightarrow> list_all is_digit s \<and> s \<noteq> []"
  by (simp only: str_check_defs) (auto simp: Suc_le_eq)

lemmas str_check_iffs =
  is_username_iff is_channel_id_iff is_secret_iff is_display_name_iff is_message_content_iff

text \<open>None of the character classes contains a byte that ends or separates fields.\<close>

lemma class_not_NUL [simp]:
  "\<not> alnum_dash NUL" "\<not> is_graph NUL" "\<not> is_print NUL"
  by simp_all

lemma class_not_sep [simp]:
  "\<not> alnum_dash (CHR '' '')" "\<not> is_graph (CHR '' '')"
  "\<not> alnum_dash CR" "\<not> is_graph CR" "\<not> is_print CR"
  by simp_all

declare alnum_dash.simps [simp del] is_graph.simps [simp del] is_print.simps [simp del]

lemma list_all_not_NUL: "list_all p s \<Longrightarrow> \<not> p NUL \<Longrightarrow> NUL \<notin> set s"
  by (auto simp: list_all_iff)

text \<open>Members of the union that were written are read back.\<close>

lemma u16_at_le16 [simp]: "length b = off \<Longrightarrow> u16_at off (b @ le16 w @ t) = w"
proof -
  assume l: "length b = off"
  have "of_char (char_of (unat w mod 256) :: char) + 256 * of_char (char_of (unat w div 256) :: char)
      = unat w"
  proof -
    have "unat w < 65536" using unsigned_less [of w, where ?'a = nat] by simp
    then show ?thesis by (simp add: of_char_of)
  qed
  with l show ?thesis
    by (simp add: u16_at_def buf_at_def nth_append le16_def)
qed

lemma confirm_ref_id_set [simp]: "confirm_ref_id (set_confirm_ref_id w d) = w"
  using u16_at_le16 [of "[]" 0 w "drop 2 d"]
  by (simp add: confirm_ref_id_def set_confirm_ref_id_def buf_write_def numeral_2_eq_2)

section \<open>Enumeration of the small types\<close>

instantiation msg_type_t :: enum
begin

definition enum_msg_type_t :: "msg_type_t list" where
  "enum_msg_type_t = [e_confirm, e_reply, e_auth, e_join, e_msg, e_err, e_bye]"
definition enum_all_msg_type_t :: "(msg_type_t \<Rightarrow> bool) \<Rightarrow> bool" where
  "enum_all_msg_type_t P = list_all P [e_confirm, e_reply, e_auth, e_join, e_msg, e_err, e_bye]"
definition enum_ex_msg_type_t :: "(msg_type_t \<Rightarrow> bool) \<Rightarrow> bool" where
  "enum_ex_msg_type_t P = list_ex P [e_confirm, e_reply, e_auth, e_join, e_msg, e_err, e_bye]"

instance
proof
  show univ: "(UNIV :: msg_type_t set) = set enum_class.enum"
    unfolding enum_msg_type_t_def by (auto intro: msg_type_t.exhaust)
  show "distinct (enum_class.enum :: msg_type_t list)"
    by (simp add: enum_msg_type_t_def)
  fix P :: "msg_type_t \<Rightarrow> bool"
  show "enum_class.enum_all P \<longleftrightarrow> Ball UNIV P"
    unfolding enum_all_msg_type_t_def by (auto, metis msg_type_t.exhaust)
  show "enum_class.enum_ex P \<longleftrightarrow> Bex UNIV P"
    unfolding enum_ex_msg_type_t_def by (auto, metis msg_type_t.exhaust)
qed

end

lemma msg_type_code_inj: "msg_type_code a = msg_type_code b \<longleftrightarrow> a = b"
  by (cases a; cases b; simp)

end
