(* ===== verification/Queue_List.thy ===== *)
theory Queue_List
  imports Types
begin

text \<open>
  The queue as its clients see it: the list of its items in order, each with the address of
  its cell, its id and its data.  A pointer to an item is the address, \<open>None\<close> is \<open>NULL\<close>, and a
  dereference of an address that is no longer in the queue is a use after free.  Addresses are
  never reused.  The theory Queue_Heap shows that the linked cells of queue.c implement these
  operations; main.c and utils.c are modelled over them.
\<close>

type_synonym ptr = "nat option"

record 'd node =
  n_ptr :: nat
  n_id :: id_t
  n_data :: 'd

type_synonym 'd queue = "'d node list"

definition ql_first :: "'d queue \<Rightarrow> ptr" where
  "ql_first q = (case q of [] \<Rightarrow> None | n # _ \<Rightarrow> Some (n_ptr n))"

definition ql_last :: "'d queue \<Rightarrow> ptr" where
  "ql_last q = (if q = [] then None else Some (n_ptr (last q)))"

text \<open>Dereferencing an item pointer.\<close>

fun ql_find :: "nat \<Rightarrow> 'd queue \<Rightarrow> 'd node option" where
  "ql_find a [] = None"
| "ql_find a (n # ns) = (if n_ptr n = a then Some n else ql_find a ns)"

definition ql_at :: "ptr \<Rightarrow> 'd queue \<Rightarrow> 'd node res" where
  "ql_at p q = (case p of None \<Rightarrow> Fault NullDeref | Some a \<Rightarrow>
     (case ql_find a q of None \<Rightarrow> Fault UseAfterFree | Some n \<Rightarrow> Ok n))"

fun ql_succ :: "nat \<Rightarrow> 'd queue \<Rightarrow> ptr" where
  "ql_succ a [] = None"
| "ql_succ a (n # ns) = (if n_ptr n = a then ql_first ns else ql_succ a ns)"

definition ql_next :: "ptr \<Rightarrow> 'd queue \<Rightarrow> ptr res" where
  "ql_next p q = andthen (ql_at p q) (\<lambda>n. Ok (ql_succ (n_ptr n) q))"

text \<open>Writing through an item pointer.\<close>

definition ql_map :: "nat \<Rightarrow> ('d \<Rightarrow> 'd) \<Rightarrow> 'd queue \<Rightarrow> 'd queue" where
  "ql_map a f q = map (\<lambda>n. if n_ptr n = a then n\<lparr>n_data := f (n_data n)\<rparr> else n) q"

definition ql_upd :: "ptr \<Rightarrow> ('d \<Rightarrow> 'd) \<Rightarrow> 'd queue \<Rightarrow> 'd queue res" where
  "ql_upd p f q = andthen (ql_at p q) (\<lambda>n. Ok (ql_map (n_ptr n) f q))"

fun ql_get :: "id_t \<Rightarrow> 'd queue \<Rightarrow> ptr" where
  "ql_get i [] = None"
| "ql_get i (n # ns) = (if n_id n = i then Some (n_ptr n) else ql_get i ns)"

text \<open>The removed item's address and the queue without it.\<close>

fun ql_remove :: "id_t \<Rightarrow> 'd queue \<Rightarrow> ptr \<times> 'd queue" where
  "ql_remove i [] = (None, [])"
| "ql_remove i (n # ns) =
     (if n_id n = i then (Some (n_ptr n), ns)
      else (case ql_remove i ns of (p, ns') \<Rightarrow> (p, n # ns')))"

definition ql_add :: "'d node \<Rightarrow> 'd queue \<Rightarrow> 'd queue" where
  "ql_add n q = q @ [n]"

definition ptrs :: "'d queue \<Rightarrow> nat list" where
  "ptrs q = map n_ptr q"

definition ids :: "'d queue \<Rightarrow> id_t list" where
  "ids q = map n_id q"

section \<open>Laws\<close>

lemma ptrs_simps [simp]:
  "ptrs [] = []" "ptrs (n # q) = n_ptr n # ptrs q" "ptrs (q @ r) = ptrs q @ ptrs r"
  by (simp_all add: ptrs_def)

lemma ids_simps [simp]:
  "ids [] = []" "ids (n # q) = n_id n # ids q" "ids (q @ r) = ids q @ ids r"
  by (simp_all add: ids_def)

lemma ptrs_ql_map [simp]: "ptrs (ql_map a f q) = ptrs q"
  by (auto simp: ptrs_def ql_map_def)

lemma ids_ql_map [simp]: "ids (ql_map a f q) = ids q"
  by (auto simp: ids_def ql_map_def)

lemma length_ql_map [simp]: "length (ql_map a f q) = length q"
  by (simp add: ql_map_def)

lemma ql_find_None [simp]: "ql_find a q = None \<longleftrightarrow> a \<notin> set (ptrs q)"
  by (induction q) auto

lemma ql_find_SomeD: "ql_find a q = Some n \<Longrightarrow> n \<in> set q \<and> n_ptr n = a"
  by (induction q) (auto split: if_splits)

lemma ql_find_distinct:
  "n \<in> set q \<Longrightarrow> distinct (ptrs q) \<Longrightarrow> ql_find (n_ptr n) q = Some n"
  by (induction q) (auto simp: ptrs_def)

lemma ql_at_Ok_iff: "ql_at p q = Ok n \<longleftrightarrow> (\<exists>a. p = Some a \<and> ql_find a q = Some n)"
  by (auto simp: ql_at_def simp del: ql_find_None split: option.splits)

lemma ql_at_mem: "n \<in> set q \<Longrightarrow> distinct (ptrs q) \<Longrightarrow> ql_at (Some (n_ptr n)) q = Ok n"
  by (simp add: ql_at_def ql_find_distinct)

lemma filter_absent: "a \<notin> set (ptrs q) \<Longrightarrow> filter (\<lambda>m. n_ptr m \<noteq> a) q = q"
  by (induction q) auto

lemma ql_map_absent: "a \<notin> set (ptrs q) \<Longrightarrow> ql_map a g q = q"
  by (induction q) (auto simp: ql_map_def)

lemma ql_map_map: "ql_map a f (ql_map a g q) = ql_map a (\<lambda>d. f (g d)) q"
  by (simp add: ql_map_def)

lemma ql_find_map:
  "ql_find b (ql_map a f q) =
     map_option (\<lambda>n. if b = a then n\<lparr>n_data := f (n_data n)\<rparr> else n) (ql_find b q)"
  by (induction q) (auto simp: ql_map_def)

lemma ql_remove_get: "fst (ql_remove i q) = ql_get i q"
  by (induction q) (auto split: prod.splits)

lemma ql_remove_none: "i \<notin> set (ids q) \<Longrightarrow> ql_remove i q = (None, q)"
  by (induction q) auto

lemma ql_remove_split:
  "i \<in> set (ids q) \<Longrightarrow> \<exists>xs n ys. q = xs @ n # ys \<and> n_id n = i \<and> i \<notin> set (ids xs) \<and>
     ql_remove i q = (Some (n_ptr n), xs @ ys)"
proof (induction q)
  case (Cons m q)
  show ?case
  proof (cases "n_id m = i")
    case True
    then show ?thesis by (intro exI [of _ "[]"]) auto
  next
    case False
    with Cons obtain xs n ys where "q = xs @ n # ys" "n_id n = i" "i \<notin> set (ids xs)"
      "ql_remove i q = (Some (n_ptr n), xs @ ys)" by auto
    with False show ?thesis by (intro exI [of _ "m # xs"]) auto
  qed
qed simp

text \<open>With distinct ids, removal is a filter.\<close>

lemma ql_remove_filter:
  "distinct (ids q) \<Longrightarrow> snd (ql_remove i q) = filter (\<lambda>n. n_id n \<noteq> i) q"
proof (induction q)
  case (Cons n q)
  have "filter (\<lambda>m. n_id m \<noteq> n_id n) q = q" if "n_id n \<notin> set (ids q)"
    using that by (auto simp: ids_def filter_id_conv intro: rev_image_eqI)
  with Cons show ?case by (auto split: prod.splits)
qed simp

lemma ql_remove_map: "snd (ql_remove i (ql_map a g q)) = ql_map a g (snd (ql_remove i q))"
  by (induction q) (auto simp: ql_map_def case_prod_beta)

lemma set_ql_remove: "set (snd (ql_remove i q)) \<subseteq> set q"
  by (induction q) (auto split: prod.splits)

lemma distinct_ql_remove: "distinct (ptrs q) \<Longrightarrow> distinct (ptrs (snd (ql_remove i q)))"
proof (cases "i \<in> set (ids q)")
  case True
  assume d: "distinct (ptrs q)"
  from ql_remove_split [OF True] d show ?thesis by auto
qed (simp add: ql_remove_none)

lemma ql_get_SomeD: "ql_get i q = Some a \<Longrightarrow> \<exists>n\<in>set q. n_ptr n = a \<and> n_id n = i"
  by (induction q) (auto split: if_splits)

lemma ql_get_None_iff: "ql_get i q = None \<longleftrightarrow> i \<notin> set (ids q)"
  by (induction q) auto

lemma ql_get_append: "ql_get i (q @ r) = (case ql_get i q of None \<Rightarrow> ql_get i r | Some a \<Rightarrow> Some a)"
  by (induction q) auto

lemma ql_succ_split:
  "a \<notin> set (ptrs xs) \<Longrightarrow> n_ptr n = a \<Longrightarrow> ql_succ a (xs @ n # ys) = ql_first ys"
  by (induction xs) auto

end
