(* ===== verification/Queue_Heap.thy ===== *)
theory Queue_Heap
  imports Queue_List "HOL-Library.Monad_Syntax"
begin

text \<open>
  The linked list of queue.c over an explicit heap of cells.  A function returns \<open>None\<close> when it
  dereferences a pointer to no cell or when its loop does not end; the lemmas show that neither
  happens on a list of cells (\<open>chain\<close>), and that each function computes the operation of
  Queue_List on the list the cells represent.
\<close>

record 'd cell =
  q_id :: id_t
  q_data :: 'd
  q_next :: ptr

type_synonym 'd heap = "nat \<Rightarrow> 'd cell option"

text \<open>
  \<open>queue_create_item\<close>: the address comes from \<open>malloc\<close> (\<open>None\<close> when it fails); the cell is
  cleared, so its data is the all-zero value \<open>z\<close>.
\<close>

definition queue_create_item :: "'d \<Rightarrow> ptr \<Rightarrow> 'd heap \<Rightarrow> 'd heap \<times> ptr" where
  "queue_create_item z a h = (case a of None \<Rightarrow> (h, None)
     | Some x \<Rightarrow> (h(x \<mapsto> \<lparr>q_id = 0, q_data = z, q_next = None\<rparr>), Some x))"

definition queue_first :: "ptr \<Rightarrow> ptr" where
  "queue_first first = first"

definition queue_next :: "'d heap \<Rightarrow> ptr \<Rightarrow> ptr option" where
  "queue_next h item = do { a \<leftarrow> item; c \<leftarrow> h a; Some (q_next c) }"

partial_function (option) length_loop :: "'d heap \<Rightarrow> int \<Rightarrow> ptr \<Rightarrow> int option" where
  "length_loop h cnt item = (case item of None \<Rightarrow> Some cnt
     | Some a \<Rightarrow> do { c \<leftarrow> h a; length_loop h (cnt + 1) (q_next c) })"

definition queue_length :: "'d heap \<Rightarrow> ptr \<Rightarrow> int option" where
  "queue_length h first = length_loop h 0 (queue_first first)"

partial_function (option) last_loop :: "'d heap \<Rightarrow> nat \<Rightarrow> ptr option" where
  "last_loop h a = do { c \<leftarrow> h a;
     (case q_next c of None \<Rightarrow> Some (Some a) | Some b \<Rightarrow> last_loop h b) }"

definition queue_last :: "'d heap \<Rightarrow> ptr \<Rightarrow> ptr option" where
  "queue_last h first = (case first of None \<Rightarrow> Some None | Some a \<Rightarrow> last_loop h a)"

definition queue_add :: "'d heap \<Rightarrow> ptr \<Rightarrow> ptr \<Rightarrow> ('d heap \<times> ptr) option" where
  "queue_add h first item = do {
     l \<leftarrow> queue_last h first;
     (case l of None \<Rightarrow> Some (h, item)
      | Some a \<Rightarrow> do { c \<leftarrow> h a; Some (h(a \<mapsto> c\<lparr>q_next := item\<rparr>), first) }) }"

partial_function (option) get_loop :: "'d heap \<Rightarrow> id_t \<Rightarrow> ptr \<Rightarrow> ptr option" where
  "get_loop h i item = (case item of None \<Rightarrow> Some None
     | Some a \<Rightarrow> do { c \<leftarrow> h a;
         (if q_id c \<noteq> i then get_loop h i (q_next c) else Some item) })"

definition queue_get :: "'d heap \<Rightarrow> ptr \<Rightarrow> id_t \<Rightarrow> ptr option" where
  "queue_get h first i = get_loop h i first"

text \<open>\<open>last_item\<close> is the cell before \<open>item\<close>.\<close>

partial_function (option) remove_loop ::
    "'d heap \<Rightarrow> id_t \<Rightarrow> nat \<Rightarrow> ptr \<Rightarrow> ('d heap \<times> ptr) option" where
  "remove_loop h i last_item item = (case item of None \<Rightarrow> Some (h, None)
     | Some a \<Rightarrow> do { c \<leftarrow> h a;
         (if q_id c = i
          then do { l \<leftarrow> h last_item; Some (h(last_item \<mapsto> l\<lparr>q_next := q_next c\<rparr>), item) }
          else remove_loop h i a (q_next c)) })"

text \<open>The new heap, the new \<open>first\<close> and the removed item.\<close>

definition queue_remove :: "'d heap \<Rightarrow> ptr \<Rightarrow> id_t \<Rightarrow> ('d heap \<times> ptr \<times> ptr) option" where
  "queue_remove h first i = (case first of None \<Rightarrow> Some (h, first, None)
     | Some a \<Rightarrow> do { c \<leftarrow> h a;
         (if q_id c = i then Some (h, q_next c, first)
          else do { (h', r) \<leftarrow> remove_loop h i a (q_next c); Some (h', first, r) }) })"

definition queue_destroy_item :: "'d heap \<Rightarrow> ptr \<Rightarrow> 'd heap option" where
  "queue_destroy_item h item = (case item of None \<Rightarrow> Some h
     | Some a \<Rightarrow> do { _ \<leftarrow> h a; Some (h(a := None)) })"

partial_function (option) queue_destroy :: "'d heap \<Rightarrow> ptr \<Rightarrow> 'd heap option" where
  "queue_destroy h first = (case first of None \<Rightarrow> Some h
     | Some a \<Rightarrow> do { c \<leftarrow> h a;
         (h', first', r) \<leftarrow> queue_remove h first (q_id c);
         h'' \<leftarrow> queue_destroy_item h' r;
         queue_destroy h'' first' })"

section \<open>Cells that form a list\<close>

fun chain :: "'d heap \<Rightarrow> ptr \<Rightarrow> 'd queue \<Rightarrow> bool" where
  "chain h p [] = (p = None)"
| "chain h p (n # q) = (p = Some (n_ptr n) \<and>
     (\<exists>c. h (n_ptr n) = Some c \<and> q_id c = n_id n \<and> q_data c = n_data n \<and> chain h (q_next c) q))"

text \<open>A part of a chain that ends at \<open>e\<close>.\<close>

fun seg :: "'d heap \<Rightarrow> ptr \<Rightarrow> 'd queue \<Rightarrow> ptr \<Rightarrow> bool" where
  "seg h p [] e = (p = e)"
| "seg h p (n # q) e = (p = Some (n_ptr n) \<and>
     (\<exists>c. h (n_ptr n) = Some c \<and> q_id c = n_id n \<and> q_data c = n_data n \<and> seg h (q_next c) q e))"

lemma chain_append: "chain h p (q @ r) \<longleftrightarrow> (\<exists>e. seg h p q e \<and> chain h e r)"
  by (induction q arbitrary: p) auto

lemma chain_det: "chain h p q \<Longrightarrow> chain h p r \<Longrightarrow> q = r"
  by (induction q arbitrary: p r) (auto elim: chain.elims)

lemma chain_frame: "a \<notin> set (ptrs q) \<Longrightarrow> chain (h(a := c)) p q = chain h p q"
  by (induction q arbitrary: p) auto

lemma seg_frame: "a \<notin> set (ptrs q) \<Longrightarrow> seg (h(a := c)) p q e = seg h p q e"
  by (induction q arbitrary: p) auto

text \<open>A list that ends has no cell twice.\<close>

lemma chain_distinct: "chain h p q \<Longrightarrow> distinct (ptrs q)"
proof (induction q arbitrary: p)
  case (Cons n q)
  then obtain c where c: "h (n_ptr n) = Some c" "chain h (q_next c) q" "p = Some (n_ptr n)"
    by auto
  have "n_ptr n \<notin> set (ptrs q)"
  proof
    assume "n_ptr n \<in> set (ptrs q)"
    then obtain m where "m \<in> set q" and m: "n_ptr m = n_ptr n"
      by (auto simp: ptrs_def)
    then obtain xs ys where q: "q = xs @ m # ys" by (auto simp: in_set_conv_decomp)
    with c(2) obtain e where "chain h e (m # ys)" by (auto simp: chain_append)
    with m c have "chain h (q_next c) ys" by auto
    with c(2) q have "ys = xs @ m # ys" by (blast dest: chain_det)
    then have "length ys = length (xs @ m # ys)" by (rule arg_cong)
    then show False by simp
  qed
  with Cons.IH c show ?case by auto
qed simp

lemma chain_lookup: "chain h p q \<Longrightarrow> n \<in> set q \<Longrightarrow> h (n_ptr n) \<noteq> None"
  by (induction q arbitrary: p) auto

section \<open>The operations on chains\<close>

text \<open>One unfolding of each loop, at an allocated cell.\<close>

lemma loop_steps [simp]:
  "length_loop h k None = Some k"
  "h a = Some c \<Longrightarrow> length_loop h k (Some a) = length_loop h (k + 1) (q_next c)"
  "get_loop h i None = Some None"
  "h a = Some c \<Longrightarrow> get_loop h i (Some a) =
     (if q_id c \<noteq> i then get_loop h i (q_next c) else Some (Some a))"
  "remove_loop h i l None = Some (h, None)"
  "h a = Some c \<Longrightarrow> remove_loop h i l (Some a) =
     (if q_id c = i
      then do { d \<leftarrow> h l; Some (h(l \<mapsto> d\<lparr>q_next := q_next c\<rparr>), Some a) }
      else remove_loop h i a (q_next c))"
  by (subst length_loop.simps get_loop.simps remove_loop.simps, simp)+

lemma last_loop_step:
  "h a = Some c \<Longrightarrow> last_loop h a =
     (case q_next c of None \<Rightarrow> Some (Some a) | Some b \<Rightarrow> last_loop h b)"
  by (subst last_loop.simps) simp

lemma length_loop_chain: "chain h p q \<Longrightarrow> length_loop h k p = Some (k + int (length q))"
  by (induction q arbitrary: p k) auto

lemma last_loop_chain: "chain h (Some a) q \<Longrightarrow> last_loop h a = Some (ql_last q)"
proof (induction q arbitrary: a)
  case (Cons n q)
  then obtain c where c: "a = n_ptr n" "h a = Some c" "chain h (q_next c) q" by auto
  with Cons.IH show ?case
    by (cases "q_next c"; cases q) (auto simp: last_loop_step ql_last_def)
qed simp

lemma queue_last_chain: "chain h p q \<Longrightarrow> queue_last h p = Some (ql_last q)"
  using last_loop_chain [of h _ q]
  by (cases p; cases q) (auto simp: queue_last_def ql_last_def)

lemma get_loop_chain: "chain h p q \<Longrightarrow> get_loop h i p = Some (ql_get i q)"
  by (induction q arbitrary: p) auto

lemma seg_relink:
  assumes "seg h p (q @ [l]) e" and "distinct (ptrs (q @ [l]))" and "h (n_ptr l) = Some c"
  shows "seg (h(n_ptr l \<mapsto> c\<lparr>q_next := e'\<rparr>)) p (q @ [l]) e'"
  using assms by (induction q arbitrary: p) auto

lemma seg_append: "seg h p (q @ r) e \<longleftrightarrow> (\<exists>d. seg h p q d \<and> seg h d r e)"
  by (induction q arbitrary: p) auto

lemma queue_add_chain:
  assumes q: "chain h p q" and a: "h (n_ptr n) = Some c" "n_ptr n \<notin> set (ptrs q)"
    and c: "q_id c = n_id n" "q_data c = n_data n" "q_next c = None"
  shows "\<exists>h' p'. queue_add h p (Some (n_ptr n)) = Some (h', p') \<and> chain h' p' (q @ [n])"
proof (cases q rule: rev_cases)
  case Nil
  with assms show ?thesis
    by (auto simp: queue_add_def queue_last_def)
next
  case (snoc q' l)
  then have s: "seg h p (q' @ [l]) None" using q by (auto simp: chain_append seg_append)
  then obtain d where d: "h (n_ptr l) = Some d" by (auto simp: seg_append)
  let ?h = "h(n_ptr l \<mapsto> d\<lparr>q_next := Some (n_ptr n)\<rparr>)"
  have "seg ?h p (q' @ [l]) (Some (n_ptr n))"
    using seg_relink [OF s _ d] chain_distinct [OF q] snoc by simp
  moreover have "chain ?h (Some (n_ptr n)) [n]"
    using a c snoc by auto
  ultimately have "chain ?h p (q @ [n])" using snoc chain_append by metis
  moreover have "queue_add h p (Some (n_ptr n)) = Some (?h, p)"
    using queue_last_chain [OF q] snoc d by (simp add: queue_add_def ql_last_def)
  ultimately show ?thesis by blast
qed

lemma remove_loop_chain:
  assumes "seg h p (q @ [l]) e" and "chain h e r" and "distinct (ptrs (q @ l # r))"
  shows "\<exists>h'. remove_loop h i (n_ptr l) e = Some (h', ql_get i r) \<and>
     chain h' p (q @ l # snd (ql_remove i r)) \<and>
     (\<forall>a. a \<notin> set (ptrs (q @ l # r)) \<longrightarrow> h' a = h a) \<and> dom h' = dom h"
  using assms
proof (induction r arbitrary: q l e)
  case Nil
  then have "chain h p (q @ [l])" by (auto simp: seg_append chain_append)
  with Nil show ?case by auto
next
  case (Cons n r)
  then obtain c where c: "e = Some (n_ptr n)" "h (n_ptr n) = Some c" "q_id c = n_id n"
    "q_data c = n_data n" "chain h (q_next c) r" by auto
  show ?case
  proof (cases "n_id n = i")
    case True
    obtain d where d: "h (n_ptr l) = Some d" using Cons.prems(1) by (auto simp: seg_append)
    let ?h = "h(n_ptr l \<mapsto> d\<lparr>q_next := q_next c\<rparr>)"
    have "seg ?h p (q @ [l]) (q_next c)"
      using seg_relink [OF Cons.prems(1) _ d] Cons.prems(3) by simp
    moreover have "chain ?h (q_next c) r"
      using c(5) Cons.prems(3) by (auto simp: chain_frame)
    ultimately have "chain ?h p ((q @ [l]) @ r)" using chain_append by metis
    with True c d show ?thesis by auto
  next
    case False
    have "seg h p ((q @ [l]) @ [n]) (q_next c)"
      using Cons.prems(1) c seg_append [of h p "q @ [l]" "[n]"] by auto
    from Cons.IH [OF this c(5)] Cons.prems(3) obtain h' where
      "remove_loop h i (n_ptr n) (q_next c) = Some (h', ql_get i r)"
      "chain h' p ((q @ [l]) @ n # snd (ql_remove i r))"
      "\<forall>a. a \<notin> set (ptrs (q @ l # n # r)) \<longrightarrow> h' a = h a" "dom h' = dom h"
      by auto
    with False c show ?thesis by (auto split: prod.splits)
  qed
qed

lemma queue_remove_chain:
  assumes q: "chain h p q"
  shows "\<exists>h' p'. queue_remove h p i = Some (h', p', ql_get i q) \<and>
     chain h' p' (snd (ql_remove i q)) \<and>
     (\<forall>a. a \<notin> set (ptrs q) \<longrightarrow> h' a = h a) \<and> dom h' = dom h"
proof (cases q)
  case Nil
  with q show ?thesis by (auto simp: queue_remove_def)
next
  case (Cons n r)
  with q obtain c where c: "p = Some (n_ptr n)" "h (n_ptr n) = Some c" "q_id c = n_id n"
    "q_data c = n_data n" "chain h (q_next c) r" by auto
  show ?thesis
  proof (cases "n_id n = i")
    case True
    with Cons c show ?thesis by (auto simp: queue_remove_def)
  next
    case False
    have "seg h p ([] @ [n]) (q_next c)" using c by auto
    from remove_loop_chain [OF this c(5), of i] chain_distinct [OF q] Cons obtain h' where
      "remove_loop h i (n_ptr n) (q_next c) = Some (h', ql_get i r)"
      "chain h' p (n # snd (ql_remove i r))"
      "\<forall>a. a \<notin> set (ptrs q) \<longrightarrow> h' a = h a" "dom h' = dom h" by simp blast
    with False c Cons show ?thesis by (auto simp: queue_remove_def split: prod.splits)
  qed
qed

section \<open>What a client of the queue relies on\<close>

text \<open>
  The contract of the queue: an implementation whose memory \<open>m\<close> represents a list of items.
  \<open>detached m n\<close> says that item \<open>n\<close> was created and filled in but is in no queue.
\<close>

locale queue_impl =
  fixes rep :: "'m \<Rightarrow> 'd queue \<Rightarrow> bool"
    and detached :: "'m \<Rightarrow> 'd node \<Rightarrow> bool"
    and add :: "'m \<Rightarrow> ptr \<Rightarrow> 'm option"
    and get :: "'m \<Rightarrow> id_t \<Rightarrow> ptr option"
    and remove :: "'m \<Rightarrow> id_t \<Rightarrow> ('m \<times> ptr) option"
    and len :: "'m \<Rightarrow> int option"
  assumes add_rep: "rep m q \<Longrightarrow> detached m n \<Longrightarrow> n_ptr n \<notin> set (ptrs q) \<Longrightarrow>
      \<exists>m'. add m (Some (n_ptr n)) = Some m' \<and> rep m' (ql_add n q)"
    and get_rep: "rep m q \<Longrightarrow> get m i = Some (ql_get i q)"
    and remove_rep: "rep m q \<Longrightarrow>
      \<exists>m'. remove m i = Some (m', fst (ql_remove i q)) \<and> rep m' (snd (ql_remove i q))"
    and len_rep: "rep m q \<Longrightarrow> len m = Some (int (length q))"
begin

lemma get_after_add:
  assumes "rep m q" "detached m n" "n_ptr n \<notin> set (ptrs q)" "n_id n \<notin> set (ids q)"
  shows "\<exists>m'. add m (Some (n_ptr n)) = Some m' \<and> get m' (n_id n) = Some (Some (n_ptr n)) \<and>
     len m' = Some (int (length q) + 1)"
proof -
  from add_rep [OF assms(1-3)] obtain m' where
    m': "add m (Some (n_ptr n)) = Some m'" "rep m' (ql_add n q)" by blast
  from assms(4) have "ql_get (n_id n) (ql_add n q) = Some (n_ptr n)"
    by (simp add: ql_add_def ql_get_append ql_get_None_iff [THEN iffD2])
  with m' get_rep [OF m'(2)] len_rep [OF m'(2)] show ?thesis
    by (auto simp: ql_add_def)
qed

lemma get_after_remove:
  assumes "rep m q" "distinct (ids q)"
  shows "\<exists>m' r. remove m i = Some (m', r) \<and> get m' i = Some None \<and>
     (\<forall>j. j \<noteq> i \<longrightarrow> get m' j = get m j)"
proof -
  from remove_rep [OF assms(1), of i] obtain m' where
    m': "remove m i = Some (m', fst (ql_remove i q))" "rep m' (snd (ql_remove i q))" by blast
  have g: "ql_get j (snd (ql_remove i q)) = (if j = i then None else ql_get j q)" for j
    using assms(2) by (induction q) (auto split: prod.splits simp: ql_get_None_iff)
  show ?thesis
    using m' get_rep [OF m'(2)] get_rep [OF assms(1)] by (auto simp: g)
qed

text \<open>Taking the first item out again and again yields the items in the order of insertion.\<close>

lemma remove_first:
  assumes "rep m (n # q)"
  shows "\<exists>m'. remove m (n_id n) = Some (m', Some (n_ptr n)) \<and> rep m' q"
  using remove_rep [OF assms, of "n_id n"] by simp

end

text \<open>A queue of queue.c together with its heap.\<close>

type_synonym 'd qmem = "'d heap \<times> ptr"

definition chain_rep :: "'d qmem \<Rightarrow> 'd queue \<Rightarrow> bool" where
  "chain_rep m q = chain (fst m) (snd m) q"

definition chain_detached :: "'d qmem \<Rightarrow> 'd node \<Rightarrow> bool" where
  "chain_detached m n =
     (fst m (n_ptr n) = Some \<lparr>q_id = n_id n, q_data = n_data n, q_next = None\<rparr>)"

definition qm_add :: "'d qmem \<Rightarrow> ptr \<Rightarrow> 'd qmem option" where
  "qm_add m item = queue_add (fst m) (snd m) item"

definition qm_get :: "'d qmem \<Rightarrow> id_t \<Rightarrow> ptr option" where
  "qm_get m i = queue_get (fst m) (snd m) i"

definition qm_remove :: "'d qmem \<Rightarrow> id_t \<Rightarrow> ('d qmem \<times> ptr) option" where
  "qm_remove m i = do { (h, p, r) \<leftarrow> queue_remove (fst m) (snd m) i; Some ((h, p), r) }"

definition qm_length :: "'d qmem \<Rightarrow> int option" where
  "qm_length m = queue_length (fst m) (snd m)"

lemmas qm_defs = chain_rep_def chain_detached_def qm_add_def qm_get_def qm_remove_def qm_length_def

interpretation linked: queue_impl chain_rep chain_detached qm_add qm_get qm_remove qm_length
proof
  fix m :: "'a qmem" and q and n
  assume "chain_rep m q" "chain_detached m n" "n_ptr n \<notin> set (ptrs q)"
  then show "\<exists>m'. qm_add m (Some (n_ptr n)) = Some m' \<and> chain_rep m' (ql_add n q)"
    using queue_add_chain
      [of "fst m" "snd m" q n "\<lparr>q_id = n_id n, q_data = n_data n, q_next = None\<rparr>"]
    by (simp add: qm_defs ql_add_def)
next
  fix m :: "'a qmem" and q i
  assume r: "chain_rep m q"
  then show "qm_get m i = Some (ql_get i q)"
    by (simp add: qm_defs queue_get_def get_loop_chain)
  show "\<exists>m'. qm_remove m i = Some (m', fst (ql_remove i q)) \<and> chain_rep m' (snd (ql_remove i q))"
    using queue_remove_chain [of "fst m" "snd m" q i] r by (auto simp: qm_defs ql_remove_get)
  show "qm_length m = Some (int (length q))"
    using r by (simp add: qm_defs queue_length_def queue_first_def length_loop_chain)
qed

text \<open>
  C19. queue_add links a new item behind the last one: on a well-formed list the two calls of
  queue_last return, and the cells then form the old list followed by the new item.
\<close>

theorem queue_add_appends:
  assumes "chain h p q" and "h (n_ptr n) = Some \<lparr>q_id = n_id n, q_data = n_data n, q_next = None\<rparr>"
    and "n_ptr n \<notin> set (ptrs q)"
  shows "\<exists>h' p'. queue_add h p (Some (n_ptr n)) = Some (h', p') \<and> chain h' p' (ql_add n q)"
  using linked.add_rep [of "(h, p)" q n] assms by (auto simp: qm_defs)

definition demo_heap :: "nat heap" where
  "demo_heap = [1 \<mapsto> \<lparr>q_id = 7, q_data = 70, q_next = Some 2\<rparr>,
                2 \<mapsto> \<lparr>q_id = 8, q_data = 80, q_next = None\<rparr>,
                3 \<mapsto> \<lparr>q_id = 9, q_data = 90, q_next = None\<rparr>]"

definition demo_queue :: "nat queue" where
  "demo_queue = [\<lparr>n_ptr = 1, n_id = 7, n_data = 70\<rparr>, \<lparr>n_ptr = 2, n_id = 8, n_data = 80\<rparr>]"

lemma demo_chain: "chain demo_heap (Some 1) demo_queue"
  by (simp add: demo_heap_def demo_queue_def)

theorem queue_add_appends_witness:
  "\<exists>h' p'. queue_add demo_heap (Some 1) (Some 3) = Some (h', p') \<and>
     chain h' p' (ql_add \<lparr>n_ptr = 3, n_id = 9, n_data = 90\<rparr> demo_queue)"
  using queue_add_appends [OF demo_chain, of "\<lparr>n_ptr = 3, n_id = 9, n_data = 90\<rparr>"]
  by (simp add: demo_heap_def demo_queue_def)

text \<open>
  C20. queue_remove on a well-formed list returns the first item with the id (or NULL), the
  remaining cells form the list without that item, and no cell outside the list is written.
\<close>

theorem queue_remove_unlinks:
  assumes "chain h p q"
  shows "\<exists>h' p'. queue_remove h p i = Some (h', p', fst (ql_remove i q)) \<and>
     chain h' p' (snd (ql_remove i q)) \<and> (\<forall>a. a \<notin> set (ptrs q) \<longrightarrow> h' a = h a)"
  using queue_remove_chain [OF assms, of i] by (auto simp: ql_remove_get)

theorem queue_remove_unlinks_witness:
  "\<exists>h' p'. queue_remove demo_heap (Some 1) 8 = Some (h', p', fst (ql_remove 8 demo_queue)) \<and>
     chain h' p' (snd (ql_remove 8 demo_queue)) \<and>
     (\<forall>a. a \<notin> set (ptrs demo_queue) \<longrightarrow> h' a = demo_heap a)"
  using queue_remove_unlinks [OF demo_chain, of 8] by simp

text \<open>
  After queue_remove of an id, queue_get no longer finds it and finds every other id where it
  was, provided that the ids in the queue are distinct.
\<close>

lemma queue_get_remove:
  assumes "chain h p q" and "distinct (ids q)"
  shows "\<exists>h' p' r. queue_remove h p i = Some (h', p', r) \<and> queue_get h' p' i = Some None \<and>
     (\<forall>j. j \<noteq> i \<longrightarrow> queue_get h' p' j = queue_get h p j)"
  using linked.get_after_remove [of "(h, p)" q i] assms
  by (auto simp: qm_defs bind_eq_Some_conv)

section \<open>Destroying a queue\<close>

lemma queue_destroy_simps [simp]:
  "queue_destroy h None = Some h"
  "h a = Some c \<Longrightarrow> queue_destroy h (Some a) =
     do { (h', first', r) \<leftarrow> queue_remove h (Some a) (q_id c);
          h'' \<leftarrow> queue_destroy_item h' r;
          queue_destroy h'' first' }"
  by (subst queue_destroy.simps, simp)+

text \<open>
  C21. queue_destroy ends on every well-formed list, frees each of its cells exactly once and
  leaves every other cell as it was.
\<close>

theorem queue_destroy_frees:
  assumes "chain h p q"
  shows "queue_destroy h p = Some (\<lambda>a. if a \<in> set (ptrs q) then None else h a)"
  using assms
proof (induction q arbitrary: h p)
  case Nil
  then show ?case by simp
next
  case (Cons n q)
  then obtain c where c: "p = Some (n_ptr n)" "h (n_ptr n) = Some c" "q_id c = n_id n"
    "chain h (q_next c) q" by auto
  have "n_ptr n \<notin> set (ptrs q)" using chain_distinct [OF Cons.prems] by simp
  then have "chain (h(n_ptr n := None)) (q_next c) q" using c(4) by (simp add: chain_frame)
  note IH = Cons.IH [OF this]
  have "queue_destroy h p = queue_destroy (h(n_ptr n := None)) (q_next c)"
    using c by (simp add: queue_remove_def queue_destroy_item_def)
  then show ?case by (auto simp only: IH intro!: ext split: if_splits) auto
qed

theorem queue_destroy_frees_witness:
  "queue_destroy demo_heap (Some 1) = Some (\<lambda>a. if a \<in> set (ptrs demo_queue) then None else demo_heap a)"
  by (rule queue_destroy_frees [OF demo_chain])

end
