(* ===== verification/Errors.thy ===== *)
theory Errors
  imports Types
begin

text \<open>Error codes and their texts (error.h, error.c).\<close>

datatype error_code =
    error_argv_malformed_argv
  | error_memo_mem_alloc_fail
  | error_fatl_client_missing
  | error_serv_sock_init_fail
  | error_serv_addr_bind_fail
  | error_serv_tcp_listn_fail
  | error_serv_tcp_accpt_fail
  | error_pars_tcp_parse_fail
  | error_pars_tcp_no_crlf_ch
  | error_pars_udp_parse_fail
  | error_comp_tcp_no_confirm

fun error_num :: "error_code \<Rightarrow> int" where
  "error_num error_argv_malformed_argv = 1"
| "error_num error_memo_mem_alloc_fail = 2"
| "error_num error_fatl_client_missing = 20"
| "error_num error_serv_sock_init_fail = 101"
| "error_num error_serv_addr_bind_fail = 102"
| "error_num error_serv_tcp_listn_fail = 103"
| "error_num error_serv_tcp_accpt_fail = 104"
| "error_num error_pars_tcp_parse_fail = 201"
| "error_num error_pars_tcp_no_crlf_ch = 202"
| "error_num error_pars_udp_parse_fail = 203"
| "error_num error_comp_tcp_no_confirm = 301"

text \<open>\<open>error_out\<close> returns the code it is given; its log lines exist in debug builds only.\<close>

definition error_out :: "error_code \<Rightarrow> int" where
  "error_out e = error_num e"

text \<open>\<open>_get_error_msg\<close>, for any \<open>int\<close> passed as a code.\<close>

definition get_error_msg :: "int \<Rightarrow> string" where
  "get_error_msg e =
     (if e = error_num error_argv_malformed_argv then ''Malformed server arguments''
      else if e = error_num error_memo_mem_alloc_fail then ''Memory allocation failed''
      else if e = error_num error_fatl_client_missing then ''One of the clients is missing...''
      else if e = error_num error_serv_sock_init_fail then ''Socket creation failed''
      else if e = error_num error_serv_addr_bind_fail then ''Address binding failed''
      else if e = error_num error_serv_tcp_listn_fail then ''Listening on TCP socket failed''
      else if e = error_num error_serv_tcp_accpt_fail then ''Accept on TCP socket failed''
      else if e = error_num error_pars_tcp_parse_fail then ''TCP message parse failed''
      else if e = error_num error_pars_tcp_no_crlf_ch then ''Message doesn'' @ [CHR 0x27] @ ''t end with '' @ [CHR 0x5C] @ ''r'' @ [CHR 0x5C] @ ''n''
      else if e = error_num error_comp_tcp_no_confirm then ''Confirm is not part of TCP''
      else if e = error_num error_pars_udp_parse_fail then ''UDP message parse failed''
      else ''Unknown error'')"

text \<open>No code is 0, the value that the callers take for success, and the codes are distinct.\<close>

lemma error_num_nonzero [simp]: "error_num e \<noteq> 0"
  by (cases e) simp_all

lemma error_num_inj: "error_num a = error_num b \<longleftrightarrow> a = b"
  by (cases a; cases b; simp)

lemma error_known_msg: "get_error_msg (error_out e) \<noteq> ''Unknown error''"
  by (cases e) (simp_all add: get_error_msg_def error_out_def)

text \<open>The return value of a function that returns 0 or an error code.\<close>

type_synonym rc = "error_code option"

end
