(* ===== verification/Utils.thy ===== *)
theory Utils
  imports Queue_List Errors
begin

text \<open>
  Operations upon server data (utils.c): the list of polled descriptors, client lookup, the next
  timeout, and the window of message ids that were already confirmed.
\<close>

section \<open>The list of polled descriptors\<close>

definition pl_at :: "pollfd_list_t \<Rightarrow> nat \<Rightarrow> pollfd res" where
  "pl_at p i = (if i < length (pl_list p) then Ok (pl_list p ! i) else Fault BufOverflow)"

definition pl_set_fd :: "nat \<Rightarrow> int \<Rightarrow> pollfd_list_t \<Rightarrow> pollfd_list_t" where
  "pl_set_fd i f p = p\<lparr>pl_list := (pl_list p)[i := (pl_list p ! i)\<lparr>fd := f\<rparr>]\<rparr>"

text \<open>
  Access to the array of the protocols.  The list is empty when the pointer is NULL, so there an
  access of any index is a fault.
\<close>

definition pl_prot_at :: "pollfd_list_t \<Rightarrow> nat \<Rightarrow> transport_protocol_t option res" where
  "pl_prot_at p i = (if i < length (pl_protocol p) then Ok (pl_protocol p ! i) else Fault NullDeref)"

definition pl_set_prot ::
    "nat \<Rightarrow> transport_protocol_t option \<Rightarrow> pollfd_list_t \<Rightarrow> pollfd_list_t res" where
  "pl_set_prot i x p = (if i < length (pl_protocol p)
     then Ok (p\<lparr>pl_protocol := (pl_protocol p)[i := x]\<rparr>) else Fault NullDeref)"

text \<open>
  \<open>resize_poll_fd\<close>; \<open>ok1\<close> and \<open>ok2\<close> say whether the two calls of \<open>realloc\<close> succeed.  A failed
  call leaves NULL in the struct, and the size keeps its old value.  A later call then works on
  what there is: it sets the length of the first array again, and gives the second one a block
  whose entries are not set (\<open>None\<close>).
\<close>

definition resize_poll_fd :: "bool \<Rightarrow> bool \<Rightarrow> pollfd_list_t \<Rightarrow> rc \<times> pollfd_list_t" where
  "resize_poll_fd ok1 ok2 p =
     (let new_size = pl_size p + POLL_REALLOC_DELTA in
      if \<not> ok1 then (Some error_memo_mem_alloc_fail, p\<lparr>pl_list := []\<rparr>)
      else let p1 = p\<lparr>pl_list := take (pl_size p) (pl_list p) @
             replicate POLL_REALLOC_DELTA zero_pollfd\<rparr> in
      if \<not> ok2 then (Some error_memo_mem_alloc_fail, p1\<lparr>pl_protocol := []\<rparr>)
      else (None, p1\<lparr>pl_protocol := take (pl_size p) (pl_protocol p @ replicate (pl_size p) None) @
                       replicate POLL_REALLOC_DELTA None,
                     pl_size := new_size\<rparr>))"

function free_loop :: "pollfd_list_t \<Rightarrow> nat \<Rightarrow> nat option res" where
  "free_loop p i =
     (if i < pl_size p then
        andthen (pl_at p i) (\<lambda>e. if fd e = 0 then Ok (Some i) else free_loop p (Suc i))
      else Ok None)"
  by pat_completeness auto
termination
  by (relation "measure (\<lambda>(p, i). pl_size p - i)") auto

declare free_loop.simps [simp del]

text \<open>The result code, the index and the list.\<close>

definition get_free_poll_fd ::
    "bool \<Rightarrow> bool \<Rightarrow> pollfd_list_t \<Rightarrow> (rc \<times> nat \<times> pollfd_list_t) res" where
  "get_free_poll_fd ok1 ok2 p =
     andthen (free_loop p (WELCOME_SOCK_COUNT - 1)) (\<lambda>r. case r of
        Some i \<Rightarrow> Ok (None, i, p)
      | None \<Rightarrow> (case resize_poll_fd ok1 ok2 p of
            (Some e, p') \<Rightarrow> Ok (Some e, 0, p')
          | (None, p') \<Rightarrow> Ok (None, pl_size p' - POLL_REALLOC_DELTA, p')))"

definition add_poll_fd ::
    "bool \<Rightarrow> bool \<Rightarrow> int \<Rightarrow> transport_protocol_t \<Rightarrow> pollfd_list_t \<Rightarrow> (rc \<times> pollfd_list_t) res" where
  "add_poll_fd ok1 ok2 new_fd prot p =
     andthen (get_free_poll_fd ok1 ok2 p) (\<lambda>(rc, index, p1). case rc of
        Some e \<Rightarrow> Ok (Some e, p1)
      | None \<Rightarrow> andthen (pl_at p1 index) (\<lambda>e.
          andthen (pl_set_prot index (Some prot) (p1\<lparr>pl_cnt := pl_cnt p1 + 1,
             pl_list := (pl_list p1)[index := e\<lparr>fd := new_fd, events_in := True\<rparr>]\<rparr>)) (\<lambda>p2.
          Ok (None, p2))))"

text \<open>\<open>del_poll_fd\<close>: the loop that marks the descriptor, and the one that closes the gap.\<close>

function mark_loop :: "int \<Rightarrow> nat \<Rightarrow> bool \<Rightarrow> pollfd_list_t \<Rightarrow> (bool \<times> pollfd_list_t) res" where
  "mark_loop f i is_found p =
     (if i < pl_cnt p + WELCOME_SOCK_COUNT then
        andthen (pl_at p i) (\<lambda>e.
          if fd e = f then mark_loop f (Suc i) True (pl_set_fd i (-1) p)
          else mark_loop f (Suc i) is_found p)
      else Ok (is_found, p))"
  by pat_completeness auto
termination
  by (relation "measure (\<lambda>(f, i, b, p). pl_cnt p + WELCOME_SOCK_COUNT - i)")
     (auto simp: pl_set_fd_def)

declare mark_loop.simps [simp del]

function gap_loop :: "nat \<Rightarrow> nat \<Rightarrow> pollfd_list_t \<Rightarrow> pollfd_list_t res" where
  "gap_loop offset j p =
     (if j < WELCOME_SOCK_COUNT + pl_cnt p then
        andthen (pl_at p j) (\<lambda>e.
          if fd e = -1 then
            (let p1 = p\<lparr>pl_cnt := pl_cnt p - 1\<rparr> in
             if j + offset < pl_size p then
               andthen (pl_at p (j + offset)) (\<lambda>e'.
               andthen (pl_prot_at p (j + offset)) (\<lambda>x.
               andthen (pl_set_prot j x (pl_set_fd j (fd e') p1)) (\<lambda>p2.
                 gap_loop (offset + 1) (Suc j) p2)))
             else gap_loop offset (Suc j) p1)
          else gap_loop offset (Suc j) p)
      else Ok p)"
  by pat_completeness auto
termination
  by (relation "measure (\<lambda>(offset, j, p). WELCOME_SOCK_COUNT + pl_cnt p - j)")
     (auto simp: pl_set_fd_def pl_set_prot_def split: if_splits)

declare gap_loop.simps [simp del]

lemmas prot_defs = pl_prot_at_def pl_set_prot_def pl_set_fd_def

text \<open>Whether the descriptor was found (and is closed), and the list.\<close>

definition del_poll_fd :: "int \<Rightarrow> pollfd_list_t \<Rightarrow> (bool \<times> pollfd_list_t) res" where
  "del_poll_fd f p =
     andthen (mark_loop f WELCOME_SOCK_COUNT False p) (\<lambda>(is_found, p1).
     andthen (gap_loop 1 WELCOME_SOCK_COUNT p1) (\<lambda>p2. Ok (is_found, p2)))"

section \<open>Clients\<close>

definition is_equal_addr :: "sockaddr_in \<Rightarrow> sockaddr_in \<Rightarrow> bool" where
  "is_equal_addr a b =
     (if sin_addr a \<noteq> sin_addr b then False
      else if sin_family a \<noteq> sin_family b then False
      else if sin_port a \<noteq> sin_port b then False
      else True)"

fun get_client_by_addr :: "client_t queue \<Rightarrow> sockaddr_in \<Rightarrow> ptr" where
  "get_client_by_addr [] a = None"
| "get_client_by_addr (n # q) a =
     (if is_equal_addr (c_addr (n_data n)) a then Some (n_ptr n) else get_client_by_addr q a)"

fun get_client_by_fd :: "client_t queue \<Rightarrow> int \<Rightarrow> ptr" where
  "get_client_by_fd [] f = None"
| "get_client_by_fd (n # q) f =
     (if c_sockfd (n_data n) = f then Some (n_ptr n) else get_client_by_fd q f)"

definition cmp_clients :: "client_t \<Rightarrow> client_t \<Rightarrow> bool" where
  "cmp_clients c1 c2 =
     (if c_sockfd c1 \<noteq> c_sockfd c2 then False
      else if c_username c1 \<noteq> c_username c2 then False
      else True)"

section \<open>Messages\<close>

text \<open>\<open>get_next_timeout\<close>: the loop over the queue with \<open>ret\<close>; a timeout is a \<open>uint16_t\<close>.\<close>

fun next_timeout_loop :: "msg_t queue \<Rightarrow> int \<Rightarrow> int" where
  "next_timeout_loop [] ret = ret"
| "next_timeout_loop (n # q) ret =
     next_timeout_loop q
       (if \<not> is_confirmed (n_data n) \<and> uint (timeout (n_data n)) < ret
        then uint (timeout (n_data n)) else ret)"

definition get_next_timeout :: "msg_t queue \<Rightarrow> int" where
  "get_next_timeout q = next_timeout_loop q 0"

definition msg_fill_error :: "string \<Rightarrow> string \<Rightarrow> msg_t \<Rightarrow> msg_t" where
  "msg_fill_error dname cont m =
     put_str msg_content_off cont (put_str msg_display_name_off dname (m\<lparr>msg_type := e_err\<rparr>))"

text \<open>The content goes to \<open>data.err.content\<close>, as in the source.\<close>

definition msg_fill_reply :: "bool \<Rightarrow> message_id_t \<Rightarrow> string \<Rightarrow> msg_t \<Rightarrow> msg_t" where
  "msg_fill_reply result ref_id cont m =
     put_str msg_content_off cont (m\<lparr>msg_type := e_reply,
       data := set_reply_result result (set_reply_ref_id ref_id (data m))\<rparr>)"

fun print_msg_type :: "msg_type_t \<Rightarrow> string" where
  "print_msg_type e_confirm = ''CONFIRM''"
| "print_msg_type e_reply = ''REPLY''"
| "print_msg_type e_auth = ''AUTH''"
| "print_msg_type e_join = ''JOIN''"
| "print_msg_type e_msg = ''MSG''"
| "print_msg_type e_err = ''ERR''"
| "print_msg_type e_bye = ''BYE''"

text \<open>\<open>is_msg_confirmed\<close>: from the newest id back to the slot that is written next.\<close>

function confirmed_loop :: "client_t \<Rightarrow> message_id_t \<Rightarrow> int \<Rightarrow> bool" where
  "confirmed_loop c i index =
     (if 0 \<le> index \<and> index mod int MAX_CONFIRMED_MSG \<noteq> uint (msg_count c) mod int MAX_CONFIRMED_MSG
      then if msg_in_confirmed c ! nat (index mod int MAX_CONFIRMED_MSG) = i then True
           else confirmed_loop c i (index - 1)
      else False)"
  by pat_completeness auto
termination
  by (relation "measure (\<lambda>(c, i, index). nat (index + 1))") auto

declare confirmed_loop.simps [simp del]

definition is_msg_confirmed :: "client_t \<Rightarrow> message_id_t \<Rightarrow> bool" where
  "is_msg_confirmed c i =
     (let index = uint (msg_count c) - 1 in
      if msg_count c = 0 then False else confirmed_loop c i index)"

text \<open>How \<open>process_msg\<close> records an id: into the slot that is written next.\<close>

definition confirm_record :: "message_id_t \<Rightarrow> client_t \<Rightarrow> client_t" where
  "confirm_record i c = c\<lparr>msg_in_confirmed :=
       (msg_in_confirmed c)[unat (msg_count c) mod MAX_CONFIRMED_MSG := i],
     msg_count := msg_count c + 1\<rparr>"

section \<open>The window of confirmed ids\<close>

text \<open>
  The abstract view: a client has the list of the ids it sent so far, oldest first.  \<open>ring c h\<close>
  says that the ring buffer holds the newest 32 of them.
\<close>

definition ring :: "client_t \<Rightarrow> message_id_t list \<Rightarrow> bool" where
  "ring c h \<longleftrightarrow> length (msg_in_confirmed c) = MAX_CONFIRMED_MSG \<and> length h < 65536 \<and>
     unat (msg_count c) = length h \<and>
     (\<forall>k < length h. length h \<le> k + MAX_CONFIRMED_MSG \<longrightarrow>
        msg_in_confirmed c ! (k mod MAX_CONFIRMED_MSG) = h ! k)"

lemma ring_msg_count: "ring c h \<Longrightarrow> uint (msg_count c) = int (length h)"
  unfolding ring_def by (metis of_nat_unat)

lemma mod_window:
  assumes "k < n" and "n \<le> k + 32"
  shows "k mod 32 = n mod 32 \<longleftrightarrow> n = k + (32 :: nat)"
proof -
  have "n mod 32 = k mod 32 \<longleftrightarrow> 32 dvd n - k"
    using assms by (intro mod_eq_dvd_iff_nat) simp
  also have "\<dots> \<longleftrightarrow> n - k = 32"
    using assms by (auto dest: dvd_imp_le)
  finally show ?thesis using assms by auto
qed

lemma confirmed_step:
  assumes r: "ring c h" and m: "m < length h" "length h \<le> m + 32"
  shows "confirmed_loop c i (int m) \<longleftrightarrow>
     length h \<noteq> m + 32 \<and> (h ! m = i \<or> confirmed_loop c i (int m - 1))"
proof -
  have cell: "msg_in_confirmed c ! (m mod 32) = h ! m"
    using r m by (simp add: ring_def MAX_CONFIRMED_MSG_def)
  have idx: "nat (int m mod 32) = m mod 32"
    by (metis nat_int of_nat_numeral zmod_int)
  have "int m mod 32 = uint (msg_count c) mod 32 \<longleftrightarrow> m mod 32 = length h mod 32"
    unfolding ring_msg_count [OF r] by (metis nat_int of_nat_numeral zmod_int)
  then show ?thesis
    using mod_window [OF m] cell idx
    by (subst confirmed_loop.simps) (simp add: MAX_CONFIRMED_MSG_def)
qed

lemma confirmed_loop_ring:
  assumes r: "ring c h" and "m < length h" and "length h \<le> m + 32"
  shows "confirmed_loop c i (int m) \<longleftrightarrow> (\<exists>k \<le> m. length h < k + 32 \<and> h ! k = i)"
  using assms(2,3)
proof (induction m)
  case 0
  have "\<not> confirmed_loop c i (- 1)" by (subst confirmed_loop.simps) simp
  with confirmed_step [OF r 0, of i] 0 show ?case by auto
next
  case (Suc m)
  with confirmed_step [OF r Suc.prems, of i] show ?case
    by (auto simp: le_Suc_eq)
qed

lemma is_msg_confirmed_ring:
  assumes r: "ring c h"
  shows "is_msg_confirmed c i \<longleftrightarrow> i \<in> set (drop (length h - 31) h)"
proof (cases "h = []")
  case True
  with r have "msg_count c = 0" by (simp add: ring_def unat_eq_0)
  with True show ?thesis by (simp add: is_msg_confirmed_def)
next
  case False
  then have n: "0 < length h" by simp
  have "msg_count c \<noteq> 0" using r n by (auto simp: ring_def)
  then have "is_msg_confirmed c i \<longleftrightarrow> confirmed_loop c i (int (length h - 1))"
    using n ring_msg_count [OF r] by (simp add: is_msg_confirmed_def Suc_le_eq of_nat_diff)
  also have "\<dots> \<longleftrightarrow> (\<exists>k \<le> length h - 1. length h < k + 32 \<and> h ! k = i)"
    using n by (intro confirmed_loop_ring [OF r]) auto
  also have "\<dots> \<longleftrightarrow> i \<in> set (drop (length h - 31) h)"
  proof
    assume "\<exists>k \<le> length h - 1. length h < k + 32 \<and> h ! k = i"
    then obtain k where "k \<le> length h - 1" "length h < k + 32" and i: "h ! k = i" by blast
    with n have k: "k < length h" "length h \<le> k + 31" by linarith+
    then have "drop (length h - 31) h ! (k - (length h - 31)) = i" using i by simp
    moreover have "k - (length h - 31) < length (drop (length h - 31) h)" using k n by auto
    ultimately show "i \<in> set (drop (length h - 31) h)" by (metis nth_mem)
  next
    assume "i \<in> set (drop (length h - 31) h)"
    then obtain j where "j < length h - (length h - 31)" "h ! (length h - 31 + j) = i"
      by (auto simp: in_set_conv_nth)
    with n show "\<exists>k \<le> length h - 1. length h < k + 32 \<and> h ! k = i"
      by (intro exI [of _ "length h - 31 + j"]) auto
  qed
  finally show ?thesis .
qed

lemma ring_record:
  assumes r: "ring c h" and n: "length h < 65535"
  shows "ring (confirm_record i c) (h @ [i])"
proof -
  have cnt: "unat (msg_count c + 1) = length h + 1"
    using r n by (simp add: ring_def unat_word_ariths)
  have slot: "k mod 32 \<noteq> length h mod 32" if "k < length h" "length h < k + 32" for k
    using mod_window [of k "length h"] that by simp
  have "(msg_in_confirmed (confirm_record i c)) ! (k mod 32) = (h @ [i]) ! k"
    if "k < length h + 1" "length h + 1 \<le> k + 32" for k
    using that r slot [of k]
    by (cases "k = length h")
       (auto simp: confirm_record_def ring_def MAX_CONFIRMED_MSG_def nth_append)
  with r n cnt show ?thesis
    by (simp add: ring_def confirm_record_def MAX_CONFIRMED_MSG_def)
qed

text \<open>
  The contract of duplicate detection: \<open>holds c h\<close> relates the state of a receiver to the ids it
  recorded, of which it remembers the newest \<open>w\<close>; it can record \<open>cap\<close> ids.
\<close>

locale dedup_window =
  fixes holds :: "'c \<Rightarrow> message_id_t list \<Rightarrow> bool"
    and seen :: "'c \<Rightarrow> message_id_t \<Rightarrow> bool"
    and rec :: "message_id_t \<Rightarrow> 'c \<Rightarrow> 'c"
    and w :: nat and cap :: nat
  assumes seen_iff: "holds c h \<Longrightarrow> seen c i \<longleftrightarrow> i \<in> set (drop (length h - w) h)"
    and rec_holds: "holds c h \<Longrightarrow> length h < cap \<Longrightarrow> holds (rec i c) (h @ [i])"
begin

lemma fold_holds: "holds c h \<Longrightarrow> length h + length js \<le> cap \<Longrightarrow> holds (fold rec js c) (h @ js)"
proof (induction js arbitrary: c h)
  case (Cons j js)
  then have "holds (rec j c) (h @ [j])" by (intro rec_holds) auto
  from Cons.IH [OF this] Cons.prems(2) show ?case by simp
qed simp

lemma recent_is_seen:
  assumes "holds c h" and "length h + length js < cap" and "length js < w"
  shows "seen (fold rec js (rec i c)) i"
proof -
  have "holds (rec i c) (h @ [i])" using assms by (intro rec_holds) auto
  then have "holds (fold rec js (rec i c)) (h @ [i] @ js)"
    using fold_holds [of "rec i c" "h @ [i]" js] assms by simp
  moreover have "drop (length (h @ [i] @ js) - w) (h @ [i] @ js) =
      drop (length (h @ [i] @ js) - w) h @ i # js"
    using assms(3) by simp
  ultimately show ?thesis using seen_iff by fastforce
qed

lemma new_is_not_seen: "holds c h \<Longrightarrow> i \<notin> set h \<Longrightarrow> \<not> seen c i"
  using seen_iff in_set_dropD by metis

end

interpretation window: dedup_window ring is_msg_confirmed confirm_record 31 65535
  by unfold_locales (simp_all add: is_msg_confirmed_ring ring_record)

text \<open>
  C22. A client's ring buffer remembers the 31 newest ids: an id that was recorded is recognised
  as a duplicate while at most 30 further ids have been recorded, as long as fewer than 65536 ids have
  been recorded in all (then the 16-bit counter wraps to 0, and every id is taken for a new one).
\<close>

theorem duplicate_recognised:
  assumes "ring c h" and "length h + length js < 65535" and "length js < 31"
  shows "is_msg_confirmed (fold confirm_record js (confirm_record i c)) i"
  using assms by (rule window.recent_is_seen)

definition fresh_client :: client_t where
  "fresh_client = \<lparr>c_sockfd = 5, c_protocol = e_udp, c_addr = zero_addr, c_state = s_ac,
     c_names = [], msg_count = 0, msg_in_confirmed = replicate 32 0\<rparr>"

lemma ring_fresh: "ring fresh_client []"
  by (simp add: ring_def fresh_client_def MAX_CONFIRMED_MSG_def)

theorem duplicate_recognised_witness:
  "is_msg_confirmed (fold confirm_record [7, 8, 9] (confirm_record 3 fresh_client)) 3"
  by (rule duplicate_recognised [OF ring_fresh]) simp_all

text \<open>
  A message with a new id is never taken for a duplicate.
\<close>

lemma new_id_not_duplicate:
  assumes "ring c h" and "i \<notin> set h"
  shows "\<not> is_msg_confirmed c i"
  using assms by (rule window.new_is_not_seen)

section \<open>The next timeout\<close>

lemma next_timeout_loop_0: "next_timeout_loop q 0 = 0"
  by (induction q) (auto simp: not_less)

text \<open>
  get_next_timeout returns 0 for every queue: its minimum starts at 0, and no unsigned
  timeout is below 0.  The poll interval in main is therefore always POLL_INTERVAL.
\<close>

lemma get_next_timeout_zero: "get_next_timeout q = 0"
  by (simp add: get_next_timeout_def next_timeout_loop_0)

section \<open>Adding and deleting polled descriptors\<close>

definition wf_poll :: "pollfd_list_t \<Rightarrow> bool" where
  "wf_poll p \<longleftrightarrow> length (pl_list p) = pl_size p \<and> length (pl_protocol p) = pl_size p \<and>
     WELCOME_SOCK_COUNT + pl_cnt p \<le> pl_size p"

text \<open>The client descriptors that \<open>poll\<close> watches.\<close>

definition polled :: "pollfd_list_t \<Rightarrow> int list" where
  "polled p = map fd (take (pl_cnt p) (drop WELCOME_SOCK_COUNT (pl_list p)))"

lemma polled_nth:
  "wf_poll p \<Longrightarrow> i < pl_cnt p \<Longrightarrow> polled p ! i = fd (pl_list p ! (2 + i))"
  by (auto simp: polled_def wf_poll_def WELCOME_SOCK_COUNT_def)

lemma length_polled: "wf_poll p \<Longrightarrow> length (polled p) = pl_cnt p"
  by (auto simp: polled_def wf_poll_def WELCOME_SOCK_COUNT_def)

lemma mark_step:
  "wf_poll p \<Longrightarrow> i < 2 + pl_cnt p \<Longrightarrow> mark_loop f i b p =
     (if fd (pl_list p ! i) = f then mark_loop f (Suc i) True (pl_set_fd i (-1) p)
      else mark_loop f (Suc i) b p)"
  by (subst mark_loop.simps) (simp add: pl_at_def wf_poll_def WELCOME_SOCK_COUNT_def)

lemma gap_step:
  "wf_poll p \<Longrightarrow> i < 2 + pl_cnt p \<Longrightarrow> fd (pl_list p ! i) \<noteq> -1 \<Longrightarrow>
     gap_loop n i p = gap_loop n (Suc i) p"
  by (subst gap_loop.simps) (simp add: pl_at_def wf_poll_def WELCOME_SOCK_COUNT_def)

lemma mark_loop_skip:
  assumes "i \<le> k" and "wf_poll p" and "k \<le> 2 + pl_cnt p"
    and "\<And>j. i \<le> j \<Longrightarrow> j < k \<Longrightarrow> fd (pl_list p ! j) \<noteq> f"
  shows "mark_loop f i b p = mark_loop f k b p"
  using assms(1)
proof (induction rule: inc_induct)
  case (step n)
  then have "n < 2 + pl_cnt p" using assms(3) by linarith
  with step show ?case by (simp add: mark_step assms)
qed simp

lemma gap_loop_skip:
  assumes "i \<le> k" and "wf_poll p" and "k \<le> 2 + pl_cnt p"
    and "\<And>j. i \<le> j \<Longrightarrow> j < k \<Longrightarrow> fd (pl_list p ! j) \<noteq> -1"
  shows "gap_loop n i p = gap_loop n k p"
  using assms(1)
proof (induction rule: inc_induct)
  case (step j)
  then have "j < 2 + pl_cnt p" using assms(3) by linarith
  with step show ?case by (simp add: gap_step assms)
qed simp

lemma loops_end:
  "mark_loop f (2 + pl_cnt p) b p = Ok (b, p)" "2 + pl_cnt p \<le> k \<Longrightarrow> gap_loop n k p = Ok p"
  by (subst mark_loop.simps gap_loop.simps, simp add: WELCOME_SOCK_COUNT_def)+

lemma wf_poll_set_fd: "wf_poll p \<Longrightarrow> wf_poll (pl_set_fd k v p)"
  by (simp add: wf_poll_def pl_set_fd_def)

lemma mark_loop_one:
  assumes wf: "wf_poll p" and k: "2 \<le> k" "k < 2 + pl_cnt p" and f: "fd (pl_list p ! k) = f"
    and only: "\<And>j. 2 \<le> j \<Longrightarrow> j < 2 + pl_cnt p \<Longrightarrow> j \<noteq> k \<Longrightarrow> fd (pl_list p ! j) \<noteq> f"
  shows "mark_loop f 2 b p = Ok (True, pl_set_fd k (-1) p)"
proof -
  let ?p = "pl_set_fd k (-1) p"
  have "mark_loop f 2 b p = mark_loop f k b p"
    using k only by (intro mark_loop_skip wf) auto
  also have "\<dots> = mark_loop f (Suc k) True ?p"
    using k f by (simp add: mark_step wf)
  also have "\<dots> = mark_loop f (2 + pl_cnt ?p) True ?p"
    using k only
    by (intro mark_loop_skip wf_poll_set_fd wf) (auto simp: pl_set_fd_def nth_list_update)
  finally show ?thesis using loops_end(1) by simp
qed

text \<open>Closing the one gap at \<open>k\<close> copies the descriptor of the next slot, and nothing else moves.\<close>

lemma gap_loop_one:
  assumes wf: "wf_poll p" and k: "2 \<le> k" "k < 2 + pl_cnt p" and f: "fd (pl_list p ! k) = -1"
    and only: "\<And>j. 2 \<le> j \<Longrightarrow> j < 2 + pl_cnt p \<Longrightarrow> j \<noteq> k \<Longrightarrow> fd (pl_list p ! j) \<noteq> -1"
  shows "\<exists>p'. gap_loop 1 2 p = Ok p' \<and> pl_cnt p' = pl_cnt p - 1 \<and> wf_poll p' \<and>
     pl_size p' = pl_size p \<and> (\<forall>j < pl_size p. j \<noteq> k \<longrightarrow> pl_list p' ! j = pl_list p ! j) \<and>
     (k + 1 < pl_size p \<longrightarrow> fd (pl_list p' ! k) = fd (pl_list p ! (k + 1)))"
proof -
  have to_k: "gap_loop 1 2 p = gap_loop 1 k p"
    using k only by (intro gap_loop_skip wf) auto
  have len: "k < length (pl_list p)" "length (pl_list p) = pl_size p"
    using k wf by (auto simp: wf_poll_def WELCOME_SOCK_COUNT_def)
  have prot: "length (pl_protocol p) = pl_size p" using wf by (simp add: wf_poll_def)
  let ?p1 = "p\<lparr>pl_cnt := pl_cnt p - 1\<rparr>"
  show ?thesis
  proof (cases "k + 1 < pl_size p")
    case True
    let ?p2 = "(pl_set_fd k (fd (pl_list p ! (k + 1))) ?p1)
        \<lparr>pl_protocol := (pl_protocol p)[k := pl_protocol p ! (k + 1)]\<rparr>"
    have wf2: "wf_poll ?p2" using wf by (auto simp: wf_poll_def pl_set_fd_def)
    have cnt2: "pl_cnt ?p2 = pl_cnt p - 1" by (simp add: pl_set_fd_def)
    have "gap_loop 1 k p = gap_loop 2 (Suc k) ?p2"
      using k f len True by (subst gap_loop.simps) (simp add: pl_at_def prot_defs prot WELCOME_SOCK_COUNT_def Let_def numeral_2_eq_2)
    also have "\<dots> = Ok ?p2"
    proof (cases "k + 1 < 2 + pl_cnt p")
      case True
      have "gap_loop 2 (Suc k) ?p2 = gap_loop 2 (2 + pl_cnt ?p2) ?p2"
        using k only True by (intro gap_loop_skip wf2) (auto simp: pl_set_fd_def)
      then show ?thesis by (simp add: loops_end)
    next
      case False
      then show ?thesis by (intro loops_end) (simp add: pl_set_fd_def)
    qed
    finally show ?thesis using to_k wf2 len by (simp add: pl_set_fd_def)
  next
    case False
    then have "gap_loop 1 k p = gap_loop 1 (Suc k) ?p1"
      using k f len by (subst gap_loop.simps) (simp add: pl_at_def WELCOME_SOCK_COUNT_def Let_def)
    also have "\<dots> = Ok ?p1" using False k wf
      by (intro loops_end) (auto simp: wf_poll_def WELCOME_SOCK_COUNT_def)
    finally show ?thesis using to_k wf False by (auto simp: wf_poll_def)
  qed
qed

lemma del_poll_fd_slots:
  assumes wf: "wf_poll p" and pl: "polled p = xs @ f # ys"
    and once: "f \<notin> set xs" "f \<notin> set ys" and nn: "-1 \<notin> set (polled p)"
  defines "k \<equiv> 2 + length xs"
  shows "\<exists>p'. del_poll_fd f p = Ok (True, p') \<and> wf_poll p' \<and> pl_size p' = pl_size p \<and>
     pl_cnt p' = pl_cnt p - 1 \<and> (\<forall>j < pl_size p. j \<noteq> k \<longrightarrow> pl_list p' ! j = pl_list p ! j) \<and>
     (k + 1 < pl_size p \<longrightarrow> fd (pl_list p' ! k) = fd (pl_list p ! (k + 1)))"
proof -
  have cnt: "pl_cnt p = length xs + 1 + length ys" using length_polled [OF wf] pl by simp
  have at: "fd (pl_list p ! j) = (xs @ f # ys) ! (j - 2)" if "2 \<le> j" "j < 2 + pl_cnt p" for j
  proof -
    have "2 + (j - 2) = j" using that by simp
    then show ?thesis using polled_nth [OF wf, of "j - 2"] that pl by simp
  qed
  have k: "2 \<le> k" "k < 2 + pl_cnt p" by (simp_all add: k_def cnt)
  have fk: "fd (pl_list p ! k) = f" using at [OF k] by (simp add: k_def)
  have other: "fd (pl_list p ! j) \<noteq> f" if "2 \<le> j" "j < 2 + pl_cnt p" "j \<noteq> k" for j
  proof -
    have "(xs @ f # ys) ! (j - 2) \<in> set xs \<union> set ys"
      using that by (auto simp: nth_append nth_Cons' cnt k_def)
    with at [OF that(1,2)] once show ?thesis by auto
  qed
  have nm: "fd (pl_list p ! j) \<noteq> -1" if "2 \<le> j" "j < 2 + pl_cnt p" for j
    using at [OF that] nn that pl by (metis cnt add_diff_inverse_nat add_less_cancel_left length_polled
        linorder_not_le nth_mem wf)
  let ?q = "pl_set_fd k (-1) p"
  have mark: "mark_loop f 2 False p = Ok (True, ?q)"
    by (rule mark_loop_one [OF wf k fk other])
  have len: "k < length (pl_list p)" using k wf by (simp add: wf_poll_def WELCOME_SOCK_COUNT_def)
  have "\<exists>p'. gap_loop 1 2 ?q = Ok p' \<and> pl_cnt p' = pl_cnt ?q - 1 \<and> wf_poll p' \<and>
      pl_size p' = pl_size ?q \<and> (\<forall>j < pl_size ?q. j \<noteq> k \<longrightarrow> pl_list p' ! j = pl_list ?q ! j) \<and>
      (k + 1 < pl_size ?q \<longrightarrow> fd (pl_list p' ! k) = fd (pl_list ?q ! (k + 1)))"
    using k nm len by (intro gap_loop_one wf_poll_set_fd wf) (auto simp: pl_set_fd_def)
  then show ?thesis
    using mark by (auto simp: del_poll_fd_def WELCOME_SOCK_COUNT_def pl_set_fd_def)
qed

text \<open>
  C31. del_poll_fd takes a descriptor out of the polled range, closes it and moves the next one
  into its place, but does not move the ones after that: with two or more descriptors behind the
  deleted one, its successor is polled twice and the last one is no longer polled.
\<close>

theorem del_poll_fd_polled:
  assumes wf: "wf_poll p" and pl: "polled p = xs @ f # ys"
    and once: "f \<notin> set xs" "f \<notin> set ys" and nn: "-1 \<notin> set (polled p)"
  shows "\<exists>p'. del_poll_fd f p = Ok (True, p') \<and> wf_poll p' \<and>
     polled p' = xs @ (case ys of [] \<Rightarrow> [] | y # _ \<Rightarrow> y # butlast ys)"
proof -
  let ?k = "2 + length xs"
  from del_poll_fd_slots [OF assms] obtain p' where
    del: "del_poll_fd f p = Ok (True, p')" "wf_poll p'" "pl_size p' = pl_size p"
    and cnt': "pl_cnt p' = pl_cnt p - 1"
    and same: "\<And>j. j < pl_size p \<Longrightarrow> j \<noteq> ?k \<Longrightarrow> pl_list p' ! j = pl_list p ! j"
    and nxt: "?k + 1 < pl_size p \<Longrightarrow> fd (pl_list p' ! ?k) = fd (pl_list p ! (?k + 1))"
    by auto
  have cnt: "pl_cnt p = length xs + 1 + length ys" using length_polled [OF wf] pl by simp
  have size: "2 + pl_cnt p \<le> pl_size p" using wf by (simp add: wf_poll_def WELCOME_SOCK_COUNT_def)
  have "polled p' = xs @ (case ys of [] \<Rightarrow> [] | y # _ \<Rightarrow> y # butlast ys)" (is "_ = ?r")
  proof (rule nth_equalityI)
    show "length (polled p') = length ?r"
      using length_polled [OF del(2)] cnt cnt' by (simp split: list.split)
    fix i assume "i < length (polled p')"
    then have i: "i < pl_cnt p - 1" using length_polled [OF del(2)] cnt' by simp
    show "polled p' ! i = ?r ! i"
    proof (cases "i = length xs")
      case True
      then have "?k + 1 < pl_size p" using i size cnt by linarith
      with True have "polled p' ! i = polled p ! (i + 1)"
        using polled_nth [OF del(2), of i] polled_nth [OF wf, of "i + 1"] nxt i cnt' by simp
      with True pl i cnt show ?thesis by (cases ys) (simp_all add: nth_append)
    next
      case False
      then have "polled p' ! i = polled p ! i"
        using polled_nth [OF del(2), of i] polled_nth [OF wf, of i] same [of "2 + i"] i size cnt' by simp
      with False pl i cnt show ?thesis
        by (cases ys) (auto simp: nth_append nth_Cons' nth_butlast)
    qed
  qed
  with del show ?thesis by blast
qed

definition demo_poll :: pollfd_list_t where
  "demo_poll = \<lparr>pl_size = 6, pl_cnt = 3,
     pl_list = map (\<lambda>f. \<lparr>fd = f, events_in = True, revents_in = False\<rparr>) [3, 4, 5, 6, 7, 0],
     pl_protocol = [Some e_tcp, Some e_udp, Some e_tcp, Some e_tcp, Some e_udp, None]\<rparr>"

lemma demo_poll_wf: "wf_poll demo_poll" "polled demo_poll = [] @ 5 # [6, 7]"
  by (simp_all add: wf_poll_def demo_poll_def WELCOME_SOCK_COUNT_def polled_def)

theorem del_poll_fd_polled_witness:
  "\<exists>p'. del_poll_fd 5 demo_poll = Ok (True, p') \<and> wf_poll p' \<and> polled p' = [6, 6]"
  using del_poll_fd_polled [OF demo_poll_wf] demo_poll_wf(2) by simp

text \<open>
  The list is compact when the welcome slot and every polled slot are in use and the slot behind
  the polled ones (if the array has one) is free.
\<close>

definition compact :: "pollfd_list_t \<Rightarrow> bool" where
  "compact p \<longleftrightarrow> (\<forall>j. 1 \<le> j \<and> j < 2 + pl_cnt p \<longrightarrow> fd (pl_list p ! j) \<noteq> 0) \<and>
     (2 + pl_cnt p < pl_size p \<longrightarrow> fd (pl_list p ! (2 + pl_cnt p)) = 0)"

lemma demo_poll_compact: "compact demo_poll"
proof -
  have "fd (pl_list demo_poll ! j) \<noteq> 0" if "1 \<le> j" "j < 5" for j
  proof -
    have "j = 1 \<or> j = 2 \<or> j = 3 \<or> j = 4" using that by auto
    then show ?thesis by (auto simp: demo_poll_def eval_nat_numeral)
  qed
  then show ?thesis by (auto simp: compact_def demo_poll_def)
qed

lemma free_loop_skip:
  assumes "i \<le> k" and "wf_poll p" and "k \<le> pl_size p"
    and "\<And>j. i \<le> j \<Longrightarrow> j < k \<Longrightarrow> fd (pl_list p ! j) \<noteq> 0"
  shows "free_loop p i = free_loop p k"
  using assms(1)
proof (induction rule: inc_induct)
  case (step n)
  then have "n < pl_size p" using assms(3) by linarith
  with step assms(2,4) show ?case
    by (subst free_loop.simps) (simp add: pl_at_def wf_poll_def)
qed simp

lemma free_loop_found:
  assumes "wf_poll p" and "1 \<le> k" and "k \<le> pl_size p"
    and "\<And>j. 1 \<le> j \<Longrightarrow> j < k \<Longrightarrow> fd (pl_list p ! j) \<noteq> 0"
    and "k < pl_size p \<Longrightarrow> fd (pl_list p ! k) = 0"
  shows "free_loop p 1 = Ok (if k < pl_size p then Some k else None)"
proof -
  have "free_loop p 1 = free_loop p k" using assms by (intro free_loop_skip) auto
  also have "\<dots> = Ok (if k < pl_size p then Some k else None)"
    using assms(1,5) by (subst free_loop.simps) (simp add: pl_at_def wf_poll_def)
  finally show ?thesis .
qed

text \<open>
  On a compact list, add_poll_fd appends the new descriptor to the polled ones: it takes the
  slot behind them, or grows the array by 128 slots when there is none.
\<close>

lemma add_poll_fd_appends:
  assumes wf: "wf_poll p" and c: "compact p"
  shows "\<exists>p'. add_poll_fd True True f prot p = Ok (None, p') \<and> wf_poll p' \<and>
     polled p' = polled p @ [f]"
proof -
  let ?k = "2 + pl_cnt p"
  have k: "?k \<le> pl_size p" "length (pl_list p) = pl_size p" "length (pl_protocol p) = pl_size p"
    using wf by (auto simp: wf_poll_def WELCOME_SOCK_COUNT_def)
  have fl: "free_loop p 1 = Ok (if ?k < pl_size p then Some ?k else None)"
    using wf c k by (intro free_loop_found) (auto simp: compact_def)
  have app: "take (Suc n) (drop 2 (xs[2 + n := x])) = take n (drop 2 xs) @ [x]"
    if "2 + n < length xs" for n and xs :: "pollfd list" and x
    using that by (intro nth_equalityI) (auto simp: nth_append nth_list_update)
  show ?thesis
  proof (cases "?k < pl_size p")
    case True
    with fl k show ?thesis
      by (auto simp: add_poll_fd_def get_free_poll_fd_def WELCOME_SOCK_COUNT_def pl_at_def prot_defs
          wf_poll_def polled_def app [simplified])
  next
    case False
    with k have "pl_size p = ?k" by simp
    with fl k app [of "pl_cnt p" "pl_list p @ replicate 128 zero_pollfd"] show ?thesis
      by (auto simp: add_poll_fd_def get_free_poll_fd_def resize_poll_fd_def const_defs pl_at_def prot_defs
          wf_poll_def polled_def)
  qed
qed

text \<open>
  C32. After a deletion that is not the last descriptor the list is no longer compact, and the
  next accepted client is not polled: its descriptor goes behind a stale slot, outside the range
  that poll watches.
\<close>

theorem del_then_add_not_polled:
  assumes wf: "wf_poll p" and c: "compact p" and room: "2 + pl_cnt p < pl_size p"
    and pl: "polled p = xs @ f # y # ys" and once: "f \<notin> set xs" "f \<notin> set (y # ys)"
    and nn: "-1 \<notin> set (polled p)"
  shows "\<exists>p' p''. del_poll_fd f p = Ok (True, p') \<and> add_poll_fd True True new prot p' = Ok (None, p'') \<and>
     polled p'' = xs @ y # y # ys"
proof -
  let ?k = "2 + length xs" and ?e = "2 + pl_cnt p"
  from del_poll_fd_slots [OF wf pl once nn] obtain p' where
    del: "del_poll_fd f p = Ok (True, p')" "wf_poll p'" "pl_size p' = pl_size p"
    and cnt': "pl_cnt p' = pl_cnt p - 1"
    and same: "\<And>j. j < pl_size p \<Longrightarrow> j \<noteq> ?k \<Longrightarrow> pl_list p' ! j = pl_list p ! j"
    and nxt: "?k + 1 < pl_size p \<Longrightarrow> fd (pl_list p' ! ?k) = fd (pl_list p ! (?k + 1))"
    by auto
  have cnt: "pl_cnt p = length xs + 2 + length ys" using length_polled [OF wf] pl by simp
  have y: "fd (pl_list p' ! ?k) = y"
    using nxt polled_nth [OF wf, of "length xs + 1"] pl cnt room by (simp add: nth_append)
  have ne: "fd (pl_list p' ! j) \<noteq> 0" if "1 \<le> j" "j < ?e" for j
  proof (cases "j = ?k")
    case True
    have "fd (pl_list p ! (?k + 1)) \<noteq> 0" using c cnt by (simp add: compact_def)
    with True nxt cnt room show ?thesis by simp
  next
    case False
    with that c room same [of j] show ?thesis by (simp add: compact_def)
  qed
  have z: "fd (pl_list p' ! ?e) = 0" using same [of ?e] c room cnt by (simp add: compact_def)
  have "free_loop p' 1 = Ok (if ?e < pl_size p' then Some ?e else None)"
    using del ne z room by (intro free_loop_found) auto
  then have fl: "free_loop p' (Suc 0) = Ok (Some ?e)" using del(3) room by simp
  have len: "length (pl_list p') = pl_size p" "length (pl_protocol p') = pl_size p"
    using del by (simp_all add: wf_poll_def)
  obtain p'' where add: "add_poll_fd True True new prot p' = Ok (None, p'')"
    and l'': "pl_list p'' = (pl_list p')[?e := (pl_list p' ! ?e)\<lparr>fd := new, events_in := True\<rparr>]"
    and c'': "pl_cnt p'' = pl_cnt p"
    using fl room len cnt' cnt
    by (simp add: add_poll_fd_def get_free_poll_fd_def WELCOME_SOCK_COUNT_def pl_at_def prot_defs)
  have "polled p'' = xs @ y # y # ys"
  proof (rule nth_equalityI)
    show lp: "length (polled p'') = length (xs @ y # y # ys)"
      using room len by (simp add: polled_def l'' c'' cnt WELCOME_SOCK_COUNT_def)
    fix i assume "i < length (polled p'')"
    with lp have i: "i < pl_cnt p" by (simp add: cnt)
    then have "polled p'' ! i = fd (pl_list p' ! (2 + i))"
      using room len by (simp add: polled_def l'' c'' WELCOME_SOCK_COUNT_def)
    then show "polled p'' ! i = (xs @ y # y # ys) ! i"
      using y same [of "2 + i"] polled_nth [OF wf i] pl i room
      by (cases "i = length xs") (auto simp: nth_append nth_Cons')
  qed
  with del add show ?thesis by blast
qed

theorem del_then_add_not_polled_witness:
  "\<exists>p' p''. del_poll_fd 5 demo_poll = Ok (True, p') \<and>
     add_poll_fd True True 9 e_tcp p' = Ok (None, p'') \<and> polled p'' = [6, 6, 7]"
  using del_then_add_not_polled [OF demo_poll_wf(1) demo_poll_compact _ demo_poll_wf(2)]
    demo_poll_wf(2) by (simp add: demo_poll_def)

end
