(* ===== verification/Parse.thy ===== *)
theory Parse
  imports Errors
begin

text \<open>
  Decoding of received messages (parse.c).  The functions take the receive buffer (cleared, then
  filled with the received bytes) and the message to fill in, and return the result code
  (\<open>None\<close> for 0) with the message.
\<close>

section \<open>TCP\<close>

definition re_join_line :: "bre list" where
  "re_join_line = lits ''JOIN'' @ AnyStar # lits [CR, LF]"
definition re_join :: "bre list" where
  "re_join = lits ''JOIN '' @ Grp alnum_dash 1 21 # lits '' AS '' @ Grp is_graph 1 21 # lits [CR, LF]"
definition re_auth_line :: "bre list" where
  "re_auth_line = lits ''AUTH'' @ AnyStar # lits [CR, LF]"
definition re_auth :: "bre list" where
  "re_auth = lits ''AUTH '' @ Grp alnum_dash 1 21 # lits '' AS '' @ Grp is_graph 1 21 #
     lits '' USING '' @ Grp alnum_dash 1 129 # lits [CR, LF]"
definition re_msg_line :: "bre list" where
  "re_msg_line = lits ''MSG FROM'' @ AnyStar # lits [CR, LF]"
definition re_msg :: "bre list" where
  "re_msg = lits ''MSG FROM '' @ Grp is_graph 1 21 # lits '' IS '' @ Grp is_print 1 1401 # lits [CR, LF]"
definition re_err_line :: "bre list" where
  "re_err_line = lits ''ERR FROM'' @ AnyStar # lits [CR, LF]"
definition re_err :: "bre list" where
  "re_err = lits ''ERR FROM '' @ Grp is_graph 1 21 # lits '' IS '' @ Grp is_print 1 1401 # lits [CR, LF]"
definition re_reply_ok_line :: "bre list" where
  "re_reply_ok_line = lits ''REPLY OK'' @ AnyStar # lits [CR, LF]"
definition re_reply_ok :: "bre list" where
  "re_reply_ok = lits ''REPLY OK IS '' @ Grp is_print 1 1401 # lits [CR, LF]"
definition re_reply_nok_line :: "bre list" where
  "re_reply_nok_line = lits ''REPLY NOK'' @ AnyStar # lits [CR, LF]"
definition re_reply_nok :: "bre list" where
  "re_reply_nok = lits ''REPLY NOK IS '' @ Grp is_print 1 1401 # lits [CR, LF]"
definition re_bye :: "bre list" where
  "re_bye = lits ''BYE'' @ lits [CR, LF]"

definition tcp_fail :: "msg_t \<Rightarrow> rc \<times> msg_t" where
  "tcp_fail m = (Some error_pars_tcp_parse_fail, m)"

text \<open>The text \<open>regexec\<close> sees is the C string in the buffer.\<close>

definition parse_tcp_text :: "string \<Rightarrow> msg_t \<Rightarrow> rc \<times> msg_t" where
  "parse_tcp_text s m =
     (if regexec_ok re_join_line s then
        (case rmatch re_join s of
           Some [ch, dn] \<Rightarrow>
             (None, put_str join_display_name_off dn (put_str join_channel_id_off ch
                (m\<lparr>msg_type := e_join\<rparr>)))
         | _ \<Rightarrow> tcp_fail m)
      else if regexec_ok re_auth_line s then
        (case rmatch re_auth s of
           Some [un, dn, se] \<Rightarrow>
             (None, put_str auth_secret_off se (put_str auth_display_name_off dn
                (put_str auth_username_off un (m\<lparr>msg_type := e_auth\<rparr>))))
         | _ \<Rightarrow> tcp_fail m)
      else if regexec_ok re_msg_line s then
        (case rmatch re_msg s of
           Some [dn, ct] \<Rightarrow>
             (None, put_str msg_content_off ct (put_str msg_display_name_off dn
                (m\<lparr>msg_type := e_msg\<rparr>)))
         | _ \<Rightarrow> tcp_fail m)
      else if regexec_ok re_err_line s then
        (case rmatch re_err s of
           Some [dn, ct] \<Rightarrow>
             (None, put_str msg_content_off ct (put_str msg_display_name_off dn
                (m\<lparr>msg_type := e_err\<rparr>)))
         | _ \<Rightarrow> tcp_fail m)
      else if regexec_ok re_reply_ok_line s then
        (case rmatch re_reply_ok s of
           Some [ct] \<Rightarrow>
             (None, put_str reply_content_off ct
                (m\<lparr>msg_type := e_reply, data := set_reply_result True (data m)\<rparr>))
         | _ \<Rightarrow> tcp_fail m)
      else if regexec_ok re_reply_nok_line s then
        (case rmatch re_reply_nok s of
           Some [ct] \<Rightarrow>
             (None, put_str reply_content_off ct
                (m\<lparr>msg_type := e_reply, data := set_reply_result False (data m)\<rparr>))
         | _ \<Rightarrow> tcp_fail m)
      else if regexec_ok re_bye s then (None, m\<lparr>msg_type := e_bye\<rparr>)
      else tcp_fail m)"

text \<open>A buffer that is full and holds no zero byte is read past its end.\<close>

definition parse_tcp :: "bytes \<Rightarrow> msg_t \<Rightarrow> (rc \<times> msg_t) res" where
  "parse_tcp msg_in m =
     (if STRING_MAX_LENGTH \<le> length msg_in \<and> NUL \<notin> set msg_in then Fault BufOverflow
      else Ok (parse_tcp_text (cstr 0 msg_in) m))"

section \<open>UDP\<close>

text \<open>\<open>msg_in[i] * 0xFF + msg_in[i + 1]\<close>, converted to \<open>uint16_t\<close>.\<close>

definition udp_id :: "bytes \<Rightarrow> nat \<Rightarrow> message_id_t" where
  "udp_id b i = word_of_int (schar (buf_at b i) * 0xFF + schar (buf_at b (i + 1)))"

function split_loop ::
    "bytes \<Rightarrow> char \<Rightarrow> nat \<Rightarrow> nat \<Rightarrow> nat \<Rightarrow> bytes list \<Rightarrow> nat \<Rightarrow> nat \<Rightarrow> nat \<times> nat \<times> bytes list" where
  "split_loop str c i j m ptr mx len =
     (if i < len \<and> m < mx then
        if buf_at str i = c then split_loop str c (Suc i) 0 (Suc m) ptr mx len
        else split_loop str c (Suc i) (Suc j) m
               (ptr[m := buf_write j [buf_at str i] (ptr ! m)]) mx len
      else (i, m, ptr))"
  by pat_completeness auto
termination
  by (relation "measure (\<lambda>(str, c, i, j, m, ptr, mx, len). len - i)") auto

declare split_loop.simps [simp del]

definition split_l :: "bytes \<Rightarrow> char \<Rightarrow> nat \<Rightarrow> bytes list \<Rightarrow> nat \<Rightarrow> nat \<Rightarrow> int \<times> bytes list" where
  "split_l str c s ptr mx len =
     (case split_loop str c s 0 0 ptr mx len of (i, m, ptr') \<Rightarrow>
        (if i \<noteq> len \<or> (i = len \<and> m = mx) then int m - 1 else int m, ptr'))"

definition udp_fail :: "msg_t \<Rightarrow> rc \<times> msg_t" where
  "udp_fail m = (Some error_pars_udp_parse_fail, m)"

text \<open>The \<open>k\<close>-th substring, as a C string.\<close>

definition part :: "bytes list \<Rightarrow> nat \<Rightarrow> string" where
  "part ps k = cstr 0 (ps ! k)"

definition parse_udp :: "bytes \<Rightarrow> nat \<Rightarrow> msg_t \<Rightarrow> rc \<times> msg_t" where
  "parse_udp msg_in msg_in_size m =
     (let t = (of_char (buf_at msg_in 0) :: nat); z = [[], [], []] in
      if t = msg_type_code e_confirm then
        (let m1 = m\<lparr>msg_type := e_confirm, data := set_confirm_ref_id (udp_id msg_in 1) (data m)\<rparr>
         in if msg_in_size = 3 then (None, m1) else udp_fail m1)
      else if t = msg_type_code e_reply then
        (let m1 = m\<lparr>msg_type := e_reply, msg_id := udp_id msg_in 1,
              data := set_reply_ref_id (udp_id msg_in 4)
                (set_reply_result (buf_at msg_in 3 \<noteq> NUL) (data m))\<rparr>;
             (n, ps) = split_l msg_in NUL 6 z 1 msg_in_size
         in if msg_in_size \<ge> 8 \<and> n = 0 \<and> is_message_content (part ps 0)
            then (None, put_str reply_content_off (part ps 0) m1) else udp_fail m1)
      else if t = msg_type_code e_auth then
        (let m1 = m\<lparr>msg_type := e_auth, msg_id := udp_id msg_in 1\<rparr>;
             (n, ps) = split_l msg_in NUL 3 z 3 msg_in_size
         in if msg_in_size \<ge> 9 \<and> n = 2 \<and> is_username (part ps 0) \<and>
               is_display_name (part ps 1) \<and> is_secret (part ps 2)
            then (None, put_str auth_secret_off (part ps 2)
                   (put_str auth_display_name_off (part ps 1)
                     (put_str auth_username_off (part ps 0) m1)))
            else udp_fail m1)
      else if t = msg_type_code e_join then
        (let m1 = m\<lparr>msg_type := e_join, msg_id := udp_id msg_in 1\<rparr>;
             (n, ps) = split_l msg_in NUL 3 z 2 msg_in_size
         in if msg_in_size \<ge> 7 \<and> n = 1 \<and> is_channel_id (part ps 0) \<and> is_display_name (part ps 1)
            then (None, put_str join_display_name_off (part ps 1)
                   (put_str join_channel_id_off (part ps 0) m1))
            else udp_fail m1)
      else if t = msg_type_code e_msg then
        (let m1 = m\<lparr>msg_type := e_msg, msg_id := udp_id msg_in 1\<rparr>;
             (n, ps) = split_l msg_in NUL 3 z 2 msg_in_size
         in if msg_in_size \<ge> 7 \<and> n = 1 \<and> is_display_name (part ps 0) \<and> is_message_content (part ps 1)
            then (None, put_str msg_content_off (part ps 1)
                   (put_str msg_display_name_off (part ps 0) m1))
            else udp_fail m1)
      else if t = msg_type_code e_err then
        (let m1 = m\<lparr>msg_type := e_err, msg_id := udp_id msg_in 1\<rparr>;
             (n, ps) = split_l msg_in NUL 3 z 2 msg_in_size
         in if msg_in_size \<ge> 7 \<and> n = 1 \<and> is_display_name (part ps 0) \<and> is_message_content (part ps 1)
            then (None, put_str msg_content_off (part ps 1)
                   (put_str msg_display_name_off (part ps 0) m1))
            else udp_fail m1)
      else if t = msg_type_code e_bye then
        (let m1 = m\<lparr>msg_type := e_bye, msg_id := udp_id msg_in 1\<rparr>
         in if msg_in_size = 3 then (None, m1) else udp_fail m1)
      else udp_fail m)"

definition parse :: "transport_protocol_t \<Rightarrow> bytes \<Rightarrow> nat \<Rightarrow> msg_t \<Rightarrow> (rc \<times> msg_t) res" where
  "parse protocol msg_in msg_in_size m =
     (if protocol = e_tcp then parse_tcp msg_in m else Ok (parse_udp msg_in msg_in_size m))"

end
