(* ===== verification/Compose.thy ===== *)
theory Compose
  imports Errors
begin

text \<open>
  Encoding of messages (compose.c).  \<open>sprintf\<close> writes the text and a zero byte into the
  \<open>string_t\<close> of the caller, which has 2048 bytes; a longer text is an overflow.
\<close>

definition sprintf_buf :: "bytes \<Rightarrow> bytes res" where
  "sprintf_buf s = (if length s + 1 \<le> STRING_MAX_LENGTH then Ok s else Fault BufOverflow)"

definition compose_tcp :: "msg_t \<Rightarrow> (rc \<times> bytes) res" where
  "compose_tcp m = (case msg_type m of
     e_confirm \<Rightarrow> Ok (Some error_comp_tcp_no_confirm, [])
   | e_reply \<Rightarrow> andthen (sprintf_buf (''REPLY '' @
        (if reply_result (data m) then ''OK'' else ''NOK'') @ '' IS '' @
        data_str reply_content_off m @ [CR, LF])) (\<lambda>s. Ok (None, s))
   | e_auth \<Rightarrow> andthen (sprintf_buf (''AUTH '' @ data_str auth_username_off m @ '' AS '' @
        data_str auth_display_name_off m @ '' USING '' @ data_str auth_secret_off m @ [CR, LF]))
        (\<lambda>s. Ok (None, s))
   | e_join \<Rightarrow> andthen (sprintf_buf (''JOIN '' @ data_str join_channel_id_off m @ '' AS '' @
        data_str join_display_name_off m @ [CR, LF])) (\<lambda>s. Ok (None, s))
   | e_msg \<Rightarrow> andthen (sprintf_buf (''MSG FROM '' @ data_str msg_display_name_off m @ '' IS '' @
        data_str msg_content_off m @ [CR, LF])) (\<lambda>s. Ok (None, s))
   | e_err \<Rightarrow> andthen (sprintf_buf (''ERR FROM '' @ data_str msg_display_name_off m @ '' IS '' @
        data_str msg_content_off m @ [CR, LF])) (\<lambda>s. Ok (None, s))
   | e_bye \<Rightarrow> andthen (sprintf_buf (''BYE'' @ [CR, LF])) (\<lambda>s. Ok (None, s)))"

text \<open>\<open>%c\<close> prints its \<open>int\<close> argument converted to \<open>unsigned char\<close>.\<close>

definition pct_c :: "nat \<Rightarrow> char" where
  "pct_c n = char_of (n mod 256)"

definition hi_byte :: "message_id_t \<Rightarrow> char" where
  "hi_byte w = pct_c (unat w div 256)" \<comment> \<open>\<open>id >> 8\<close>\<close>
definition lo_byte :: "message_id_t \<Rightarrow> char" where
  "lo_byte w = pct_c (unat w mod 256)" \<comment> \<open>\<open>id & 0x00FF\<close>\<close>

definition type_byte :: "msg_type_t \<Rightarrow> char" where
  "type_byte t = pct_c (msg_type_code t)"

text \<open>The composed bytes and \<open>msg_out_size\<close>.\<close>

definition compose_udp :: "msg_t \<Rightarrow> (rc \<times> bytes \<times> nat) res" where
  "compose_udp m = (case msg_type m of
     e_confirm \<Rightarrow> (let r = confirm_ref_id (data m) in
        andthen (sprintf_buf [type_byte e_confirm, hi_byte r, lo_byte r])
          (\<lambda>s. Ok (None, s, 3)))
   | e_reply \<Rightarrow> (let r = reply_ref_id (data m); ct = data_str reply_content_off m in
        andthen (sprintf_buf ([type_byte e_reply, hi_byte (msg_id m), lo_byte (msg_id m),
            pct_c (if reply_result (data m) then 1 else 0),
            pct_c (unat r div 256 * 256), lo_byte r] @ ct @ [NUL]))
          (\<lambda>s. Ok (None, s, 7 + length ct)))
   | e_auth \<Rightarrow> (let un = data_str auth_username_off m; dn = data_str auth_display_name_off m;
          se = data_str auth_secret_off m in
        andthen (sprintf_buf ([type_byte e_auth, hi_byte (msg_id m), lo_byte (msg_id m)] @
            un @ [NUL] @ dn @ [NUL] @ se @ [NUL]))
          (\<lambda>s. Ok (None, s, 6 + length un + length dn + length se)))
   | e_join \<Rightarrow> (let ch = data_str join_channel_id_off m; dn = data_str join_display_name_off m in
        andthen (sprintf_buf ([type_byte e_join, hi_byte (msg_id m), lo_byte (msg_id m)] @
            ch @ [NUL] @ dn @ [NUL]))
          (\<lambda>s. Ok (None, s, 5 + length ch + length dn)))
   | e_msg \<Rightarrow> (let dn = data_str msg_display_name_off m; ct = data_str msg_content_off m in
        andthen (sprintf_buf ([type_byte e_msg, hi_byte (msg_id m), lo_byte (msg_id m)] @
            dn @ [NUL] @ ct @ [NUL]))
          (\<lambda>s. Ok (None, s, 5 + length dn + length ct)))
   | e_err \<Rightarrow> (let dn = data_str msg_display_name_off m; ct = data_str msg_content_off m in
        andthen (sprintf_buf ([type_byte e_err, hi_byte (msg_id m), lo_byte (msg_id m)] @
            dn @ [NUL] @ ct @ [NUL]))
          (\<lambda>s. Ok (None, s, 5 + length dn + length ct)))
   | e_bye \<Rightarrow>
        andthen (sprintf_buf [type_byte e_bye, hi_byte (msg_id m), lo_byte (msg_id m)])
          (\<lambda>s. Ok (None, s, 3)))"

text \<open>\<open>compose\<close>; over TCP the size stays 0, the value the caller gave it.\<close>

definition compose :: "transport_protocol_t \<Rightarrow> msg_t \<Rightarrow> (rc \<times> bytes \<times> nat) res" where
  "compose protocol m =
     (if protocol = e_tcp then andthen (compose_tcp m) (\<lambda>(rc, s). Ok (rc, s, 0))
      else compose_udp m)"

end
