(* ===== verification/Server.thy ===== *)
theory Server
  imports Utils Parse Compose
begin

text \<open>
  The global state of the server (the globals of main.c and server.c) and the network layer
  server.c.

  The operating system is part of the state: \<open>os\<close> holds what it will answer (which sends and
  allocations fail, which sockets it hands out, what waits to be received on each descriptor)
  and what the program made visible (the bytes sent, the descriptors closed, the log lines).
  Theorems quantify over it, so they hold for every behaviour of the system.
\<close>

section \<open>State\<close>

datatype log_entry =
    LogSent sockaddr_in msg_type_t
  | LogRecv sockaddr_in msg_type_t

record os_t =
  send_fail :: "bool list" \<comment> \<open>does the next \<open>sendto\<close> fail; success when the list is exhausted\<close>
  alloc_fail :: "bool list" \<comment> \<open>the same for \<open>malloc\<close> and \<open>realloc\<close>\<close>
  call_fail :: "bool list" \<comment> \<open>the same for \<open>fcntl\<close>, \<open>bind\<close> and \<open>listen\<close>\<close>
  new_socks :: "int list" \<comment> \<open>results of \<open>socket\<close>; \<open>-1\<close> when exhausted\<close>
  new_conns :: "(int \<times> sockaddr_in) list" \<comment> \<open>connections for \<open>accept\<close>; \<open>-1\<close> when exhausted\<close>
  inbox :: "int \<Rightarrow> (bytes \<times> sockaddr_in) list" \<comment> \<open>what each receive call on a descriptor returns\<close>
  wire :: "(int \<times> sockaddr_in \<times> bytes) list" \<comment> \<open>what was sent, oldest first\<close>
  closed :: "int list"
  out_log :: "log_entry list"

record server =
  clients :: "client_t queue"
  msg_out_buf :: "msg_t queue"
  poll :: pollfd_list_t
  client_cnt :: "32 word"
  msg_cnt :: "32 word"
  stop_flag :: bool
  stop_timeout :: int
  argv :: argv_t
  errno :: int
  sockfd_tcp_welcome :: int
  sockfd_udp_welcome :: int
  next_addr :: nat \<comment> \<open>the next address of \<open>malloc\<close>\<close>
  exited :: "int option"
  os :: os_t

definition set_errno :: "error_code \<Rightarrow> server \<Rightarrow> server" where
  "set_errno e s = s\<lparr>errno := error_out e\<rparr>"

section \<open>System calls\<close>

definition pop :: "bool list \<Rightarrow> bool \<times> bool list" where
  "pop bs = (case bs of [] \<Rightarrow> (False, []) | b # r \<Rightarrow> (b, r))"

definition os_call :: "server \<Rightarrow> bool \<times> server" where
  "os_call s = (case pop (call_fail (os s)) of (b, r) \<Rightarrow> (b, s\<lparr>os := (os s)\<lparr>call_fail := r\<rparr>\<rparr>))"

definition os_alloc :: "server \<Rightarrow> bool \<times> server" where
  "os_alloc s = (case pop (alloc_fail (os s)) of (b, r) \<Rightarrow> (b, s\<lparr>os := (os s)\<lparr>alloc_fail := r\<rparr>\<rparr>))"

definition os_socket :: "server \<Rightarrow> int \<times> server" where
  "os_socket s = (case new_socks (os s) of [] \<Rightarrow> (-1, s)
     | f # r \<Rightarrow> (f, s\<lparr>os := (os s)\<lparr>new_socks := r\<rparr>\<rparr>))"

definition os_close :: "int \<Rightarrow> server \<Rightarrow> server" where
  "os_close f s = s\<lparr>os := (os s)\<lparr>closed := closed (os s) @ [f]\<rparr>\<rparr>"

definition os_log :: "log_entry \<Rightarrow> server \<Rightarrow> server" where
  "os_log e s = s\<lparr>os := (os s)\<lparr>out_log := out_log (os s) @ [e]\<rparr>\<rparr>"

text \<open>\<open>queue_create_item\<close>: an address, or NULL with \<open>errno\<close> set.\<close>

definition new_item :: "server \<Rightarrow> ptr \<times> server" where
  "new_item s = (case os_alloc s of (failed, s1) \<Rightarrow>
     if failed then (None, set_errno error_memo_mem_alloc_fail s1)
     else (Some (next_addr s1), s1\<lparr>next_addr := next_addr s1 + 1\<rparr>))"

section \<open>The network layer (server.c)\<close>

definition AF_INET :: "16 word" where
  "AF_INET = 2"

text \<open>\<open>bind\<close> and \<open>listen\<close> results are as the system says; the bound address is not used again.\<close>

definition server_open :: "server \<Rightarrow> rc \<times> server" where
  "server_open s =
     (let (f1, s) = os_socket s; s = s\<lparr>sockfd_tcp_welcome := f1\<rparr>;
          (f2, s) = os_socket s; s = s\<lparr>sockfd_udp_welcome := f2\<rparr>
      in if f1 \<le> 0 \<or> f2 \<le> 0 then (Some error_serv_sock_init_fail, set_errno error_serv_sock_init_fail s)
      else let (b, s) = os_call s in
      if b then (Some error_serv_sock_init_fail, set_errno error_serv_sock_init_fail s)
      else let (b, s) = os_call s in
      if b then (Some error_serv_sock_init_fail, set_errno error_serv_sock_init_fail s)
      else let (b, s) = os_call s in
      if b then (Some error_serv_addr_bind_fail, set_errno error_serv_addr_bind_fail s)
      else let (b, s) = os_call s in
      if b then (Some error_serv_addr_bind_fail, set_errno error_serv_addr_bind_fail s)
      else let (b, s) = os_call s in
      if b then (Some error_serv_tcp_listn_fail, set_errno error_serv_tcp_listn_fail s)
      else (None, s))"

text \<open>The result code, the descriptor, and for TCP the address of the peer.\<close>

definition server_accept ::
    "transport_protocol_t \<Rightarrow> sockaddr_in \<Rightarrow> server \<Rightarrow> rc \<times> int \<times> sockaddr_in \<times> server" where
  "server_accept protocol client_addr s = (case protocol of
     e_tcp \<Rightarrow> (case new_conns (os s) of
        [] \<Rightarrow> (Some error_serv_tcp_accpt_fail, -1, client_addr, set_errno error_serv_tcp_accpt_fail s)
      | (f, a) # r \<Rightarrow>
          (let s = s\<lparr>os := (os s)\<lparr>new_conns := r\<rparr>\<rparr> in
           if f = -1 then (Some error_serv_tcp_accpt_fail, f, client_addr, set_errno error_serv_tcp_accpt_fail s)
           else let (b, s) = os_call s in
           if b then (Some error_serv_sock_init_fail, f, a, set_errno error_serv_sock_init_fail s)
           else (None, f, a, s)))
   | e_udp \<Rightarrow>
       (let (f, s) = os_socket s in
        if f \<le> 0 then (Some error_serv_sock_init_fail, f, client_addr, set_errno error_serv_sock_init_fail s)
        else let (b, s) = os_call s in
        if b then (Some error_serv_sock_init_fail, f, client_addr, set_errno error_serv_sock_init_fail s)
        else let (b, s) = os_call s in
        if b then (Some error_serv_addr_bind_fail, f, client_addr, set_errno error_serv_addr_bind_fail s)
        else (None, f, client_addr, s)))"

text \<open>
  \<open>recv\<close> and \<open>recvfrom\<close>: the size (\<open>None\<close> is \<open>-1\<close>), the bytes, the address, which only
  \<open>recvfrom\<close> writes.  At most \<open>sizeof(string_t)\<close> bytes are stored.
\<close>

definition server_read_sock ::
    "transport_protocol_t \<Rightarrow> int \<Rightarrow> sockaddr_in \<Rightarrow> server \<Rightarrow> nat option \<times> bytes \<times> sockaddr_in \<times> server" where
  "server_read_sock protocol f addr s = (case inbox (os s) f of
     [] \<Rightarrow> (None, [], addr, s)
   | (bs, from) # r \<Rightarrow>
       (let b = take STRING_MAX_LENGTH bs;
            s1 = s\<lparr>os := (os s)\<lparr>inbox := (inbox (os s))(f := r)\<rparr>\<rparr>
        in (Some (length b), b, (if protocol = e_udp then from else addr), s1)))"

text \<open>True when \<open>sendto\<close> returns \<open>-1\<close>.  Over TCP the length is \<open>strlen(buf)\<close>.\<close>

definition server_send ::
    "transport_protocol_t \<Rightarrow> int \<Rightarrow> sockaddr_in \<Rightarrow> bytes \<Rightarrow> nat \<Rightarrow> server \<Rightarrow> bool \<times> server" where
  "server_send protocol f addr buf buf_size s =
     (let (failed, r) = pop (send_fail (os s));
          bs = (if protocol = e_tcp then cstr 0 buf else buf_slice 0 buf_size buf);
          s1 = s\<lparr>os := (os s)\<lparr>send_fail := r\<rparr>\<rparr>
      in if failed then (True, s1)
         else (False, s1\<lparr>os := (os s1)\<lparr>wire := wire (os s1) @ [(f, addr, bs)]\<rparr>\<rparr>))"

definition server_close_client :: "int \<Rightarrow> server \<Rightarrow> server" where
  "server_close_client f s = os_close f s"

definition server_close :: "server \<Rightarrow> server" where
  "server_close s = os_close (sockfd_udp_welcome s) (os_close (sockfd_tcp_welcome s) s)"

definition get_tcp_socket :: "server \<Rightarrow> int" where
  "get_tcp_socket s = sockfd_tcp_welcome s"

definition get_udp_socket :: "server \<Rightarrow> int" where
  "get_udp_socket s = sockfd_udp_welcome s"

section \<open>Client and message pointers\<close>

definition client_at :: "ptr \<Rightarrow> server \<Rightarrow> client_t res" where
  "client_at p s = andthen (ql_at p (clients s)) (\<lambda>n. Ok (n_data n))"

definition upd_client :: "ptr \<Rightarrow> (client_t \<Rightarrow> client_t) \<Rightarrow> server \<Rightarrow> server res" where
  "upd_client p f s = andthen (ql_upd p f (clients s)) (\<lambda>q. Ok (s\<lparr>clients := q\<rparr>))"

definition msg_at :: "ptr \<Rightarrow> server \<Rightarrow> msg_t res" where
  "msg_at p s = andthen (ql_at p (msg_out_buf s)) (\<lambda>n. Ok (n_data n))"

definition upd_msg :: "ptr \<Rightarrow> (msg_t \<Rightarrow> msg_t) \<Rightarrow> server \<Rightarrow> server res" where
  "upd_msg p f s = andthen (ql_upd p f (msg_out_buf s)) (\<lambda>q. Ok (s\<lparr>msg_out_buf := q\<rparr>))"

text \<open>\<open>memset\<close> to zero and the fields that \<open>tcp_polling\<close> and \<open>udp_polling\<close> set.\<close>

definition new_client :: "int \<Rightarrow> transport_protocol_t \<Rightarrow> sockaddr_in \<Rightarrow> client_t" where
  "new_client f prot a = \<lparr>c_sockfd = f, c_protocol = prot, c_addr = a, c_state = s_ac,
     c_names = [], msg_count = 0, msg_in_confirmed = replicate MAX_CONFIRMED_MSG 0\<rparr>"

text \<open>The clients that are not in the end state.\<close>

definition active :: "server \<Rightarrow> nat" where
  "active s = length (filter (\<lambda>n. c_state (n_data n) \<noteq> s_en) (clients s))"

end
