(* ===== verification/Chat.thy ===== *)
theory Chat
  imports Server
begin

text \<open>
  The message handling of main.c: sending with retransmission buffer, closing and deleting
  clients, forwarding to a channel, and the execution of a received message.

  Functions whose result code no caller looks at return the state only.  A loop over a queue by
  pointers has a fuel argument, started with the length of the queue plus one, which
  the theories Sending and Safety show to be enough.
\<close>

section \<open>Deleting a client\<close>

text \<open>The loop of \<open>delete_client\<close> over the buffered messages, with \<open>item\<close>.\<close>

fun purge_loop :: "nat \<Rightarrow> int \<Rightarrow> ptr \<Rightarrow> msg_t queue \<Rightarrow> msg_t queue res" where
  "purge_loop 0 f item q = Fault OutOfFuel"
| "purge_loop (Suc n) f item q = (case item of None \<Rightarrow> Ok q
     | Some a \<Rightarrow> andthen (ql_at item q) (\<lambda>m.
         if m_sockfd (n_data m) = f
         then andthen (ql_next item q) (\<lambda>item'. purge_loop n f item' (snd (ql_remove (n_id m) q)))
         else andthen (ql_next item q) (\<lambda>item'. purge_loop n f item' q)))"

declare purge_loop.simps [simp del]

definition delete_client :: "ptr \<Rightarrow> server \<Rightarrow> server res" where
  "delete_client p s =
     andthen (client_at p s) (\<lambda>c.
     andthen (purge_loop (Suc (length (msg_out_buf s))) (c_sockfd c)
        (ql_first (msg_out_buf s)) (msg_out_buf s)) (\<lambda>buf.
     andthen (del_poll_fd (c_sockfd c) (poll s)) (\<lambda>(is_found, pl).
     let s1 = s\<lparr>msg_out_buf := buf, poll := pl\<rparr>;
         s2 = (if is_found then os_close (c_sockfd c) s1 else s1)
     in andthen (ql_at p (clients s2)) (\<lambda>n.
        Ok (s2\<lparr>clients := snd (ql_remove (n_id n) (clients s2))\<rparr>)))))"

section \<open>Sending a message and closing a client\<close>

text \<open>
  The first part of \<open>send_msg\<close>, up to and including \<open>server_send\<close>: whether the send failed, the
  local variable \<open>id\<close> and the message.
\<close>

definition send_try :: "transport_protocol_t \<Rightarrow> int \<Rightarrow> sockaddr_in \<Rightarrow> msg_t \<Rightarrow> bool \<Rightarrow> server \<Rightarrow>
    (bool \<times> message_id_t \<times> msg_t \<times> server) res" where
  "send_try protocol f addr msg is_retransmitted s =
     (let i = (if is_retransmitted then -1 else ucast (msg_cnt s));
          msg1 = (if is_retransmitted then msg else msg\<lparr>msg_id := i\<rparr>);
          s1 = (if is_retransmitted then s else s\<lparr>msg_cnt := msg_cnt s + 1\<rparr>)
      in andthen (compose protocol msg1) (\<lambda>(rc, buf, buf_size).
         let s2 = (case rc of None \<Rightarrow> s1 | Some e \<Rightarrow> set_errno e s1);
             (failed, s3) = server_send protocol f addr buf buf_size s2
         in Ok (failed, i, msg1, s3)))"

text \<open>The rest of \<open>send_msg\<close> after a send that did not fail over TCP.\<close>

definition send_done :: "transport_protocol_t \<Rightarrow> int \<Rightarrow> sockaddr_in \<Rightarrow> message_id_t \<Rightarrow> msg_t \<Rightarrow> bool \<Rightarrow>
    server \<Rightarrow> server res" where
  "send_done protocol f addr i msg is_retransmitted s =
     (let s1 = os_log (LogSent addr (msg_type msg)) s in
      if protocol = e_udp \<and> msg_type msg \<noteq> e_confirm \<and> \<not> is_retransmitted then
        (case new_item s1 of (item, s2) \<Rightarrow> (case item of
            None \<Rightarrow> Fault NullDeref
          | Some a \<Rightarrow> Ok (s2\<lparr>msg_out_buf := ql_add \<lparr>n_ptr = a, n_id = i,
                n_data = msg\<lparr>m_sockfd := f, m_addr := addr, timeout := udp_timeout (argv s2),
                  retry_count := 0, is_confirmed := False\<rparr>\<rparr> (msg_out_buf s2)\<rparr>)))
      else Ok s1)"

definition bye_msg :: msg_t where
  "bye_msg = zero_msg\<lparr>msg_type := e_bye\<rparr>"

definition to_end :: "client_t \<Rightarrow> client_t" where
  "to_end c = c\<lparr>c_state := s_en\<rparr>"

lemma server_send_clients: "clients (snd (server_send pr f a b n s)) = clients s"
  by (simp add: server_send_def Let_def split: prod.split)

lemma set_errno_clients [simp]: "clients (set_errno e s) = clients s"
  by (simp add: set_errno_def)

lemma send_try_clients:
  "send_try pr f a m r s = Ok (b, i, m1, s1) \<Longrightarrow> clients s1 = clients s"
  unfolding send_try_def Let_def
  by (auto simp: andthen_Ok_iff case_prod_beta server_send_clients split: option.splits)

text \<open>Setting the state of a client to the end state makes one client less active.\<close>

lemma ends_to_end: "c_state (to_end c) = s_en"
  by (simp add: to_end_def)

lemma active_map_le:
  "length (filter (\<lambda>n. c_state (n_data n) \<noteq> s_en) (ql_map a to_end q)) \<le>
   length (filter (\<lambda>n. c_state (n_data n) \<noteq> s_en) q)"
  by (induction q) (auto simp: ql_map_def ends_to_end)

lemma active_map_less:
  "ql_find a q = Some n \<Longrightarrow> c_state (n_data n) \<noteq> s_en \<Longrightarrow>
   length (filter (\<lambda>n. c_state (n_data n) \<noteq> s_en) (ql_map a to_end q)) <
   length (filter (\<lambda>n. c_state (n_data n) \<noteq> s_en) q)"
proof (induction q)
  case (Cons m q)
  then show ?case using active_map_le [of a q]
    by (auto simp: ql_map_def ends_to_end split: if_splits)
qed simp

lemma active_to_end:
  assumes "client_at p s = Ok c" and "c_state c \<noteq> s_en" and "upd_client p to_end s = Ok s1"
  shows "active s1 < active s"
proof -
  from assms(1) obtain a n where p: "p = Some a" and n: "ql_find a (clients s) = Some n" "c = n_data n"
    by (auto simp: client_at_def andthen_Ok_iff ql_at_Ok_iff)
  then have "s1 = s\<lparr>clients := ql_map a to_end (clients s)\<rparr>"
    using assms(3) ql_find_SomeD [OF n(1)]
    by (auto simp: upd_client_def ql_upd_def andthen_Ok_iff ql_at_Ok_iff)
  with active_map_less [OF n(1)] n(2) assms(2) show ?thesis by (simp add: active_def)
qed

function send_msg :: "transport_protocol_t \<Rightarrow> int \<Rightarrow> sockaddr_in \<Rightarrow> msg_t \<Rightarrow> bool \<Rightarrow> server \<Rightarrow> server res"
  and close_client :: "ptr \<Rightarrow> server \<Rightarrow> server res" where
  "send_msg protocol f addr msg is_retransmitted s =
     andthen (send_try protocol f addr msg is_retransmitted s) (\<lambda>(failed, i, msg1, s1).
       if failed \<and> protocol = e_tcp then close_client (get_client_by_fd (clients s1) f) s1
       else send_done protocol f addr i msg1 is_retransmitted s1)"
| "close_client p s =
     andthen (client_at p s) (\<lambda>c.
     andthen
       (if c_state c \<noteq> s_en then
          andthen (upd_client p to_end s) (\<lambda>s1.
            send_msg (c_protocol c) (c_sockfd c) (c_addr c) bye_msg False s1)
        else Ok s) (\<lambda>s2.
     andthen (client_at p s2) (\<lambda>c2.
       if c_protocol c2 = e_tcp then delete_client p s2 else Ok s2)))"
  by pat_completeness auto
termination
  by (relation "measure (\<lambda>x. case x of Inl (pr, f, a, m, r, s) \<Rightarrow> 2 * active s + 1
        | Inr (p, s) \<Rightarrow> 2 * active s)")
     (auto dest: send_try_clients active_to_end simp: active_def)

declare send_msg.simps [simp del] close_client.simps [simp del]

text \<open>The size the caller of \<open>memcpy\<close> gives is \<open>strlen(err_msg)\<close>.\<close>

definition send_error ::
    "transport_protocol_t \<Rightarrow> int \<Rightarrow> sockaddr_in \<Rightarrow> string \<Rightarrow> server \<Rightarrow> server res" where
  "send_error protocol f addr err_msg s =
     send_msg protocol f addr
       (put_str msg_content_off err_msg (put_str msg_display_name_off ''Server''
         (zero_msg\<lparr>msg_type := e_err\<rparr>))) False s"

section \<open>Forwarding to a channel\<close>

text \<open>
  The loop of \<open>forward_msg_channel\<close>.  \<open>channel\<close> is in all calls the array
  \<open>channel_id\<close> of \<open>client\<close>, read anew in each round.
\<close>

fun forward_loop :: "nat \<Rightarrow> ptr \<Rightarrow> msg_t \<Rightarrow> ptr \<Rightarrow> server \<Rightarrow> server res" where
  "forward_loop 0 client msg item s = Fault OutOfFuel"
| "forward_loop (Suc k) client msg item s = (case item of None \<Rightarrow> Ok s
     | Some a \<Rightarrow> andthen (client_at item s) (\<lambda>c.
         if c_state c = s_en
         then andthen (ql_next item (clients s)) (\<lambda>item'. forward_loop k client msg item' s)
         else andthen (client_at client s) (\<lambda>cl.
           if cmp_clients cl c \<or> c_channel_id c \<noteq> c_channel_id cl
           then andthen (ql_next item (clients s)) (\<lambda>item'. forward_loop k client msg item' s)
           else andthen (send_msg (c_protocol c) (c_sockfd c) (c_addr c) msg False s) (\<lambda>s1.
             andthen (ql_next item (clients s1)) (\<lambda>item'. forward_loop k client msg item' s1)))))"

declare forward_loop.simps [simp del]

definition forward_msg_channel :: "ptr \<Rightarrow> msg_t \<Rightarrow> server \<Rightarrow> server res" where
  "forward_msg_channel client msg s =
     forward_loop (Suc (length (clients s))) client msg (ql_first (clients s)) s"

text \<open>A notification: a message of the display name \<open>Server\<close>.\<close>

definition notification :: "string \<Rightarrow> msg_t" where
  "notification text =
     put_str msg_content_off (snprintf_n MESSAGECONTENT_MAX_LENGTH text)
       (put_str msg_display_name_off (snprintf_n DISPLAYNAME_MAX_LENGTH ''Server'')
         (zero_msg\<lparr>msg_type := e_msg\<rparr>))"

definition notify_join :: "ptr \<Rightarrow> server \<Rightarrow> server res" where
  "notify_join client s = andthen (client_at client s) (\<lambda>c.
     forward_msg_channel client
       (notification (''User '' @ c_display_name c @ '' joined '' @ c_channel_id c @ ''.'')) s)"

definition notify_leave :: "ptr \<Rightarrow> server \<Rightarrow> server res" where
  "notify_leave client s = andthen (client_at client s) (\<lambda>c.
     forward_msg_channel client
       (notification (''User '' @ c_display_name c @ '' left '' @ c_channel_id c @ ''.'')) s)"

section \<open>Receiving\<close>

text \<open>Where \<open>recvfrom\<close> stores the address: a local variable, or the address of a client.\<close>

datatype addr_ref = LocalAddr | ClientAddr ptr

definition store_addr :: "addr_ref \<Rightarrow> sockaddr_in \<Rightarrow> server \<Rightarrow> server res" where
  "store_addr r a s = (case r of LocalAddr \<Rightarrow> Ok s
     | ClientAddr p \<Rightarrow> upd_client p (\<lambda>c. c\<lparr>c_addr := a\<rparr>) s)"

text \<open>The return value (\<open>None\<close> is \<open>-1\<close>), the address read, the message.\<close>

definition read_msg :: "transport_protocol_t \<Rightarrow> int \<Rightarrow> sockaddr_in \<Rightarrow> addr_ref \<Rightarrow> msg_t \<Rightarrow> server \<Rightarrow>
    (nat option \<times> sockaddr_in \<times> msg_t \<times> server) res" where
  "read_msg protocol f addr ref msg s =
     (case server_read_sock protocol f addr s of (buf_size, buf, addr1, s1) \<Rightarrow>
        andthen (store_addr ref addr1 s1) (\<lambda>s2.
          if protocol = e_tcp \<and> buf_size = Some 0 then
            andthen (close_client (get_client_by_fd (clients s2) f) s2) (\<lambda>s3.
              Ok (None, addr1, msg, s3))
          else (case buf_size of
              None \<Rightarrow> Ok (None, addr1, msg, s2)
            | Some n \<Rightarrow> andthen (parse protocol buf n msg) (\<lambda>(rc, msg1). case rc of
                  Some e \<Rightarrow> andthen (send_error protocol f addr1
                      ''Received message contains error.'' (set_errno e s2)) (\<lambda>s3.
                    Ok (None, addr1, msg1, s3))
                | None \<Rightarrow> Ok (Some n, addr1, msg1, os_log (LogRecv addr1 (msg_type msg1)) s2)))))"

section \<open>Executing a message\<close>

definition check_state_transition :: "ptr \<Rightarrow> msg_t \<Rightarrow> server \<Rightarrow> (bool \<times> server) res" where
  "check_state_transition client msg s = andthen (client_at client s) (\<lambda>c.
     if (c_state c = s_ac \<or> c_state c = s_au) \<and> msg_type msg \<noteq> e_confirm \<and> msg_type msg \<noteq> e_auth then
       andthen (send_error (c_protocol c) (c_sockfd c) (c_addr c) ''Client is not yet authorized.'' s)
         (\<lambda>s1. Ok (msg_type msg = e_bye, s1))
     else if c_state c = s_en \<and> msg_type msg \<noteq> e_bye \<and> msg_type msg \<noteq> e_confirm then Ok (False, s)
     else Ok (True, s))"

definition set_state :: "fsm_state_t \<Rightarrow> client_t \<Rightarrow> client_t" where
  "set_state st c = c\<lparr>c_state := st\<rparr>"

definition exec_confirm :: "ptr \<Rightarrow> msg_t \<Rightarrow> server \<Rightarrow> server res" where
  "exec_confirm client msg_in s =
     (let ref_id = confirm_ref_id (data msg_in) in
      case ql_get ref_id (msg_out_buf s) of
        None \<Rightarrow> Ok s
      | Some a \<Rightarrow> andthen (upd_msg (Some a) (\<lambda>m. m\<lparr>is_confirmed := True\<rparr>) s) (\<lambda>s1.
          andthen (msg_at (Some a) s1) (\<lambda>m.
            let s2 = s1\<lparr>msg_out_buf := snd (ql_remove ref_id (msg_out_buf s1))\<rparr> in
            if msg_type m = e_bye then close_client client s2 else Ok s2)))"

definition exec_auth :: "ptr \<Rightarrow> msg_t \<Rightarrow> msg_t \<Rightarrow> server \<Rightarrow> (msg_t \<times> server) res" where
  "exec_auth client msg_in msg_out s =
     (let out1 = msg_out\<lparr>msg_type := e_reply, data := set_reply_ref_id (msg_id msg_in) (data msg_out)\<rparr>
      in andthen (client_at client s) (\<lambda>c.
        if c_state c = s_op \<or> c_state c = s_er then
          Ok (put_str reply_content_off (snprintf_n MESSAGECONTENT_MAX_LENGTH
                (''User is already authorized as '' @ c_display_name c))
              (out1\<lparr>data := set_reply_result False (data out1)\<rparr>), s)
        else
          andthen (upd_client client (\<lambda>c. set_channel_id (''default'' @ [NUL])
              (set_display_name (buf_slice auth_display_name_off 20 (data msg_in))
                (set_username (buf_slice auth_username_off 20 (data msg_in)) c))) s) (\<lambda>s1.
          andthen (notify_join client s1) (\<lambda>s2.
          andthen (upd_client client (set_state s_op) s2) (\<lambda>s3.
            Ok (put_str reply_content_off ''Joined default channel.''
                 (out1\<lparr>data := set_reply_result True (data out1)\<rparr>), s3))))))"

definition exec_join :: "ptr \<Rightarrow> msg_t \<Rightarrow> msg_t \<Rightarrow> server \<Rightarrow> (msg_t \<times> server) res" where
  "exec_join client msg_in msg_out s =
     andthen (notify_leave client s) (\<lambda>s1.
     let out1 = msg_out\<lparr>msg_type := e_reply,
           data := set_reply_result True (set_reply_ref_id (msg_id msg_in) (data msg_out))\<rparr>
     in andthen (upd_client client (\<lambda>c.
           set_display_name (buf_slice join_display_name_off 20 (data msg_in))
             (set_channel_id (buf_slice join_channel_id_off 20 (data msg_in)) c)) s1) (\<lambda>s2.
        andthen (notify_join client s2) (\<lambda>s3.
        andthen (upd_client client (set_state s_op) s3) (\<lambda>s4.
          Ok (put_str reply_content_off (snprintf_n MESSAGECONTENT_MAX_LENGTH
                (''You joined '' @ data_str join_channel_id_off msg_in @ '' channel.'')) out1, s4)))))"

definition exec_msg :: "ptr \<Rightarrow> msg_t \<Rightarrow> server \<Rightarrow> (msg_t \<times> server) res" where
  "exec_msg client msg_in s =
     (let out = msg_in\<lparr>msg_type := e_msg\<rparr> in
      andthen (upd_client client
          (set_display_name (buf_slice msg_display_name_off 20 (data msg_in))) s) (\<lambda>s1.
      andthen (forward_msg_channel client out s1) (\<lambda>s2.
      andthen (upd_client client (set_state s_op) s2) (\<lambda>s3. Ok (out, s3)))))"

definition exec_bye :: "ptr \<Rightarrow> server \<Rightarrow> server res" where
  "exec_bye client s = (case client of None \<Rightarrow> Ok s | Some a \<Rightarrow>
     andthen (notify_leave client s) (\<lambda>s1.
     andthen (upd_client client (set_state s_en) s1) (\<lambda>s2. close_client client s2)))"

text \<open>Whether a response is to be sent, and the response.\<close>

definition execute_msg :: "ptr \<Rightarrow> msg_t \<Rightarrow> msg_t \<Rightarrow> server \<Rightarrow> (bool \<times> msg_t \<times> server) res" where
  "execute_msg client msg_in msg_out s = (case msg_type msg_in of
     e_confirm \<Rightarrow> andthen (exec_confirm client msg_in s) (\<lambda>s1. Ok (False, msg_out, s1))
   | e_reply \<Rightarrow> andthen (upd_client client (set_state s_er) s) (\<lambda>s1.
       Ok (True, put_str msg_content_off ''Reply cannot be sent by client.''
             (put_str msg_display_name_off ''Server'' (msg_out\<lparr>msg_type := e_err\<rparr>)), s1))
   | e_auth \<Rightarrow> andthen (exec_auth client msg_in msg_out s) (\<lambda>(out, s1). Ok (True, out, s1))
   | e_join \<Rightarrow> andthen (exec_join client msg_in msg_out s) (\<lambda>(out, s1). Ok (True, out, s1))
   | e_msg \<Rightarrow> andthen (exec_msg client msg_in s) (\<lambda>(out, s1). Ok (False, out, s1))
   | e_err \<Rightarrow> Ok (False, msg_out, s)
   | e_bye \<Rightarrow> andthen (exec_bye client s) (\<lambda>s1. Ok (False, msg_out, s1)))"

section \<open>Processing a received message\<close>

definition confirm_msg :: "message_id_t \<Rightarrow> msg_t" where
  "confirm_msg i = zero_msg\<lparr>msg_type := e_confirm, data := set_confirm_ref_id i []\<rparr>"

text \<open>The first part of \<open>process_msg\<close>: confirm a UDP message; true when it is a duplicate.\<close>

definition acknowledge :: "ptr \<Rightarrow> msg_t \<Rightarrow> server \<Rightarrow> (bool \<times> server) res" where
  "acknowledge client msg_in s = andthen (client_at client s) (\<lambda>c.
     if c_protocol c = e_udp \<and> msg_type msg_in \<noteq> e_confirm then
       andthen (send_msg (c_protocol c) (c_sockfd c) (c_addr c) (confirm_msg (msg_id msg_in)) False s) (\<lambda>s1.
       andthen (client_at client s1) (\<lambda>c1.
         if is_msg_confirmed c1 (msg_id msg_in) then Ok (True, s1)
         else andthen (upd_client client (confirm_record (msg_id msg_in)) s1) (\<lambda>s2. Ok (False, s2))))
     else Ok (False, s))"

text \<open>Check the transition, execute and answer.\<close>

definition check_execute :: "ptr \<Rightarrow> msg_t \<Rightarrow> server \<Rightarrow> server res" where
  "check_execute client msg_in s =
     andthen (check_state_transition client msg_in s) (\<lambda>(allowed, s1).
       if \<not> allowed then upd_client client (set_state s_er) s1
       else andthen (execute_msg client msg_in zero_msg s1) (\<lambda>(answer, msg_out, s2).
         if answer then andthen (client_at client s2) (\<lambda>c.
           send_msg (c_protocol c) (c_sockfd c) (c_addr c) msg_out False s2)
         else Ok s2))"

definition is_ending :: "msg_t \<Rightarrow> bool" where
  "is_ending m = (msg_type m = e_confirm \<or> msg_type m = e_bye)"

definition process_msg :: "ptr \<Rightarrow> msg_t \<Rightarrow> server \<Rightarrow> server res" where
  "process_msg client msg_in s =
     andthen (acknowledge client msg_in s) (\<lambda>(is_dup, s1).
       if is_dup then Ok s1
       else if stop_flag s1 \<and> \<not> is_ending msg_in then Ok s1
       else andthen (client_at client s1) (\<lambda>c.
         if c_state c = s_en \<and> \<not> is_ending msg_in then Ok s1
         else andthen (check_execute client msg_in s1) (\<lambda>s2.
           if is_ending msg_in then Ok s2
           else andthen (client_at client s2) (\<lambda>c2.
             if c_state c2 = s_er
             then andthen (upd_client client to_end s2) (close_client client)
             else Ok s2))))"

text \<open>The loop of \<open>process_msg_sock\<close>; a round consumes a receive on the descriptor.\<close>

fun sock_loop :: "nat \<Rightarrow> int \<Rightarrow> ptr \<Rightarrow> server \<Rightarrow> server res" where
  "sock_loop 0 f client s = Fault OutOfFuel"
| "sock_loop (Suc k) f client s =
     (if get_client_by_fd (clients s) f = None then Ok s
      else andthen (client_at client s) (\<lambda>c.
        andthen (read_msg (c_protocol c) (c_sockfd c) (c_addr c) (ClientAddr client) zero_msg s)
          (\<lambda>(buf_size, a, msg, s1).
            if buf_size = None then Ok s1
            else andthen (process_msg client msg s1) (\<lambda>s2. sock_loop k f client s2))))"

declare sock_loop.simps [simp del]

definition process_msg_sock :: "int \<Rightarrow> server \<Rightarrow> server res" where
  "process_msg_sock f s =
     (let client = get_client_by_fd (clients s) f in
      if client = None then
        andthen (del_poll_fd f (poll s)) (\<lambda>(is_found, pl).
          let s1 = s\<lparr>poll := pl\<rparr>; s2 = (if is_found then os_close f s1 else s1)
          in Ok (set_errno error_fatl_client_missing s2))
      else sock_loop (Suc (length (inbox (os s) f))) f client s)"

section \<open>New connections\<close>

text \<open>
  \<open>add_poll_fd\<close> on the global list.  Every call takes two answers of the system for the two
  calls of \<open>realloc\<close>; they matter only when the array is full.
\<close>

definition add_poll :: "int \<Rightarrow> transport_protocol_t \<Rightarrow> server \<Rightarrow> (rc \<times> server) res" where
  "add_poll f prot s =
     (case os_alloc s of (b1, s1) \<Rightarrow> case os_alloc s1 of (b2, s2) \<Rightarrow>
       andthen (add_poll_fd (\<not> b1) (\<not> b2) f prot (poll s2)) (\<lambda>(rc, pl).
         let s3 = s2\<lparr>poll := pl\<rparr>
         in Ok (rc, case rc of None \<Rightarrow> s3 | Some e \<Rightarrow> set_errno e s3)))"

text \<open>
  The part that both polling functions have: register the descriptor and queue a new client.
  The result is the new client, or NULL when an error was sent instead.
\<close>

definition register_client :: "transport_protocol_t \<Rightarrow> int \<Rightarrow> sockaddr_in \<Rightarrow> server \<Rightarrow> (ptr \<times> server) res" where
  "register_client prot f addr s =
     andthen (add_poll f prot s) (\<lambda>(rc, s1). case rc of
        Some e \<Rightarrow> andthen (send_error prot f addr ''Connection could not be established.'' s1)
          (\<lambda>s2. Ok (None, s2))
      | None \<Rightarrow> (case new_item s1 of (item, s2) \<Rightarrow> (case item of
            None \<Rightarrow> andthen (send_error prot f addr ''Connection could not be established.'' s2)
              (\<lambda>s3. Ok (None, server_close_client f s3))
          | Some a \<Rightarrow> Ok (Some a, s2\<lparr>client_cnt := client_cnt s2 + 1,
              clients := ql_add \<lparr>n_ptr = a, n_id = ucast (client_cnt s2),
                n_data = new_client f prot addr\<rparr> (clients s2)\<rparr>))))"

definition tcp_polling :: "server \<Rightarrow> server res" where
  "tcp_polling s = (case server_accept e_tcp zero_addr s of (rc, fd_accept, client_addr, s1) \<Rightarrow>
     (case rc of Some e \<Rightarrow> Ok s1
      | None \<Rightarrow> andthen (register_client e_tcp fd_accept client_addr s1) (\<lambda>(p, s2). Ok s2)))"

definition udp_polling :: "server \<Rightarrow> server res" where
  "udp_polling s = (case server_accept e_udp zero_addr s of (rc, fd_accept, addr0, s1) \<Rightarrow>
     (case rc of Some e \<Rightarrow> Ok s1
      | None \<Rightarrow>
        andthen (read_msg e_udp (get_udp_socket s1) zero_addr LocalAddr zero_msg s1)
          (\<lambda>(buf_size, client_addr, msg, s2).
            if buf_size = None then Ok (os_close fd_accept s2)
            else if get_client_by_addr (clients s2) client_addr \<noteq> None then
              send_error e_udp fd_accept client_addr ''This address is currently in use.'' s2
            else andthen (register_client e_udp fd_accept client_addr s2) (\<lambda>(client, s3).
              case client of None \<Rightarrow> Ok s3 | Some a \<Rightarrow> process_msg client msg s3))))"

end
