(* ===== verification/Argv.thy ===== *)
theory Argv
  imports Errors
begin

text \<open>
  Command line arguments (argv.c).  \<open>atoi\<close> and \<open>atoll\<close> read an optional sign and digits after
  white space; the result is clamped to 64 bits and then converted to the width of the field.
\<close>

fun skip_space :: "string \<Rightarrow> string" where
  "skip_space [] = []"
| "skip_space (c # s) =
     (let n = (of_char c :: nat) in if n = 32 \<or> 9 \<le> n \<and> n \<le> 13 then skip_space s else c # s)"

fun digits_val :: "int \<Rightarrow> string \<Rightarrow> int" where
  "digits_val acc [] = acc"
| "digits_val acc (c # s) =
     (if is_digit c then digits_val (10 * acc + (of_char c - 48)) s else acc)"

definition clamp64 :: "int \<Rightarrow> int" where
  "clamp64 x = max (- (2 ^ 63)) (min (2 ^ 63 - 1) x)"

definition atoll :: "string \<Rightarrow> int" where
  "atoll s = (case skip_space s of
     [] \<Rightarrow> 0
   | c # t \<Rightarrow> if c = CHR ''-'' then clamp64 (- digits_val 0 t)
              else if c = CHR ''+'' then clamp64 (digits_val 0 t)
              else clamp64 (digits_val 0 (c # t)))"

definition default_argv :: argv_t where
  "default_argv = \<lparr>ipv4 = ''0.0.0.0'', port = 4567, udp_timeout = 250, udp_retransmissions = 3,
     is_help = False\<rparr>"

text \<open>
  The loop over the arguments that are left.  \<open>strcpy\<close> into the 16 bytes of \<open>ipv4\<close> overflows
  when the text and its zero do not fit; the guard measures the option, not its argument.
\<close>

fun argv_loop :: "string list \<Rightarrow> argv_t \<Rightarrow> (rc \<times> argv_t) res" where
  "argv_loop [] a = Ok (None, a)"
| "argv_loop (x # xs) a =
     (if x = ''-h'' then argv_loop xs (a\<lparr>is_help := True\<rparr>)
      else if x = ''-l'' \<and> xs \<noteq> [] \<and> length x \<le> IPV4_MAX_LENGTH then
        (if length (hd xs) + 1 \<le> IPV4_MAX_LENGTH
         then argv_loop (tl xs) (a\<lparr>ipv4 := hd xs\<rparr>) else Fault BufOverflow)
      else if x = ''-p'' \<and> xs \<noteq> [] then
        argv_loop (tl xs) (a\<lparr>port := word_of_int (atoll (hd xs))\<rparr>)
      else if x = ''-d'' \<and> xs \<noteq> [] then
        argv_loop (tl xs) (a\<lparr>udp_timeout := word_of_int (atoll (hd xs))\<rparr>)
      else if x = ''-r'' \<and> xs \<noteq> [] then
        argv_loop (tl xs) (a\<lparr>udp_retransmissions := word_of_int (atoll (hd xs))\<rparr>)
      else Ok (Some error_argv_malformed_argv, a))"

text \<open>The arguments without the program name.\<close>

definition parse_argv :: "string list \<Rightarrow> (rc \<times> argv_t) res" where
  "parse_argv argv_in = argv_loop argv_in default_argv"

section \<open>Printing and parsing\<close>

text \<open>The command line that asks for given settings, numbers in decimal.\<close>

definition digit :: "nat \<Rightarrow> char" where
  "digit d = char_of (48 + d)"

fun dec :: "nat \<Rightarrow> string" where
  "dec n = (if n < 10 then [digit n] else dec (n div 10) @ [digit (n mod 10)])"

declare dec.simps [simp del]

definition print_argv :: "argv_t \<Rightarrow> string list" where
  "print_argv a = [''-l'', ipv4 a, ''-p'', dec (unat (port a)), ''-d'', dec (unat (udp_timeout a)),
     ''-r'', dec (unat (udp_retransmissions a))]"

lemma of_char_digit: "d < 10 \<Longrightarrow> of_char (digit d) = 48 + int d" "d < 10 \<Longrightarrow> is_digit (digit d)"
proof -
  assume d: "d < 10"
  have n: "(of_char (digit d) :: nat) = 48 + d" using d by (simp add: digit_def)
  then show "of_char (digit d) = 48 + int d"
    using of_nat_of_char [of "digit d", where ?'a = int] by simp
  show "is_digit (digit d)" using n d by simp
qed

lemma digits_val_append:
  "list_all is_digit xs \<Longrightarrow> digits_val acc (xs @ ys) = digits_val (digits_val acc xs) ys"
  by (induction xs arbitrary: acc) auto

lemma dec_digits: "list_all is_digit (dec n) \<and> dec n \<noteq> []"
proof (induction n rule: dec.induct)
  case (1 n)
  then show ?case using of_char_digit(2) [of n] of_char_digit(2) [of "n mod 10"]
    by (cases "n < 10") (simp_all add: dec.simps [of n] del: is_digit.simps)
qed

lemma digits_val_dec: "digits_val 0 (dec n) = int n"
proof (induction n rule: dec.induct)
  case (1 n)
  show ?case
  proof (cases "n < 10")
    case True
    then show ?thesis using of_char_digit [of n] by (simp add: dec.simps [of n] del: is_digit.simps)
  next
    case False
    then have "digits_val 0 (dec n) = 10 * int (n div 10) + int (n mod 10)"
      using 1 dec_digits of_char_digit [of "n mod 10"]
      by (simp add: dec.simps [of n] digits_val_append del: is_digit.simps)
    then show ?thesis by (simp add: zdiv_int zmod_int)
  qed
qed

lemma atoll_dec: "n < 2 ^ 63 \<Longrightarrow> atoll (dec n) = int n"
proof -
  assume n: "n < 2 ^ 63"
  obtain c t where ct: "dec n = c # t" using dec_digits by (cases "dec n") auto
  then have "is_digit c" using dec_digits [of n] by simp
  then have "skip_space (c # t) = c # t" "c \<noteq> CHR ''-''" "c \<noteq> CHR ''+''" by (auto simp: Let_def)
  moreover have "int n < 2 ^ 63" using n by simp
  ultimately show ?thesis using ct digits_val_dec [of n] by (simp add: atoll_def clamp64_def)
qed

text \<open>
  C30. Settings survive printing and parsing: the command line that asks for an address of at most
  15 characters, a port, a timeout and a number of retransmissions yields exactly these.
\<close>

theorem parse_argv_roundtrip:
  assumes "length (ipv4 a) < 16" and "\<not> is_help a"
  shows "parse_argv (print_argv a) = Ok (None, a)"
proof -
  have b: "unat (port a) < 2 ^ 63" "unat (udp_timeout a) < 2 ^ 63" "unat (udp_retransmissions a) < 2 ^ 63"
    using unsigned_less [of "port a", where ?'a = nat] unsigned_less [of "udp_timeout a", where ?'a = nat]
      unsigned_less [of "udp_retransmissions a", where ?'a = nat] by simp_all
  show ?thesis
    using assms by (simp add: parse_argv_def print_argv_def atoll_dec [OF b(1)] atoll_dec [OF b(2)]
        atoll_dec [OF b(3)] default_argv_def IPV4_MAX_LENGTH_def)
qed

theorem parse_argv_roundtrip_witness:
  "parse_argv (print_argv default_argv) = Ok (None, default_argv)"
  by (rule parse_argv_roundtrip) (simp_all add: default_argv_def)

text \<open>
  The length check for the address looks at the option itself, so an address of 16 or more
  characters overflows the field.
\<close>

lemma parse_argv_address_overflow:
  assumes "16 \<le> length x"
  shows "parse_argv (''-l'' # x # xs) = Fault BufOverflow"
  using assms by (simp add: parse_argv_def IPV4_MAX_LENGTH_def)

end
