(* ===== verification/Main_Loop.thy ===== *)
theory Main_Loop
  imports Chat Argv
begin

text \<open>
  The main loop of main.c: start-up, one round of polling, the timeouts of unconfirmed messages,
  the interrupt handler and the shutdown; and the steps of the whole program.
\<close>

section \<open>Timeouts\<close>

text \<open>
  The loop of \<open>udp_timeout\<close> over the buffered messages.  \<open>clnt_dstr\<close> is an array of as many
  pointers as there are clients, a list of the entries in use here.
\<close>

fun in_dstr :: "int \<Rightarrow> ptr list \<Rightarrow> server \<Rightarrow> bool res" where
  "in_dstr f [] s = Ok False"
| "in_dstr f (p # ps) s = (if p = None then in_dstr f ps s
     else andthen (client_at p s) (\<lambda>c.
       andthen (in_dstr f ps s) (\<lambda>r. Ok (c_sockfd c = f \<or> r))))"

text \<open>The body for one message: retransmit, or remember its client for destruction.\<close>

definition timeout_item :: "int \<Rightarrow> nat \<Rightarrow> ptr \<Rightarrow> ptr list \<Rightarrow> server \<Rightarrow> (ptr list \<times> server) res" where
  "timeout_item interval cap item clnt_dstr s =
     andthen (upd_msg item (\<lambda>m. m\<lparr>timeout := timeout m - word_of_int interval\<rparr>) s) (\<lambda>s1.
     andthen (msg_at item s1) (\<lambda>m.
       if timeout m = 0 \<and> \<not> is_confirmed m then
         (if retry_count m < udp_retransmissions (argv s1) then
            andthen (send_msg e_udp (m_sockfd m) (m_addr m) m True s1) (\<lambda>s2.
            andthen (upd_msg item (\<lambda>m. m\<lparr>retry_count := retry_count m + 1,
                timeout := udp_timeout (argv s2)\<rparr>) s2) (\<lambda>s3. Ok (clnt_dstr, s3)))
          else andthen (in_dstr (m_sockfd m) clnt_dstr s1) (\<lambda>is_in_dstr.
            if is_in_dstr then Ok (clnt_dstr, s1)
            else if length clnt_dstr < cap
                 then Ok (clnt_dstr @ [get_client_by_fd (clients s1) (m_sockfd m)], s1)
                 else Fault BufOverflow))
       else Ok (clnt_dstr, s1)))"

fun timeout_loop :: "nat \<Rightarrow> int \<Rightarrow> nat \<Rightarrow> ptr \<Rightarrow> ptr list \<Rightarrow> server \<Rightarrow> (ptr list \<times> server) res" where
  "timeout_loop 0 interval cap item clnt_dstr s = Fault OutOfFuel"
| "timeout_loop (Suc k) interval cap item clnt_dstr s = (case item of None \<Rightarrow> Ok (clnt_dstr, s)
     | Some a \<Rightarrow> andthen (timeout_item interval cap item clnt_dstr s) (\<lambda>(clnt_dstr1, s1).
         andthen (ql_next item (msg_out_buf s1)) (\<lambda>item'.
           timeout_loop k interval cap item' clnt_dstr1 s1)))"

declare timeout_loop.simps [simp del]

fun destroy_loop :: "ptr list \<Rightarrow> server \<Rightarrow> server res" where
  "destroy_loop [] s = Ok s"
| "destroy_loop (client # ps) s = andthen
     (if client = None then Ok s
      else andthen (client_at client s) (\<lambda>c.
        if c_state c \<noteq> s_en then andthen (close_client client s) (notify_leave client)
        else delete_client client s)) (destroy_loop ps)"

definition do_udp_timeout :: "int \<Rightarrow> server \<Rightarrow> server res" where
  "do_udp_timeout interval s =
     andthen (timeout_loop (Suc (length (msg_out_buf s))) interval (length (clients s))
       (ql_first (msg_out_buf s)) [] s) (\<lambda>(clnt_dstr, s1). destroy_loop clnt_dstr s1)"

section \<open>Interrupt and shutdown\<close>

fun sigint_loop :: "nat \<Rightarrow> ptr \<Rightarrow> server \<Rightarrow> server res" where
  "sigint_loop 0 item s = Fault OutOfFuel"
| "sigint_loop (Suc k) item s = (case item of None \<Rightarrow> Ok s
     | Some a \<Rightarrow> andthen (ql_next item (clients s)) (\<lambda>item'.
         andthen (client_at item s) (\<lambda>c.
           andthen (if c_state c \<noteq> s_en then close_client item s else Ok s) (\<lambda>s1.
             sigint_loop k item' s1))))"

declare sigint_loop.simps [simp del]

definition sigint_handler :: "server \<Rightarrow> server res" where
  "sigint_handler s =
     (let s1 = s\<lparr>stop_flag := True\<rparr>
      in sigint_loop (Suc (length (clients s))) (ql_first (clients s)) s1)"

fun close_fds :: "nat list \<Rightarrow> server \<Rightarrow> server res" where
  "close_fds [] s = Ok s"
| "close_fds (i # is) s = andthen (pl_at (poll s) i) (\<lambda>e.
     close_fds is (if fd e \<noteq> 0 then os_close (fd e) s else s))"

definition stop :: "int \<Rightarrow> server \<Rightarrow> server res" where
  "stop exit_code s =
     (let s1 = server_close (s\<lparr>clients := [], msg_out_buf := []\<rparr>)
      in andthen (close_fds [WELCOME_SOCK_COUNT..<pl_cnt (poll s1) + WELCOME_SOCK_COUNT] s1) (\<lambda>s2.
        Ok (s2\<lparr>poll := (poll s2)\<lparr>pl_list := [], pl_protocol := []\<rparr>, exited := Some exit_code\<rparr>)))"

section \<open>Start-up\<close>

text \<open>The globals before \<open>main\<close> runs.\<close>

definition init_server :: "os_t \<Rightarrow> argv_t \<Rightarrow> server" where
  "init_server sys a = \<lparr>clients = [], msg_out_buf = [],
     poll = \<lparr>pl_size = 0, pl_cnt = 0, pl_list = [], pl_protocol = []\<rparr>,
     client_cnt = 0, msg_cnt = 0, stop_flag = False, stop_timeout = STOP_TIMEOUT, argv = a,
     errno = 0, sockfd_tcp_welcome = 0, sockfd_udp_welcome = 0, next_addr = 1, exited = None,
     os = sys\<rparr>"

text \<open>\<open>queue_create\<close>: true when it returns NULL.\<close>

definition make_queue :: "server \<Rightarrow> bool \<times> server" where
  "make_queue s = (case os_alloc s of (failed, s1) \<Rightarrow>
     (failed, if failed then set_errno error_memo_mem_alloc_fail s1 else s1))"

definition welcome_fd :: "int \<Rightarrow> pollfd" where
  "welcome_fd f = zero_pollfd\<lparr>fd := f, events_in := True\<rparr>"

text \<open>
  \<open>main\<close> up to its loop.  The array of the poll list is cleared before it is compared with NULL,
  so a failed allocation is a fault; the array of the protocols is not compared at all.
\<close>

definition main_init :: "string list \<Rightarrow> os_t \<Rightarrow> server res" where
  "main_init args sys =
     andthen (parse_argv args) (\<lambda>(rc, a).
     let s0 = (case rc of None \<Rightarrow> init_server sys a | Some e \<Rightarrow> set_errno e (init_server sys a))
     in if is_help a then Ok (s0\<lparr>exited := Some 0\<rparr>)
     else let (f1, s1) = os_alloc s0; (f2, s2) = os_alloc s1 in
     if f1 then Fault NullDeref
     else let s3 = s2\<lparr>poll := \<lparr>pl_size = POLL_REALLOC_DELTA, pl_cnt = 0,
             pl_list = replicate POLL_REALLOC_DELTA zero_pollfd,
             pl_protocol = (if f2 then [] else replicate POLL_REALLOC_DELTA None)\<rparr>\<rparr>;
           (f3, s4) = make_queue s3 in
     if f3 then stop (errno s4) s4
     else let (f4, s5) = make_queue s4 in
     if f4 then stop (errno s5) s5
     else let (rc, s6) = server_open s5 in
     if rc \<noteq> None then stop (errno s6) s6
     else if f2 then Fault NullDeref
     else Ok (s6\<lparr>poll := (poll s6)\<lparr>
         pl_list := (pl_list (poll s6))[0 := welcome_fd (get_tcp_socket s6),
           1 := welcome_fd (get_udp_socket s6)],
         pl_protocol := (pl_protocol (poll s6))[0 := Some e_tcp, 1 := Some e_udp]\<rparr>\<rparr>))"

section \<open>One round of the loop\<close>

text \<open>
  What a call of \<open>poll\<close> ends with: some descriptors are readable (the answer for each slot), the
  interval passed, or SIGINT interrupted it.  The handler runs and \<open>poll\<close> returns \<open>-1\<close>.
\<close>

datatype poll_event = Ready "bool list" | Idle | Interrupted

definition set_revents :: "bool list \<Rightarrow> pollfd_list_t \<Rightarrow> pollfd_list_t" where
  "set_revents rs p = p\<lparr>pl_list := map (\<lambda>i.
     if i < WELCOME_SOCK_COUNT + pl_cnt p
     then (pl_list p ! i)\<lparr>revents_in := i < length rs \<and> rs ! i\<rparr> else pl_list p ! i)
     [0..<length (pl_list p)]\<rparr>"

fun poll_loop :: "nat \<Rightarrow> nat \<Rightarrow> server \<Rightarrow> server res" where
  "poll_loop 0 i s = Fault OutOfFuel"
| "poll_loop (Suc k) i s =
     (if i < WELCOME_SOCK_COUNT + pl_cnt (poll s) then
        andthen (pl_at (poll s) i) (\<lambda>e.
          andthen (if fd e \<noteq> 0 \<and> revents_in e then process_msg_sock (fd e) s else Ok s)
            (\<lambda>s1. poll_loop k (Suc i) s1))
      else Ok s)"

declare poll_loop.simps [simp del]

definition poll_timeout :: "server \<Rightarrow> int" where
  "poll_timeout s =
     (let t = get_next_timeout (msg_out_buf s);
          t1 = (if t > POLL_INTERVAL then POLL_INTERVAL else t)
      in if t1 = 0 then POLL_INTERVAL else t1)"

definition poll_ready :: "server \<Rightarrow> server res" where
  "poll_ready s =
     andthen (pl_at (poll s) 0) (\<lambda>e0.
     andthen (if revents_in e0 then tcp_polling s else Ok s) (\<lambda>s1.
     andthen (pl_at (poll s1) 1) (\<lambda>e1.
     andthen (if revents_in e1 then udp_polling s1 else Ok s1) (\<lambda>s2.
       poll_loop (Suc (pl_cnt (poll s2))) WELCOME_SOCK_COUNT s2))))"

definition poll_idle :: "int \<Rightarrow> server \<Rightarrow> server res" where
  "poll_idle next_timeout s =
     (if stop_flag s \<and> msg_out_buf s = [] then
        (if stop_timeout s \<le> 0 then stop 0 s
         else do_udp_timeout next_timeout (s\<lparr>stop_timeout := stop_timeout s - next_timeout\<rparr>))
      else do_udp_timeout next_timeout (s\<lparr>stop_timeout := STOP_TIMEOUT\<rparr>))"

text \<open>
  The handler is installed once, by \<open>signal\<close>.  The Makefile compiles with \<open>--std=c11\<close>, and without
  the feature macros of glibc this is the \<open>signal\<close> of System V, whose handler is used for one signal
  only: when the flag shows that the handler has run, the next SIGINT has its default action and the
  process is terminated (its status is shown as \<open>128 + SIGINT\<close>).
\<close>

definition SIGINT_STATUS :: int where
  "SIGINT_STATUS = 130"

definition main_iter :: "poll_event \<Rightarrow> server \<Rightarrow> server res" where
  "main_iter ev s =
     (let next_timeout = poll_timeout s in
      case ev of
        Ready rs \<Rightarrow> poll_ready (s\<lparr>poll := set_revents rs (poll s)\<rparr>)
      | Idle \<Rightarrow> poll_idle next_timeout (s\<lparr>poll := set_revents [] (poll s)\<rparr>)
      | Interrupted \<Rightarrow> if stop_flag s then Ok (s\<lparr>exited := Some SIGINT_STATUS\<rparr>)
          else andthen (sigint_handler s) (poll_idle next_timeout))"

section \<open>Runs\<close>

text \<open>
  Between two rounds the environment may do anything that the program cannot see: messages and
  connections arrive and the outcome of coming system calls is fixed.  What was sent, closed and
  logged stays.
\<close>

definition env_change :: "os_t \<Rightarrow> os_t \<Rightarrow> bool" where
  "env_change o1 o2 \<longleftrightarrow> wire o2 = wire o1 \<and> closed o2 = closed o1 \<and> out_log o2 = out_log o1"

inductive main_step :: "server \<Rightarrow> server \<Rightarrow> bool" where
  env: "exited s = None \<Longrightarrow> env_change (os s) sys \<Longrightarrow> main_step s (s\<lparr>os := sys\<rparr>)"
| round: "exited s = None \<Longrightarrow> main_iter ev s = Ok s' \<Longrightarrow> main_step s s'"

inductive_cases main_stepE: "main_step s s'"

inductive reachable :: "string list \<Rightarrow> server \<Rightarrow> bool" for args where
  start: "main_init args sys = Ok s \<Longrightarrow> reachable args s"
| step: "reachable args s \<Longrightarrow> main_step s s' \<Longrightarrow> reachable args s'"

end
