(* ===== verification/Poll_Inv.thy ===== *)
theory Poll_Inv
  imports Main_Loop
begin

text \<open>
  The bounds of the list of polled descriptors.  A deletion leaves stale entries behind the
  polled range, so the list need not be compact; what is kept is that the counter and the free
  slots together fit into the array.  This is enough for every access to be in range.
\<close>

definition free_slots :: "pollfd_list_t \<Rightarrow> nat" where
  "free_slots p = length (filter (\<lambda>e. fd e = 0) (drop 2 (pl_list p)))"

definition poll_ok :: "pollfd_list_t \<Rightarrow> bool" where
  "poll_ok p \<longleftrightarrow> length (pl_list p) = pl_size p \<and> length (pl_protocol p) = pl_size p \<and>
     2 + pl_cnt p + free_slots p \<le> pl_size p \<and> fd (pl_list p ! 1) \<noteq> 0"

lemma filter_update_le:
  "length (filter P (xs[i := y])) \<le> length (filter P xs) + (if P y then 1 else 0)"
proof (induction xs arbitrary: i)
  case (Cons x xs)
  then show ?case by (cases i) (auto split: nat.splits intro: le_trans le_SucI)
qed simp

lemma filter_update_less:
  "i < length xs \<Longrightarrow> P (xs ! i) \<Longrightarrow> \<not> P y \<Longrightarrow>
     length (filter P (xs[i := y])) + 1 = length (filter P xs)"
proof (induction xs arbitrary: i)
  case (Cons x xs)
  then show ?case by (cases i) auto
qed simp

lemma free_slots_update:
  "2 \<le> i \<Longrightarrow> free_slots (p\<lparr>pl_list := (pl_list p)[i := e]\<rparr>) \<le>
     free_slots p + (if fd e = 0 then 1 else 0)"
  using filter_update_le [of "\<lambda>e. fd e = 0" "drop 2 (pl_list p)" "i - 2" e]
  by (simp add: free_slots_def drop_update_swap)

lemma mark_loop_ok:
  assumes "poll_ok p" and "2 \<le> i"
  shows "\<exists>b' p'. mark_loop f i b p = Ok (b', p') \<and> poll_ok p' \<and> pl_cnt p' = pl_cnt p"
  using assms
proof (induction "2 + pl_cnt p - i" arbitrary: i b p)
  case 0
  then show ?case by (subst mark_loop.simps) (simp add: WELCOME_SOCK_COUNT_def)
next
  case (Suc n)
  let ?q = "pl_set_fd i (-1) p"
  have q: "poll_ok ?q" "pl_cnt ?q = pl_cnt p"
    using Suc.prems free_slots_update [of i p "(pl_list p ! i)\<lparr>fd := - 1\<rparr>"]
    by (auto simp: poll_ok_def pl_set_fd_def nth_list_update)
  have n: "n = 2 + pl_cnt p - Suc i" "2 \<le> Suc i" using Suc by auto
  have "i < length (pl_list p)" "i < 2 + pl_cnt p" using Suc by (auto simp: poll_ok_def)
  moreover from Suc.hyps(1) [of ?q "Suc i" True] n q
  have "\<exists>b' p'. mark_loop f (Suc i) True ?q = Ok (b', p') \<and> poll_ok p' \<and> pl_cnt p' = pl_cnt p"
    by simp
  moreover from Suc.hyps(1) [OF n(1) Suc.prems(1) n(2)]
  have "\<exists>b' p'. mark_loop f (Suc i) b p = Ok (b', p') \<and> poll_ok p' \<and> pl_cnt p' = pl_cnt p" .
  ultimately show ?case
    by (subst mark_loop.simps) (simp add: pl_at_def WELCOME_SOCK_COUNT_def)
qed

lemma gap_fill_ok:
  assumes p: "poll_ok p" and j: "2 \<le> j" "j < 2 + pl_cnt p" and f: "fd (pl_list p ! j) = -1"
  shows "poll_ok (p\<lparr>pl_cnt := pl_cnt p - 1\<rparr>)"
    and "poll_ok ((pl_set_fd j g (p\<lparr>pl_cnt := pl_cnt p - 1\<rparr>))\<lparr>pl_protocol := (pl_protocol p)[j := x]\<rparr>)"
proof -
  have "free_slots (p\<lparr>pl_list := (pl_list p)[j := (pl_list p ! j)\<lparr>fd := g\<rparr>]\<rparr>) \<le> free_slots p + 1"
    using free_slots_update [OF j(1), of p "(pl_list p ! j)\<lparr>fd := g\<rparr>"] by (auto split: if_splits)
  then show "poll_ok (p\<lparr>pl_cnt := pl_cnt p - 1\<rparr>)"
    and "poll_ok ((pl_set_fd j g (p\<lparr>pl_cnt := pl_cnt p - 1\<rparr>))\<lparr>pl_protocol := (pl_protocol p)[j := x]\<rparr>)"
    using p j by (auto simp: poll_ok_def pl_set_fd_def free_slots_def)
qed

lemma gap_loop_ok:
  assumes "poll_ok p" and "2 \<le> j"
  shows "\<exists>p'. gap_loop off j p = Ok p' \<and> poll_ok p' \<and> pl_cnt p' \<le> pl_cnt p"
  using assms
proof (induction "2 + pl_cnt p - j" arbitrary: off j p rule: less_induct)
  case less
  let ?c = "p\<lparr>pl_cnt := pl_cnt p - 1\<rparr>"
  let ?f = "(pl_set_fd j (fd (pl_list p ! (j + off))) ?c)
    \<lparr>pl_protocol := (pl_protocol p)[j := pl_protocol p ! (j + off)]\<rparr>"
  show ?case
  proof (cases "j < 2 + pl_cnt p")
    case True
    then have j: "j < length (pl_list p)" and step: "gap_loop off j p =
        (if fd (pl_list p ! j) = -1 then
           if j + off < pl_size p then gap_loop (off + 1) (Suc j) ?f else gap_loop off (Suc j) ?c
         else gap_loop off (Suc j) p)"
      using less.prems
      by (auto simp: poll_ok_def gap_loop.simps [of off j p] pl_at_def prot_defs WELCOME_SOCK_COUNT_def Let_def)
    have cnt: "pl_cnt ?f = pl_cnt p - 1" by (simp add: pl_set_fd_def)
    show ?thesis
    proof (cases "fd (pl_list p ! j) = -1")
      case gap: True
      note ok = gap_fill_ok [OF less.prems True gap]
      have "\<exists>p'. gap_loop (off + 1) (Suc j) ?f = Ok p' \<and> poll_ok p' \<and> pl_cnt p' \<le> pl_cnt ?f"
        using less.prems(2) True by (intro less.hyps ok(2)) (auto simp: pl_set_fd_def)
      moreover have "\<exists>p'. gap_loop off (Suc j) ?c = Ok p' \<and> poll_ok p' \<and> pl_cnt p' \<le> pl_cnt ?c"
        using less.prems(2) True by (intro less.hyps ok(1)) auto
      ultimately show ?thesis using gap unfolding step cnt by (auto intro: le_trans)
    next
      case False
      with less.hyps [of p "Suc j" off] less.prems True show ?thesis unfolding step by simp
    qed
  next
    case False
    with less.prems show ?thesis by (subst gap_loop.simps) (simp add: WELCOME_SOCK_COUNT_def)
  qed
qed

lemma del_poll_fd_ok:
  assumes "poll_ok p"
  shows "\<exists>b p'. del_poll_fd f p = Ok (b, p') \<and> poll_ok p' \<and> pl_cnt p' \<le> pl_cnt p"
proof -
  from mark_loop_ok [OF assms, of 2 f False] obtain b p1 where
    m: "mark_loop f 2 False p = Ok (b, p1)" "poll_ok p1" "pl_cnt p1 = pl_cnt p" by auto
  from gap_loop_ok [OF m(2), of 2 1] m show ?thesis
    by (auto simp: del_poll_fd_def WELCOME_SOCK_COUNT_def)
qed

lemma free_loop_ok:
  assumes "poll_ok p" and "1 \<le> i"
  shows "\<exists>r. free_loop p i = Ok r \<and> (case r of None \<Rightarrow> True
     | Some k \<Rightarrow> 2 \<le> k \<and> k < pl_size p \<and> fd (pl_list p ! k) = 0)"
  using assms(2)
proof (induction "pl_size p - i" arbitrary: i)
  case 0
  then show ?case by (subst free_loop.simps) simp
next
  case (Suc n)
  then have i: "i < pl_size p" "i < length (pl_list p)" using assms(1) by (auto simp: poll_ok_def)
  have "i \<noteq> 1" if "fd (pl_list p ! i) = 0" using that assms(1) by (auto simp: poll_ok_def)
  with i Suc.prems Suc.hyps(1) [of "Suc i"] Suc.hyps(2) show ?case
    by (subst free_loop.simps) (auto simp: pl_at_def)
qed

lemma fill_slot_ok:
  assumes "poll_ok p" and "2 \<le> k" and "k < pl_size p" and "fd (pl_list p ! k) = 0" and "f \<noteq> 0"
  shows "poll_ok (p\<lparr>pl_cnt := pl_cnt p + 1,
     pl_list := (pl_list p)[k := (pl_list p ! k)\<lparr>fd := f, events_in := True\<rparr>],
     pl_protocol := (pl_protocol p)[k := x]\<rparr>)"
proof -
  obtain m where k: "k = m + 2" using assms(2) by (metis add.commute le_Suc_ex)
  then have "m < length (pl_list p) - 2" using assms by (simp add: poll_ok_def)
  with k show ?thesis
    using assms filter_update_less [of m "drop 2 (pl_list p)" "\<lambda>e. fd e = 0"
        "(pl_list p ! k)\<lparr>fd := f, events_in := True\<rparr>"]
    by (auto simp: poll_ok_def free_slots_def drop_update_swap)
qed

lemma resize_ok:
  assumes "poll_ok p"
  shows "poll_ok (snd (resize_poll_fd True True p))"
  using assms by (auto simp: resize_poll_fd_def poll_ok_def free_slots_def nth_append zero_pollfd_def
      POLL_REALLOC_DELTA_def)

lemma add_poll_fd_ok:
  assumes p: "poll_ok p" and f: "f \<noteq> 0"
  shows "\<exists>p'. add_poll_fd True True f pr p = Ok (None, p') \<and> poll_ok p' \<and> pl_cnt p' = pl_cnt p + 1"
proof -
  from free_loop_ok [OF p, of 1] obtain r where r: "free_loop p 1 = Ok r"
    "case r of None \<Rightarrow> True | Some k \<Rightarrow> 2 \<le> k \<and> k < pl_size p \<and> fd (pl_list p ! k) = 0" by auto
  show ?thesis
  proof (cases r)
    case (Some k)
    with r fill_slot_ok [OF p _ _ _ f, of k] p show ?thesis
      by (simp add: add_poll_fd_def get_free_poll_fd_def WELCOME_SOCK_COUNT_def pl_at_def prot_defs poll_ok_def)
  next
    case None
    let ?k = "pl_size p"
    obtain q where q: "resize_poll_fd True True p = (None, q)" "pl_cnt q = pl_cnt p"
      "pl_size q = pl_size p + 128" "fd (pl_list q ! ?k) = 0"
      using p by (auto simp: resize_poll_fd_def poll_ok_def POLL_REALLOC_DELTA_def nth_append zero_pollfd_def)
    have ok: "poll_ok q" "2 \<le> ?k" "?k < pl_size q" using resize_ok [OF p] q p
      by (auto simp: poll_ok_def)
    then have "?k < length (pl_list q)" "?k < length (pl_protocol q)" by (simp_all add: poll_ok_def)
    with fill_slot_ok [OF ok q(4) f] q r None show ?thesis
      by (simp add: add_poll_fd_def get_free_poll_fd_def WELCOME_SOCK_COUNT_def pl_at_def prot_defs
          POLL_REALLOC_DELTA_def)
  qed
qed

lemma set_revents_ok: "poll_ok p \<Longrightarrow> poll_ok (set_revents rs p)"
proof -
  assume p: "poll_ok p"
  have fds: "map fd (pl_list (set_revents rs p)) = map fd (pl_list p)"
    by (auto simp: set_revents_def intro: nth_equalityI)
  have "length (filter (\<lambda>e. fd e = 0) xs) = length (filter (\<lambda>f. f = 0) (map fd xs))" for xs
    by (simp add: filter_map comp_def)
  then have "length (filter (\<lambda>e. fd e = 0) (drop 2 (pl_list (set_revents rs p)))) =
      length (filter (\<lambda>e. fd e = 0) (drop 2 (pl_list p)))"
    using fds by (metis drop_map)
  moreover have "fd (pl_list (set_revents rs p) ! 1) = fd (pl_list p ! 1)"
    using p by (auto simp: set_revents_def poll_ok_def)
  ultimately show ?thesis
    using p by (simp add: poll_ok_def free_slots_def) (simp add: set_revents_def)
qed

end
