(* ===== verification/Sizes.thy ===== *)
theory Sizes
  imports Chat
begin

text \<open>
  Which messages fit into the send buffer of 2048 bytes: all that the server makes itself
  (confirmations, notifications, errors, replies, BYE).  What a client sent fits when its display
  name is terminated.
\<close>

definition fits :: "msg_t \<Rightarrow> bool" where
  "fits m \<longleftrightarrow> is_ok (compose e_tcp m) \<and> is_ok (compose e_udp m)"

lemma is_ok_sprintf [simp]: "is_ok (sprintf_buf s) \<longleftrightarrow> length s < STRING_MAX_LENGTH"
  by (simp add: sprintf_buf_def Suc_le_eq)

lemma is_ok_andthen [simp]: "is_ok (andthen m f) \<longleftrightarrow> (\<exists>x. m = Ok x \<and> is_ok (f x))"
  by (cases m) auto

lemma sprintf_Ok_iff: "(\<exists>x. sprintf_buf s = Ok x) \<longleftrightarrow> length s < STRING_MAX_LENGTH"
  by (simp add: sprintf_buf_def Suc_le_eq)

lemma fits_iff:
  "fits m \<longleftrightarrow> (case msg_type m of e_confirm \<Rightarrow> True | e_bye \<Rightarrow> True
     | e_reply \<Rightarrow> length (data_str reply_content_off m) + (if reply_result (data m) then 0 else 1) \<le> 2033
     | e_auth \<Rightarrow> length (data_str auth_username_off m) + length (data_str auth_display_name_off m) +
         length (data_str auth_secret_off m) \<le> 2029
     | e_join \<Rightarrow> length (data_str join_channel_id_off m) + length (data_str join_display_name_off m) \<le> 2036
     | _ \<Rightarrow> length (data_str msg_display_name_off m) + length (data_str msg_content_off m) \<le> 2032)"
  by (cases "msg_type m")
     (auto simp: fits_def compose_def compose_tcp_def compose_udp_def Let_def sprintf_Ok_iff
        andthen_Ok_iff STRING_MAX_LENGTH_def ex_simps)


lemma compose_update [simp]:
  "compose pr (m\<lparr>m_sockfd := f\<rparr>) = compose pr m" "compose pr (m\<lparr>m_addr := a\<rparr>) = compose pr m"
  "compose pr (m\<lparr>timeout := t\<rparr>) = compose pr m" "compose pr (m\<lparr>retry_count := k\<rparr>) = compose pr m"
  "compose pr (m\<lparr>is_confirmed := b\<rparr>) = compose pr m"
  by (cases pr; cases "msg_type m"; simp add: compose_def compose_tcp_def compose_udp_def data_str_def Let_def)+

lemma fits_simps [simp]:
  "fits (m\<lparr>msg_id := i\<rparr>) = fits m" "fits (m\<lparr>m_sockfd := f\<rparr>) = fits m" "fits (m\<lparr>m_addr := a\<rparr>) = fits m"
  "fits (m\<lparr>timeout := t\<rparr>) = fits m" "fits (m\<lparr>retry_count := k\<rparr>) = fits m"
  "fits (m\<lparr>is_confirmed := b\<rparr>) = fits m"
  by (simp_all add: fits_iff data_str_def split: msg_type_t.split)

lemma fits_reply: "msg_type m = e_reply \<Longrightarrow> length (data m) \<le> 2036 \<Longrightarrow> fits m"
  using cstr_length_le [of 4 "data m"] by (auto simp: fits_iff data_str_def reply_content_off_def)

text \<open>A name of the server and a content that is shorter than its array.\<close>

lemma fits_server:
  assumes "msg_type m = e_msg \<or> msg_type m = e_err" and "data m = buf_write 20 t (buf_write 0 ''Server'' [])"
    and "length t \<le> 2000"
  shows "fits m"
proof -
  have "length (cstr 20 (data m)) \<le> 2000" using cstr_length_le [of 20 "data m"] assms(2,3) by simp
  moreover have "cstr 0 (data m) = ''Server''" by (simp add: assms(2) buf_write_def cstr_def eval_nat_numeral)
  ultimately show ?thesis using assms(1) by (auto simp: fits_iff data_str_def data_offsets)
qed

lemma fits_server_msgs [simp]: "fits bye_msg" "fits (confirm_msg i)"
  by (simp_all add: fits_iff bye_msg_def confirm_msg_def)

lemma fits_notification [simp]: "fits (notification t)"
  by (rule fits_server [where t = "snprintf_n MESSAGECONTENT_MAX_LENGTH t"])
     (simp_all add: notification_def snprintf_n_def data_offsets MESSAGECONTENT_MAX_LENGTH_def
        DISPLAYNAME_MAX_LENGTH_def)

lemma fits_error:
  "length e < 1400 \<Longrightarrow>
     fits (put_str msg_content_off e (put_str msg_display_name_off ''Server'' (zero_msg\<lparr>msg_type := e_err\<rparr>)))"
  by (rule fits_server [where t = e]) (simp_all add: data_offsets)

text \<open>\<open>may_send F m\<close>: composing \<open>m\<close> meets no fault outside of \<open>F\<close>.\<close>

definition may_send :: "fault set \<Rightarrow> msg_t \<Rightarrow> bool" where
  "may_send F m \<longleftrightarrow> BufOverflow \<in> F \<or> fits m"

abbreviation only_overflow :: "fault set" where
  "only_overflow \<equiv> {BufOverflow}"

lemma may_send_simps [simp]:
  "may_send only_overflow m" "fits m \<Longrightarrow> may_send F m"
  by (simp_all add: may_send_def)

lemma compose_overflow: "compose pr m = Fault e \<Longrightarrow> e = BufOverflow"
  by (auto simp: compose_def compose_tcp_def compose_udp_def sprintf_buf_def Let_def
      andthen_Fault_iff split: if_splits msg_type_t.splits)

lemma ends_compose:
  assumes "may_send F m" and "\<And>x. compose pr m = Ok x \<Longrightarrow> Q x"
  shows "ends F (compose pr m) Q"
  using assms compose_overflow [of pr m]
  by (cases "compose pr m"; cases pr) (auto simp: may_send_def fits_def)

end
