(* ===== verification/State_Rel.thy ===== *)
theory State_Rel
  imports Main_Loop "HOL-Library.Sublist"
begin

text \<open>
  Properties of the state that the functions of main.c keep, whatever the operating system answers.

  \<^item> \<open>sender_inv\<close>: a property that sending, closing and deleting keep.  It is asked to survive what
    these do to the state: clients disappear or move to the end state, messages are buffered
    and taken, the operating system is used.  Messages go only over the protocols in \<open>PR\<close>.
  \<^item> \<open>handler_inv\<close>: moreover new clients and \<open>process_msg\<close> keep it; then so does a round for
    readable descriptors.
  \<^item> \<open>main_inv\<close>, \<open>run_inv\<close>: moreover the main loop keeps it, and what happens between rounds does.
  \<^item> \<open>update_inv\<close>: a way to be a \<open>handler_inv\<close>: every update of a client that leaves its socket
    alone keeps the property.
  \<^item> \<open>state_inv\<close>, \<open>loop_inv\<close>: a way to be an \<open>update_inv\<close> and a \<open>run_inv\<close>: a property that does not look
    at clients and messages at all.

  The interpretations follow: settings never change, and what was sent, closed or logged is never
  taken back.
\<close>

section \<open>What a call does to the operating system\<close>

definition os_grows :: "os_t \<Rightarrow> os_t \<Rightarrow> bool" where
  "os_grows o1 o2 \<longleftrightarrow> (\<exists>w c l. wire o2 = wire o1 @ w \<and> closed o2 = closed o1 @ c \<and>
     out_log o2 = out_log o1 @ l)"

definition os_used :: "os_t \<Rightarrow> os_t \<Rightarrow> bool" where
  "os_used o1 o2 \<longleftrightarrow> os_grows o1 o2 \<and> (\<forall>f. suffix (inbox o2 f) (inbox o1 f))"

lemma os_grows_refl [simp]: "os_grows o1 o1"
  by (simp add: os_grows_def)

lemma os_grows_trans: "os_grows o1 o2 \<Longrightarrow> os_grows o2 o3 \<Longrightarrow> os_grows o1 o3"
  by (auto simp: os_grows_def)

lemma os_used_inputs [simp]:
  "os_used o1 (o1\<lparr>send_fail := a\<rparr>)" "os_used o1 (o1\<lparr>alloc_fail := a\<rparr>)"
  "os_used o1 (o1\<lparr>call_fail := a\<rparr>)" "os_used o1 (o1\<lparr>new_socks := b\<rparr>)"
  "os_used o1 (o1\<lparr>new_conns := c\<rparr>)"
  "inbox o1 f = x # r \<Longrightarrow> os_used o1 (o1\<lparr>inbox := (inbox o1)(f := r)\<rparr>)"
  "os_used o1 (o1\<lparr>closed := closed o1 @ e\<rparr>)" "os_used o1 (o1\<lparr>out_log := out_log o1 @ l\<rparr>)"
  "os_used o1 (o1\<lparr>send_fail := a, wire := wire o1 @ w\<rparr>)"
  by (auto simp: os_used_def os_grows_def suffix_ConsI)

section \<open>Lists\<close>

lemma set_ql_add [simp]: "ql_add n q = q @ [n]"
  by (simp add: ql_add_def)

lemma subseq_ql_remove [simp]: "subseq (snd (ql_remove i q)) q"
  by (induction q) (auto simp: case_prod_beta)

lemma purge_loop_subseq: "purge_loop k f item q = Ok b \<Longrightarrow> subseq b q"
proof (induction k arbitrary: item q)
  case (Suc k)
  have "subseq b q" if "purge_loop k f x (snd (ql_remove i q)) = Ok b" for x i
    using Suc.IH [OF that] subseq_ql_remove by (rule subseq_order.trans)
  with Suc show ?case
    by (auto simp: purge_loop.simps andthen_Ok_iff split: option.splits if_splits)
qed (simp add: purge_loop.simps)

text \<open>A retransmission does not touch the buffer.\<close>

lemma send_try_buf:
  assumes "send_try pr f a m r s = Ok (b, i, m1, t)"
  shows "msg_out_buf t = msg_out_buf s" and "argv t = argv s"
proof -
  have "msg_out_buf (snd (server_send pr f a bs n u)) = msg_out_buf u"
    "argv (snd (server_send pr f a bs n u)) = argv u" for bs n u
    by (simp_all add: server_send_def Let_def split: prod.split)
  then show "msg_out_buf t = msg_out_buf s" "argv t = argv s"
    using assms unfolding send_try_def Let_def
    by (auto simp: andthen_Ok_iff case_prod_beta set_errno_def split: option.splits)
qed

lemma resend_same:
  assumes "send_msg e_udp f a m True s = Ok t"
  shows "msg_out_buf t = msg_out_buf s" and "argv t = argv s"
proof -
  from assms obtain b i m1 u where u: "send_try e_udp f a m True s = Ok (b, i, m1, u)"
    "send_done e_udp f a i m1 True u = Ok t"
    unfolding send_msg.simps [of e_udp f a m True s] by (auto simp: andthen_Ok_iff)
  then show "msg_out_buf t = msg_out_buf s" "argv t = argv s"
    using send_try_buf [OF u(1)] by (auto simp: send_done_def os_log_def)
qed

section \<open>Handling the messages of a client\<close>

lemma reads_wp:
  "(\<And>c. client_at p s = Ok c \<Longrightarrow> Q c) \<Longrightarrow> ends UNIV (client_at p s) Q"
  "(\<And>m. msg_at p s = Ok m \<Longrightarrow> Q' m) \<Longrightarrow> ends UNIV (msg_at p s) Q'"
  "(\<And>x. Q'' x) \<Longrightarrow> ends UNIV (ql_next p q) Q''"
  by (auto simp: ends_UNIV)

lemma any_wp: "(\<And>x. Q x) \<Longrightarrow> ends UNIV r Q"
  by (simp add: ends_UNIV)

lemma upd_client_at:
  assumes "upd_client p f s = Ok t" and "client_at p s = Ok c"
  shows "client_at p t = Ok (f c)"
proof -
  obtain n where "ql_find (n_ptr n) (clients s) = Some n" "p = Some (n_ptr n)" "c = n_data n"
    using assms(2) ql_find_SomeD by (fastforce simp: client_at_def andthen_Ok_iff ql_at_Ok_iff)
  with assms(1) show ?thesis
    by (auto simp: upd_client_def ql_upd_def client_at_def ql_at_def ql_find_map)
qed

text \<open>
  What is sent to a client is sent on its own descriptor.  A property that this and closing keep
  is kept by forwarding.
\<close>

locale own_inv =
  fixes I :: "server \<Rightarrow> bool"
  assumes own_send: "I s \<Longrightarrow> client_at p s = Ok c \<Longrightarrow>
      ends UNIV (send_msg (c_protocol c) (c_sockfd c) (c_addr c) m False s) I"
    and own_close: "I s \<Longrightarrow> ends UNIV (close_client p s) I"
    and own_delete: "I s \<Longrightarrow> ends UNIV (delete_client p s) I"
begin

lemma own_error: "I s \<Longrightarrow> client_at p s = Ok c \<Longrightarrow>
    ends UNIV (send_error (c_protocol c) (c_sockfd c) (c_addr c) e s) I"
  unfolding send_error_def by (rule own_send)

lemma own_udp: "I s \<Longrightarrow> client_at p s = Ok c \<Longrightarrow> c_protocol c = e_udp \<Longrightarrow>
    ends UNIV (send_msg e_udp (c_sockfd c) (c_addr c) m False s) I"
  using own_send by metis

lemma own_forward_loop: "I s \<Longrightarrow> ends UNIV (forward_loop k cl m item s) I"
proof (induction k arbitrary: item s)
  case (Suc k)
  then show ?case
    by (auto simp: forward_loop.simps intro!: reads_wp ends_wp [OF own_send] split: option.split)
qed (simp add: forward_loop.simps)

lemma own_notify:
  "I s \<Longrightarrow> ends UNIV (forward_msg_channel cl m s) I"
  "I s \<Longrightarrow> ends UNIV (notify_join cl s) I" "I s \<Longrightarrow> ends UNIV (notify_leave cl s) I"
  by (auto simp: forward_msg_channel_def notify_join_def notify_leave_def
      intro!: reads_wp own_forward_loop)

lemmas notify_wp = ends_wp [OF own_notify(1)] ends_wp [OF own_notify(2)] ends_wp [OF own_notify(3)]

lemmas own_wp = reads_wp ends_wp [OF own_send] ends_wp [OF own_close] ends_wp [OF own_error] notify_wp

lemma destroy_loop_I: "I s \<Longrightarrow> ends UNIV (destroy_loop ps s) I"
  by (induction ps arbitrary: s) (auto intro!: own_wp ends_wp [OF own_delete])

lemma sigint_loop_I: "I s \<Longrightarrow> ends UNIV (sigint_loop k item s) I"
proof (induction k arbitrary: item s)
  case (Suc k)
  then show ?case
    by (auto simp: sigint_loop.simps intro!: own_wp split: option.split)
qed (simp add: sigint_loop.simps)

end

definition keeps_socket :: "(client_t \<Rightarrow> client_t) \<Rightarrow> bool" where
  "keeps_socket f \<longleftrightarrow> (\<forall>c. c_sockfd (f c) = c_sockfd c \<and> c_protocol (f c) = c_protocol c)"

lemma client_updates [simp]:
  "c_sockfd (to_end c) = c_sockfd c \<and> c_protocol (to_end c) = c_protocol c"
  "c_sockfd (set_state st c) = c_sockfd c \<and> c_protocol (set_state st c) = c_protocol c"
  "c_sockfd (confirm_record i c) = c_sockfd c \<and> c_protocol (confirm_record i c) = c_protocol c"
  "c_sockfd (set_username b c) = c_sockfd c \<and> c_protocol (set_username b c) = c_protocol c"
  "c_sockfd (set_display_name b c) = c_sockfd c \<and> c_protocol (set_display_name b c) = c_protocol c"
  "c_sockfd (set_channel_id b c) = c_sockfd c \<and> c_protocol (set_channel_id b c) = c_protocol c"
  by (simp_all add: to_end_def set_state_def confirm_record_def set_username_def
      set_display_name_def set_channel_id_def)

locale client_inv = own_inv +
  assumes own_update: "I s \<Longrightarrow> keeps_socket f \<Longrightarrow> ends UNIV (upd_client p f s) I"
    and own_confirm: "I s \<Longrightarrow> ends UNIV (exec_confirm p m s) I"
begin

lemmas basic_wp = own_wp ends_wp [OF own_update] ends_wp [OF own_confirm]

lemma check_state_I: "I s \<Longrightarrow> ends UNIV (check_state_transition cl m s) (\<lambda>(b, t). I t)"
  by (auto simp: check_state_transition_def intro!: basic_wp)

lemma exec_auth_I: "I s \<Longrightarrow> ends UNIV (exec_auth cl m out s) (\<lambda>(o1, t). I t)"
  by (auto simp: exec_auth_def Let_def keeps_socket_def intro!: basic_wp)

lemma exec_join_I: "I s \<Longrightarrow> ends UNIV (exec_join cl m out s) (\<lambda>(o1, t). I t)"
  by (auto simp: exec_join_def Let_def keeps_socket_def intro!: basic_wp)

lemma exec_msg_I: "I s \<Longrightarrow> ends UNIV (exec_msg cl m s) (\<lambda>(o1, t). I t)"
  by (auto simp: exec_msg_def Let_def keeps_socket_def intro!: basic_wp)

lemma exec_bye_I: "I s \<Longrightarrow> ends UNIV (exec_bye cl s) I"
  by (auto simp: exec_bye_def keeps_socket_def intro!: basic_wp split: option.split)

lemma execute_msg_I: "I s \<Longrightarrow> ends UNIV (execute_msg cl m out s) (\<lambda>(b, o1, t). I t)"
  by (cases "msg_type m")
     (auto simp: execute_msg_def keeps_socket_def intro!: basic_wp
        ends_wp [OF exec_auth_I] ends_wp [OF exec_join_I] ends_wp [OF exec_msg_I] ends_wp [OF exec_bye_I])

lemma process_msg_I: "I s \<Longrightarrow> ends UNIV (process_msg cl m s) I"
proof -
  assume "I s"
  have ack: "ends UNIV (acknowledge cl m s) (\<lambda>(b, t). I t)"
    using \<open>I s\<close> by (auto simp: acknowledge_def keeps_socket_def intro!: basic_wp ends_wp [OF own_udp])
  have exe: "ends UNIV (check_execute cl m t) I" if "I t" for t
    using that by (auto simp: check_execute_def keeps_socket_def
        intro!: ends_wp [OF check_state_I] ends_wp [OF execute_msg_I] basic_wp)
  show ?thesis
    by (auto simp: process_msg_def keeps_socket_def intro!: ends_wp [OF ack] ends_wp [OF exe] basic_wp)
qed

end

section \<open>Handling the socket of a client\<close>

definition received_msg :: "msg_t \<Rightarrow> bool" where
  "received_msg m \<longleftrightarrow> (\<exists>pr b n. parse pr b n zero_msg = Ok (None, m))"

locale socket_inv = own_inv +
  assumes socket_process: "I s \<Longrightarrow> received_msg m \<Longrightarrow> ends UNIV (process_msg cl m s) I"
    and socket_addr: "I s \<Longrightarrow> ends UNIV (upd_client p (\<lambda>c. c\<lparr>c_addr := x\<rparr>) s) I"
    and socket_read: "I s \<Longrightarrow> I (snd (snd (snd (server_read_sock pr f a s))))"
    and socket_system: "I s \<Longrightarrow> I (set_errno e s)" "I s \<Longrightarrow> I (os_close f s)" "I s \<Longrightarrow> I (os_log l s)"
    and socket_unpoll: "I s \<Longrightarrow> del_poll_fd f (poll s) = Ok (b, pl) \<Longrightarrow> I (s\<lparr>poll := pl\<rparr>)"
begin

text \<open>An error is answered to the address that was just stored.\<close>

lemma read_own:
  assumes "I s" and c: "client_at p s = Ok c"
  shows "ends UNIV (read_msg (c_protocol c) (c_sockfd c) (c_addr c) (ClientAddr p) zero_msg s)
     (\<lambda>(n, a, m, t). I t \<and> (n \<noteq> None \<longrightarrow> received_msg m))"
proof -
  obtain n b a s1 where rs: "server_read_sock (c_protocol c) (c_sockfd c) (c_addr c) s = (n, b, a, s1)"
    by (cases "server_read_sock (c_protocol c) (c_sockfd c) (c_addr c) s")
  have s1: "I s1" "clients s1 = clients s"
    using socket_read [OF assms(1), of "c_protocol c" "c_sockfd c" "c_addr c"] rs
    by (auto simp: server_read_sock_def Let_def split: list.splits)
  have stored: "ends UNIV (store_addr (ClientAddr p) a s1) (\<lambda>t. I t \<and> client_at p t = Ok (c\<lparr>c_addr := a\<rparr>))"
    using socket_addr [OF s1(1), of p a] upd_client_at [of p "\<lambda>c. c\<lparr>c_addr := a\<rparr>" s1] c s1(2)
    by (simp add: store_addr_def ends_UNIV client_at_def)
  have error: "ends UNIV (send_error (c_protocol c) (c_sockfd c) a e (set_errno x t)) I"
    if "I t" "client_at p t = Ok (c\<lparr>c_addr := a\<rparr>)" for t e x
    using own_error [OF socket_system(1) [OF that(1), of x], of p "c\<lparr>c_addr := a\<rparr>" e] that(2)
    by (simp add: set_errno_def client_at_def)
  have rd: "ends UNIV (parse pr b k zero_msg) (\<lambda>(rc, m). rc = None \<longrightarrow> received_msg m)" for pr k
    by (auto simp: ends_UNIV received_msg_def)
  show ?thesis
    by (auto simp: read_msg_def rs split: option.split
        intro!: ends_wp [OF stored] ends_wp [OF own_close] ends_wp [OF error] ends_wp [OF rd] socket_system(3))
qed

lemma read_own_wp:
  assumes "I s" and "client_at p s = Ok c" and "\<And>a m t. I t \<Longrightarrow> Q (None, a, m, t)"
    and "\<And>n a m t. I t \<Longrightarrow> received_msg m \<Longrightarrow> Q (Some n, a, m, t)"
  shows "ends UNIV (read_msg (c_protocol c) (c_sockfd c) (c_addr c) (ClientAddr p) zero_msg s) Q"
proof (rule ends_wp [OF read_own [OF assms(1,2)]])
  fix x :: "nat option \<times> sockaddr_in \<times> msg_t \<times> server"
  assume "case x of (n, a, m, t) \<Rightarrow> I t \<and> (n \<noteq> None \<longrightarrow> received_msg m)"
  then show "Q x" using assms(3,4) by (cases x; cases "fst x") simp_all
qed

lemma sock_loop_I: "I s \<Longrightarrow> ends UNIV (sock_loop k f cl s) I"
proof (induction k arbitrary: s)
  case (Suc k)
  then show ?case
    by (auto simp: sock_loop.simps intro!: reads_wp read_own_wp ends_wp [OF socket_process])
qed (simp add: sock_loop.simps)

lemma process_msg_sock_I: "I s \<Longrightarrow> ends UNIV (process_msg_sock f s) I"
proof -
  assume "I s"
  then have "ends UNIV (del_poll_fd f (poll s)) (\<lambda>(b, pl). I (s\<lparr>poll := pl\<rparr>))"
    using socket_unpoll by (simp add: ends_UNIV)
  with \<open>I s\<close> show ?thesis
    by (auto simp: process_msg_sock_def Let_def intro!: sock_loop_I socket_system elim!: ends_wp)
qed

lemma poll_loop_I: "I s \<Longrightarrow> ends UNIV (poll_loop k i s) I"
proof (induction k arbitrary: i s)
  case (Suc k)
  then show ?case
    by (auto simp: poll_loop.simps intro!: ends_wp [OF process_msg_sock_I]
        any_wp [of _ "pl_at p j" for p j])
qed (simp add: poll_loop.simps)

end

section \<open>Sending and closing\<close>

locale sender_inv =
  fixes I :: "server \<Rightarrow> bool" and PR :: "transport_protocol_t set"
  assumes I_protocol: "I s \<Longrightarrow> client_at p s = Ok c \<Longrightarrow> c_protocol c \<in> PR"
    and I_removed [intro!]: "I s \<Longrightarrow> clients s = q \<Longrightarrow> I (s\<lparr>clients := snd (ql_remove i q)\<rparr>)"
    and I_ended [intro!]: "I s \<Longrightarrow> I (s\<lparr>clients := ql_map a to_end (clients s)\<rparr>)"
    and I_taken: "I s \<Longrightarrow> subseq b (msg_out_buf s) \<Longrightarrow> I (s\<lparr>msg_out_buf := b\<rparr>)"
    and I_kept: "I s \<Longrightarrow> e_udp \<in> PR \<Longrightarrow> retry_count m = 0 \<Longrightarrow> I (s\<lparr>next_addr := Suc (next_addr s),
      msg_out_buf := msg_out_buf s @ [\<lparr>n_ptr = next_addr s, n_id = i, n_data = m\<rparr>]\<rparr>)"
    and I_buffered: "I s \<Longrightarrow> (\<And>m. retry_count (g m) = retry_count m) \<Longrightarrow>
      I (s\<lparr>msg_out_buf := ql_map a g (msg_out_buf s)\<rparr>)"
    and I_retried: "I s \<Longrightarrow> ql_find a (msg_out_buf s) = Some n \<Longrightarrow>
      retry_count (n_data n) < udp_retransmissions (argv s) \<Longrightarrow> I (s\<lparr>msg_out_buf := ql_map a
        (\<lambda>m. m\<lparr>retry_count := retry_count m + 1, timeout := x\<rparr>) (msg_out_buf s)\<rparr>)"
    and I_poll [intro!]: "I s \<Longrightarrow> I (s\<lparr>poll := pl\<rparr>)"
    and I_errno [intro!]: "I s \<Longrightarrow> I (s\<lparr>errno := e\<rparr>)"
    and I_msg_cnt [intro!]: "I s \<Longrightarrow> I (s\<lparr>msg_cnt := n'\<rparr>)"
    and I_next_addr [intro!]: "I s \<Longrightarrow> I (s\<lparr>next_addr := Suc (next_addr s)\<rparr>)"
    and I_os [intro!]: "I s \<Longrightarrow> os_used (os s) sys \<Longrightarrow> I (s\<lparr>os := sys\<rparr>)"
begin

lemma I_unbuffered [intro!]:
  "I s \<Longrightarrow> msg_out_buf s = q \<Longrightarrow> I (s\<lparr>msg_out_buf := snd (ql_remove i q)\<rparr>)"
  "I s \<Longrightarrow> I (s\<lparr>msg_out_buf := []\<rparr>)"
  by (auto intro: I_taken)

lemma I_system [intro!]:
  "I s \<Longrightarrow> I (set_errno e s)" "I s \<Longrightarrow> I (os_close f s)" "I s \<Longrightarrow> I (os_log l s)"
  by (auto simp: set_errno_def os_close_def os_log_def)

lemma I_calls [intro!]:
  "I s \<Longrightarrow> I (snd (os_call s))" "I s \<Longrightarrow> I (snd (os_alloc s))" "I s \<Longrightarrow> I (snd (os_socket s))"
  "I s \<Longrightarrow> I (snd (server_send pr f a b n s))"
  by (auto simp: os_call_def os_alloc_def os_socket_def server_send_def Let_def
      split: prod.split list.split)

lemma I_new_item [intro!]: "I s \<Longrightarrow> I (snd (new_item s))"
  using I_calls(2) [of s] by (auto simp: new_item_def split: prod.split)

lemma I_read_sock [intro!]: "I s \<Longrightarrow> I (snd (snd (snd (server_read_sock pr f a s))))"
  by (auto simp: server_read_sock_def Let_def split: list.split)

lemma I_accept [intro!]: "I s \<Longrightarrow> I (snd (snd (snd (server_accept pr a s))))"
  by (auto simp: server_accept_def Let_def case_prod_beta split: list.split transport_protocol_t.split)

text \<open>
  Each handler keeps the invariant; the \<open>_wp\<close> form of the rule serves the calls inside the next
  handlers.
\<close>

lemma end_client_I: "I s \<Longrightarrow> ends UNIV (upd_client p to_end s) I"
  by (auto simp: upd_client_def ql_upd_def ends_UNIV andthen_Ok_iff)

lemma upd_msg_I:
  "I s \<Longrightarrow> (\<And>m. retry_count (g m) = retry_count m) \<Longrightarrow> ends UNIV (upd_msg p g s) I"
  by (auto simp: upd_msg_def ql_upd_def ends_UNIV andthen_Ok_iff intro: I_buffered)

lemma retry_msg_I:
  assumes "I s" and "msg_at p s = Ok m" and "retry_count m < udp_retransmissions (argv s)"
  shows "ends UNIV (upd_msg p (\<lambda>m. m\<lparr>retry_count := retry_count m + 1, timeout := x\<rparr>) s) I"
  using assms by (auto simp: upd_msg_def msg_at_def ql_upd_def ql_at_Ok_iff ends_UNIV andthen_Ok_iff
      intro: I_retried dest: ql_find_SomeD)

lemma delete_client_I: "I s \<Longrightarrow> ends UNIV (delete_client p s) I"
  by (auto simp: delete_client_def ends_UNIV Let_def andthen_Ok_iff os_close_def
      dest!: purge_loop_subseq intro: I_taken split: if_splits)

lemma send_try_I: "I s \<Longrightarrow> ends UNIV (send_try pr f a m r s) (\<lambda>(b, i, m1, t). I t)"
  by (auto simp: send_try_def ends_UNIV Let_def andthen_Ok_iff case_prod_beta split: option.splits)

lemma send_done_I: "I s \<Longrightarrow> pr \<in> PR \<or> r \<Longrightarrow> ends UNIV (send_done pr f a i m r s) I"
  using I_calls(2) [of "os_log l s" for l]
  by (auto simp: send_done_def new_item_def ends_UNIV Let_def case_prod_beta intro: I_kept split: if_splits)

lemma send_close_I:
  "I s \<Longrightarrow> pr \<in> PR \<or> r \<Longrightarrow> ends UNIV (send_msg pr f a m r s) I" "I s \<Longrightarrow> ends UNIV (close_client p s) I"
proof (induction pr f a m r s and p s rule: send_msg_close_client.induct)
  case (1 pr f a m r s)
  show ?case
    by (subst send_msg.simps)
       (auto intro!: ends_mono [OF send_try_I [OF "1.prems"(1)]] send_done_I "1.IH" "1.prems"(2))
next
  case (2 p s)
  have tail: "ends UNIV (client_at p t)
      (\<lambda>c. ends UNIV (if c_protocol c = e_tcp then delete_client p t else Ok t) I)" if "I t" for t
    using that by (auto intro!: reads_wp delete_client_I)
  show ?case
    by (subst close_client.simps)
       (auto intro!: reads_wp(1) ends_mono [OF end_client_I [OF "2.prems"]] ends_wp [OF "2.IH"]
          tail delete_client_I "2.prems" dest: I_protocol [OF "2.prems"])
qed

lemmas send_msg_I = send_close_I(1)
lemmas close_client_I = send_close_I(2)

lemma send_client_I: "I s \<Longrightarrow> client_at p s = Ok c \<Longrightarrow> ends UNIV (send_msg (c_protocol c) f a m r s) I"
  using send_msg_I I_protocol by blast

lemmas sender_wp =
  reads_wp ends_wp [OF end_client_I] ends_wp [OF upd_msg_I] ends_wp [OF delete_client_I]
  ends_wp [OF close_client_I]

lemma send_error_I: "I s \<Longrightarrow> pr \<in> PR \<Longrightarrow> ends UNIV (send_error pr f a e s) I"
  unfolding send_error_def by (rule send_msg_I) auto

end

sublocale sender_inv \<subseteq> own_inv I
  by unfold_locales (auto intro: send_client_I close_client_I delete_client_I)

context sender_inv
begin

lemma exec_confirm_I: "I s \<Longrightarrow> ends UNIV (exec_confirm cl m s) I"
  by (auto simp: exec_confirm_def Let_def intro!: sender_wp
      split: option.split)

lemma timeout_loop_I: "I s \<Longrightarrow> ends UNIV (timeout_loop k n c item d s) (\<lambda>(d1, t). I t)"
proof (induction k arbitrary: item d s)
  case (Suc k)
  have retry: "ends UNIV (send_msg e_udp f a m True t) (\<lambda>u. ends UNIV (upd_msg p (\<lambda>m.
      m\<lparr>retry_count := retry_count m + 1, timeout := udp_timeout (argv u)\<rparr>) u) I)"
    if "I t" "msg_at p t = Ok m" "retry_count m < udp_retransmissions (argv t)" for t p f a m
  proof (rule ends_mono [OF send_msg_I [OF that(1)]])
    fix u assume "send_msg e_udp f a m True t = Ok u" "I u"
    with that show "ends UNIV (upd_msg p (\<lambda>m. m\<lparr>retry_count := retry_count m + 1,
        timeout := udp_timeout (argv u)\<rparr>) u) I"
      using resend_same [of f a m t u] by (intro retry_msg_I) (auto simp: msg_at_def)
  qed simp
  have body: "ends UNIV (timeout_item n c p d s) (\<lambda>(d1, t). I t)" for p
    using Suc.prems by (auto simp: timeout_item_def intro!: sender_wp retry
        any_wp [of _ "in_dstr g e t" for g e t])
  show ?case
    by (auto simp: timeout_loop.simps intro!: ends_wp [OF body] reads_wp Suc.IH Suc.prems
        split: option.split)
qed (simp add: timeout_loop.simps)

lemma udp_timeout_I: "I s \<Longrightarrow> ends UNIV (do_udp_timeout n s) I"
  by (auto simp: do_udp_timeout_def intro!: ends_wp [OF timeout_loop_I] destroy_loop_I)

lemma close_fds_I: "I s \<Longrightarrow> ends UNIV (close_fds js s) I"
  by (induction js arbitrary: s) (auto intro!: any_wp [of _ "pl_at p j" for p j])

lemma add_poll_I: "I s \<Longrightarrow> ends UNIV (add_poll f pr s) (\<lambda>(rc, t). I t)"
proof -
  assume "I s"
  obtain b1 s1 where s1: "os_alloc s = (b1, s1)" by (cases "os_alloc s")
  obtain b2 s2 where s2: "os_alloc s1 = (b2, s2)" by (cases "os_alloc s1")
  have "I s2" using I_calls(2) [OF I_calls(2) [OF \<open>I s\<close>]] s1 s2 by simp
  then show ?thesis
    by (auto simp: add_poll_def s1 s2 Let_def ends_UNIV andthen_Ok_iff split: option.splits)
qed

end

section \<open>Handling a readable descriptor\<close>

locale handler_inv = sender_inv +
  assumes I_addr [intro!]: "I s \<Longrightarrow> I (s\<lparr>clients := ql_map a (\<lambda>c. c\<lparr>c_addr := x\<rparr>) (clients s)\<rparr>)"
    and I_process: "I s \<Longrightarrow> received_msg m \<Longrightarrow> ends UNIV (process_msg cl m s) I"
    and I_client: "I s \<Longrightarrow> pr \<in> PR \<Longrightarrow> I (s\<lparr>next_addr := Suc (next_addr s), client_cnt := cnt,
      clients := clients s @ [\<lparr>n_ptr = next_addr s, n_id = i, n_data = new_client f pr x\<rparr>]\<rparr>)"
    and I_datagrams: "I s \<Longrightarrow> e_udp \<in> PR \<or> inbox (os s) (get_udp_socket s) = []"
begin

lemma store_addr_I: "I s \<Longrightarrow> ends UNIV (store_addr r a s) I"
  by (auto simp: store_addr_def upd_client_def ql_upd_def ends_UNIV andthen_Ok_iff split: addr_ref.split)

lemma read_msg_I:
  "I s \<Longrightarrow> pr \<in> PR \<Longrightarrow> ends UNIV (read_msg pr f a r zero_msg s)
     (\<lambda>(n, a, m, t). I t \<and> (n \<noteq> None \<longrightarrow> received_msg m))"
proof -
  assume I: "I s" "pr \<in> PR"
  obtain n b a1 s1 where rs: "server_read_sock pr f a s = (n, b, a1, s1)"
    by (cases "server_read_sock pr f a s")
  with I_read_sock [OF I(1), of pr f a] have "I s1" by simp
  have rd: "ends UNIV (parse pr b k zero_msg) (\<lambda>(rc, m). rc = None \<longrightarrow> received_msg m)" for k
    by (auto simp: ends_UNIV received_msg_def)
  show ?thesis
    using I(2) \<open>I s1\<close> by (auto simp: read_msg_def rs split: option.split
        intro!: ends_wp [OF store_addr_I] sender_wp ends_wp [OF send_error_I] ends_wp [OF rd])
qed

lemma read_wp:
  assumes "I s" and "pr \<in> PR" and "\<And>a m t. I t \<Longrightarrow> Q (None, a, m, t)"
    and "\<And>n a m t. I t \<Longrightarrow> received_msg m \<Longrightarrow> Q (Some n, a, m, t)"
  shows "ends UNIV (read_msg pr f a r zero_msg s) Q"
proof (rule ends_wp [OF read_msg_I [OF assms(1,2)]])
  fix x :: "nat option \<times> sockaddr_in \<times> msg_t \<times> server"
  assume "case x of (n, a, m, t) \<Rightarrow> I t \<and> (n \<noteq> None \<longrightarrow> received_msg m)"
  then show "Q x" using assms(3,4) by (cases x; cases "fst x") simp_all
qed

lemma register_client_I:
  "I s \<Longrightarrow> pr \<in> PR \<Longrightarrow> ends UNIV (register_client pr f a s) (\<lambda>(p, t). I t)"
proof -
  assume I: "I s" "pr \<in> PR"
  have item: "ends UNIV (case new_item t of (item, s2) \<Rightarrow> (case item of
            None \<Rightarrow> andthen (send_error pr f a ''Connection could not be established.'' s2)
              (\<lambda>s3. Ok (None, server_close_client f s3))
          | Some a' \<Rightarrow> Ok (Some a', s2\<lparr>client_cnt := client_cnt s2 + 1,
              clients := ql_add \<lparr>n_ptr = a', n_id = ucast (client_cnt s2),
                n_data = new_client f pr a\<rparr> (clients s2)\<rparr>)))
      (\<lambda>(p, t). I t)" if "I t" for t
    using I_calls(2) [OF that] I(2)
    by (auto simp: new_item_def case_prod_beta server_close_client_def
        intro!: ends_wp [OF send_error_I] I_client)
  show ?thesis
    using I by (auto simp: register_client_def split: option.split
        intro!: ends_wp [OF add_poll_I] ends_wp [OF send_error_I] item)
qed

lemma tcp_polling_I: "I s \<Longrightarrow> e_tcp \<in> PR \<Longrightarrow> ends UNIV (tcp_polling s) I"
  using I_accept [of s e_tcp zero_addr]
  by (auto simp: tcp_polling_def split: prod.split option.split
      intro!: ends_wp [OF register_client_I])

lemma no_datagram:
  "inbox (os s) f = [] \<Longrightarrow> read_msg e_udp f a LocalAddr m s = Ok (None, a, m, s)"
  by (simp add: read_msg_def server_read_sock_def store_addr_def)

lemma udp_polling_I:
  assumes "I s"
  shows "ends UNIV (udp_polling s) I"
proof -
  obtain rc f a t where t: "server_accept e_udp zero_addr s = (rc, f, a, t)"
    by (cases "server_accept e_udp zero_addr s")
  with I_accept [OF assms, of e_udp zero_addr] have "I t" by simp
  show ?thesis
  proof (cases "e_udp \<in> PR")
    case True
    then show ?thesis using \<open>I t\<close>
      by (auto simp: udp_polling_def t split: option.split
          intro!: read_wp ends_wp [OF register_client_I] send_error_I I_process)
  next
    case False
    with I_datagrams [OF \<open>I t\<close>] \<open>I t\<close> show ?thesis
      by (auto simp: udp_polling_def t no_datagram split: option.split)
  qed
qed

end

sublocale handler_inv \<subseteq> socket_inv I
  by unfold_locales (auto simp: upd_client_def ql_upd_def ends_UNIV andthen_Ok_iff
      dest: ends_OkD [OF I_process])

context handler_inv
begin

lemma poll_ready_I: "I s \<Longrightarrow> e_tcp \<in> PR \<Longrightarrow> ends UNIV (poll_ready s) I"
  by (auto simp: poll_ready_def intro!: poll_loop_I ends_wp [OF tcp_polling_I]
      ends_wp [OF udp_polling_I] any_wp [of _ "pl_at p j" for p j])

end

section \<open>The main loop\<close>

text \<open>The main loop also sets the stop flag and the shutdown timer, and exits.\<close>

locale main_inv = handler_inv +
  assumes I_cleared [intro!]: "I s \<Longrightarrow> I (s\<lparr>clients := []\<rparr>)"
    and I_stop_flag [intro!]: "I s \<Longrightarrow> I (s\<lparr>stop_flag := True\<rparr>)"
    and I_stop_timeout [intro!]: "I s \<Longrightarrow> I (s\<lparr>stop_timeout := t\<rparr>)"
    and I_exited [intro!]: "I s \<Longrightarrow> I (s\<lparr>exited := Some code\<rparr>)"
    and PR_tcp: "e_tcp \<in> PR"
begin

lemma stop_I: "I s \<Longrightarrow> ends UNIV (stop code s) I"
  by (auto simp: stop_def Let_def server_close_def intro!: ends_wp [OF close_fds_I])

lemma poll_idle_I: "I s \<Longrightarrow> ends UNIV (poll_idle n s) I"
  by (auto simp: poll_idle_def intro!: stop_I udp_timeout_I)

lemma main_iter_I: "I s \<Longrightarrow> ends UNIV (main_iter ev s) I"
  by (cases ev) (auto simp: main_iter_def Let_def sigint_handler_def PR_tcp intro!: poll_ready_I
      poll_idle_I ends_wp [OF sigint_loop_I])

end

text \<open>Between two rounds packets and connections arrive.\<close>

locale run_inv = main_inv +
  assumes I_env: "I s \<Longrightarrow> env_change (os s) sys \<Longrightarrow> I (s\<lparr>os := sys\<rparr>)"
begin

lemma main_step_I: "main_step s s' \<Longrightarrow> I s \<Longrightarrow> I s'"
proof (induction rule: main_step.induct)
  case (env s sys)
  show ?case by (rule I_env [OF env.prems env.hyps(2)])
next
  case (round s ev s')
  show ?case by (rule ends_OkD [OF main_iter_I [OF round.prems] round.hyps(2)])
qed

lemma main_steps_I: "main_step\<^sup>*\<^sup>* s s' \<Longrightarrow> I s \<Longrightarrow> I s'"
  by (induction rule: rtranclp_induct) (auto intro: main_step_I)

lemma reachable_I:
  assumes "reachable args s" and "\<And>sys s. main_init args sys = Ok s \<Longrightarrow> I s"
  shows "I s"
  using assms(1) by (induction rule: reachable.induct) (auto intro: main_step_I assms(2))

end

section \<open>Properties that updates of clients keep\<close>

locale update_inv = sender_inv +
  assumes I_updated [intro!]: "I s \<Longrightarrow> keeps_socket g \<Longrightarrow> I (s\<lparr>clients := ql_map a g (clients s)\<rparr>)"
begin

lemma upd_client_I: "I s \<Longrightarrow> keeps_socket f \<Longrightarrow> ends UNIV (upd_client p f s) I"
  by (auto simp: upd_client_def ql_upd_def ends_UNIV andthen_Ok_iff)

end

sublocale update_inv \<subseteq> client_inv I
  by unfold_locales (auto intro: upd_client_I exec_confirm_I)

section \<open>Servers that only TCP clients use\<close>

text \<open>
  While all clients use TCP, nothing is ever kept for retransmission.
\<close>

definition tcp_only :: "server \<Rightarrow> bool" where
  "tcp_only s \<longleftrightarrow> (\<forall>n \<in> set (clients s). c_protocol (n_data n) = e_tcp) \<and> msg_out_buf s = []"

lemma client_at_node:
  "client_at p s = Ok c \<Longrightarrow> \<exists>n \<in> set (clients s). p = Some (n_ptr n) \<and> c = n_data n"
  by (auto simp: client_at_def andthen_Ok_iff ql_at_Ok_iff dest: ql_find_SomeD)

interpretation tcp_only: update_inv tcp_only "{e_tcp}"
  by unfold_locales (auto simp: tcp_only_def ql_map_def keeps_socket_def dest!: client_at_node
      dest: set_ql_remove [THEN subsetD])

section \<open>Properties that do not look at clients and messages\<close>

locale state_inv =
  fixes I :: "server \<Rightarrow> bool"
  assumes I_any_clients [intro!]: "I s \<Longrightarrow> I (s\<lparr>clients := q\<rparr>)"
    and I_any_msgs [intro!]: "I s \<Longrightarrow> I (s\<lparr>msg_out_buf := b\<rparr>)"
    and I_any_poll [intro!]: "I s \<Longrightarrow> I (s\<lparr>poll := pl\<rparr>)"
    and I_any_errno [intro!]: "I s \<Longrightarrow> I (s\<lparr>errno := e\<rparr>)"
    and I_any_msg_cnt [intro!]: "I s \<Longrightarrow> I (s\<lparr>msg_cnt := n\<rparr>)"
    and I_any_client_cnt [intro!]: "I s \<Longrightarrow> I (s\<lparr>client_cnt := n\<rparr>)"
    and I_any_next_addr [intro!]: "I s \<Longrightarrow> I (s\<lparr>next_addr := k\<rparr>)"
    and I_grows [intro!]: "I s \<Longrightarrow> os_grows (os s) sys \<Longrightarrow> I (s\<lparr>os := sys\<rparr>)"

sublocale state_inv \<subseteq> update_inv I UNIV
  by unfold_locales (auto simp: os_used_def)

sublocale state_inv \<subseteq> handler_inv I UNIV
  by unfold_locales (auto intro: process_msg_I)

locale loop_inv = state_inv +
  assumes I_any_stop_flag: "I s \<Longrightarrow> I (s\<lparr>stop_flag := True\<rparr>)"
    and I_any_stop_timeout: "I s \<Longrightarrow> I (s\<lparr>stop_timeout := t\<rparr>)"
    and I_any_exited: "I s \<Longrightarrow> I (s\<lparr>exited := Some code\<rparr>)"

sublocale loop_inv \<subseteq> run_inv I UNIV
  by unfold_locales (auto simp: env_change_def os_grows_def
      intro: I_any_stop_flag I_any_stop_timeout I_any_exited)

section \<open>Retransmissions\<close>

text \<open>No message is sent again more often than the settings say.\<close>

definition retries_ok :: "server \<Rightarrow> bool" where
  "retries_ok s \<longleftrightarrow> distinct (ptrs (msg_out_buf s)) \<and> (\<forall>n \<in> set (msg_out_buf s). n_ptr n < next_addr s \<and>
     retry_count (n_data n) \<le> udp_retransmissions (argv s))"

lemma subseq_ptrs: "subseq b q \<Longrightarrow> distinct (ptrs q) \<Longrightarrow> distinct (ptrs b)"
proof (induction rule: list_emb.induct)
  case (list_emb_Cons2 x y xs ys)
  then show ?case using list_emb_set [of "(=)" xs ys] by (auto simp: ptrs_def)
qed simp_all

lemma retries_okI:
  "retries_ok s \<Longrightarrow> msg_out_buf t = msg_out_buf s \<Longrightarrow> argv t = argv s \<Longrightarrow> next_addr s \<le> next_addr t \<Longrightarrow>
     retries_ok t"
  by (auto simp: retries_ok_def)

interpretation retries: update_inv retries_ok UNIV
proof unfold_locales
  fix s assume s: "retries_ok s"
  show "retries_ok (s\<lparr>msg_out_buf := b\<rparr>)" if "subseq b (msg_out_buf s)" for b
    using that s list_emb_set [OF that] subseq_ptrs [OF that] by (auto simp: retries_ok_def)
  show "retries_ok (s\<lparr>next_addr := Suc (next_addr s),
      msg_out_buf := msg_out_buf s @ [\<lparr>n_ptr = next_addr s, n_id = i, n_data = m\<rparr>]\<rparr>)"
    if "retry_count m = 0" for i m
    using that s by (auto simp: retries_ok_def ptrs_def less_SucI)
  show "retries_ok (s\<lparr>msg_out_buf := ql_map a g (msg_out_buf s)\<rparr>)"
    if "\<And>m. retry_count (g m) = retry_count m" for a g
    using that s by (simp add: retries_ok_def) (auto simp: ql_map_def)
  show "retries_ok (s\<lparr>msg_out_buf := ql_map a (\<lambda>m. m\<lparr>retry_count := retry_count m + 1, timeout := x\<rparr>)
      (msg_out_buf s)\<rparr>)"
    if "ql_find a (msg_out_buf s) = Some n" "retry_count (n_data n) < udp_retransmissions (argv s)" for a n x
  proof -
    have "k = n" if "k \<in> set (msg_out_buf s)" "n_ptr k = a" for k
      using that ql_find_distinct [OF that(1)] s \<open>ql_find a (msg_out_buf s) = Some n\<close> by (auto simp: retries_ok_def)
    moreover have "retry_count (n_data n) + 1 \<le> udp_retransmissions (argv s)" using that(2) by (rule inc_le)
    ultimately show ?thesis using s by (simp add: retries_ok_def) (auto simp: ql_map_def)
  qed
qed (auto elim: retries_okI)

interpretation retries: run_inv retries_ok UNIV
  by (unfold_locales; (rule retries.process_msg_I, assumption | erule retries_okI; simp | simp))

section \<open>Settings and history\<close>

definition same_settings :: "server \<Rightarrow> server \<Rightarrow> bool" where
  "same_settings s0 s \<longleftrightarrow> argv s = argv s0 \<and> sockfd_tcp_welcome s = sockfd_tcp_welcome s0 \<and>
     sockfd_udp_welcome s = sockfd_udp_welcome s0"

definition later :: "server \<Rightarrow> server \<Rightarrow> bool" where
  "later s0 s \<longleftrightarrow> os_grows (os s0) (os s) \<and> (stop_flag s0 \<longrightarrow> stop_flag s)"

interpretation settings: loop_inv "same_settings s0" for s0
  by unfold_locales (auto simp: same_settings_def)

interpretation history: loop_inv "later s0" for s0
  by unfold_locales (auto simp: later_def intro: os_grows_trans)

text \<open>
  C29. Over any run of the main loop, whatever the operating system answers and the clients send, the
  arguments and the welcome sockets stay as they are, the bytes sent, the descriptors closed and the
  lines logged only grow, and a shutdown that was requested stays requested.
\<close>

theorem history_grows:
  assumes "main_step\<^sup>*\<^sup>* s s'"
  shows "(\<exists>w. wire (os s') = wire (os s) @ w) \<and> (\<exists>c. closed (os s') = closed (os s) @ c) \<and>
     (\<exists>l. out_log (os s') = out_log (os s) @ l) \<and> (stop_flag s \<longrightarrow> stop_flag s') \<and>
     argv s' = argv s \<and> get_tcp_socket s' = get_tcp_socket s \<and> get_udp_socket s' = get_udp_socket s"
  using history.main_steps_I [OF assms, of s] settings.main_steps_I [OF assms, of s]
  by (auto simp: later_def os_grows_def same_settings_def get_tcp_socket_def get_udp_socket_def)

end
