(* ===== verification/Sending.thy ===== *)
theory Sending
  imports Poll_Inv Sizes State_Rel
begin

text \<open>
  What the sending functions do as long as the operating system does not fail: \<open>send_msg\<close> as
  one state update (\<open>after_send\<close>), the invariant of the server state, and that sending keeps it.
\<close>

section \<open>Sends that succeed\<close>

text \<open>No coming send and no coming allocation fails.\<close>

definition quiet :: "server \<Rightarrow> bool" where
  "quiet s \<longleftrightarrow> True \<notin> set (send_fail (os s)) \<and> True \<notin> set (alloc_fail (os s))"

lemma pop_quiet: "True \<notin> set bs \<Longrightarrow> pop bs = (False, tl bs)"
  by (cases bs) (auto simp: pop_def)

lemma quiet_tl: "True \<notin> set bs \<Longrightarrow> True \<notin> set (tl bs)"
  by (cases bs) auto

definition stamp :: "bool \<Rightarrow> server \<Rightarrow> msg_t \<Rightarrow> msg_t" where
  "stamp r s m = (if r then m else m\<lparr>msg_id := ucast (msg_cnt s)\<rparr>)"

definition sent_bytes :: "transport_protocol_t \<Rightarrow> bytes \<Rightarrow> nat \<Rightarrow> bytes" where
  "sent_bytes pr buf n = (if pr = e_tcp then cstr 0 buf else buf_slice 0 n buf)"

text \<open>Is the message kept until it is confirmed?\<close>

definition is_kept :: "transport_protocol_t \<Rightarrow> msg_t \<Rightarrow> bool \<Rightarrow> bool" where
  "is_kept pr m r \<longleftrightarrow> pr = e_udp \<and> msg_type m \<noteq> e_confirm \<and> \<not> r"

definition kept_node :: "int \<Rightarrow> sockaddr_in \<Rightarrow> msg_t \<Rightarrow> server \<Rightarrow> msg_t node" where
  "kept_node f a m s = \<lparr>n_ptr = next_addr s, n_id = ucast (msg_cnt s),
     n_data = m\<lparr>m_sockfd := f, m_addr := a, timeout := udp_timeout (argv s), retry_count := 0,
       is_confirmed := False\<rparr>\<rparr>"

definition after_send :: "transport_protocol_t \<Rightarrow> int \<Rightarrow> sockaddr_in \<Rightarrow> msg_t \<Rightarrow> bool \<Rightarrow> rc \<Rightarrow> bytes \<Rightarrow>
    server \<Rightarrow> server" where
  "after_send pr f a m r rc bs s = s\<lparr>
     msg_cnt := (if r then msg_cnt s else msg_cnt s + 1),
     errno := (case rc of None \<Rightarrow> errno s | Some e \<Rightarrow> error_out e),
     msg_out_buf := (if is_kept pr m r then msg_out_buf s @ [kept_node f a m s] else msg_out_buf s),
     next_addr := (if is_kept pr m r then next_addr s + 1 else next_addr s),
     os := (os s)\<lparr>send_fail := tl (send_fail (os s)),
       alloc_fail := (if is_kept pr m r then tl (alloc_fail (os s)) else alloc_fail (os s)),
       wire := wire (os s) @ [(f, a, bs)],
       out_log := out_log (os s) @ [LogSent a (msg_type m)]\<rparr>\<rparr>"

lemma after_send_simps [simp]:
  "clients (after_send pr f a m r rc bs s) = clients s"
  "poll (after_send pr f a m r rc bs s) = poll s"
  "client_cnt (after_send pr f a m r rc bs s) = client_cnt s"
  "stop_flag (after_send pr f a m r rc bs s) = stop_flag s"
  "argv (after_send pr f a m r rc bs s) = argv s"
  "sockfd_tcp_welcome (after_send pr f a m r rc bs s) = sockfd_tcp_welcome s"
  "sockfd_udp_welcome (after_send pr f a m r rc bs s) = sockfd_udp_welcome s"
  "exited (after_send pr f a m r rc bs s) = exited s"
  "inbox (os (after_send pr f a m r rc bs s)) = inbox (os s)"
  "new_conns (os (after_send pr f a m r rc bs s)) = new_conns (os s)"
  "new_socks (os (after_send pr f a m r rc bs s)) = new_socks (os s)"
  "closed (os (after_send pr f a m r rc bs s)) = closed (os s)"
  "wire (os (after_send pr f a m r rc bs s)) = wire (os s) @ [(f, a, bs)]"
  "msg_cnt (after_send pr f a m r rc bs s) = (if r then msg_cnt s else msg_cnt s + 1)"
  "msg_out_buf (after_send pr f a m r rc bs s) =
     (if is_kept pr m r then msg_out_buf s @ [kept_node f a m s] else msg_out_buf s)"
  "next_addr (after_send pr f a m r rc bs s) =
     (if is_kept pr m r then next_addr s + 1 else next_addr s)"
  by (simp_all add: after_send_def)

lemma quiet_after_send [simp]: "quiet s \<Longrightarrow> quiet (after_send pr f a m r rc bs s)"
  by (auto simp: quiet_def after_send_def dest: quiet_tl)

lemma stamp_simps [simp]: "msg_type (stamp r s m) = msg_type m" "fits (stamp r s m) = fits m"
  "may_send F (stamp r s m) = may_send F m"
  by (simp_all add: stamp_def may_send_def)

lemma send_msg_quiet:
  assumes "quiet s"
  shows "send_msg pr f a m r s = andthen (compose pr (stamp r s m)) (\<lambda>(rc, buf, n).
     Ok (after_send pr f a (stamp r s m) r rc (sent_bytes pr buf n) s))"
  using assms pop_quiet
  by (cases "compose pr (stamp r s m)")
     (auto simp: send_msg.simps send_try_def send_done_def Let_def stamp_def quiet_def
        server_send_def sent_bytes_def new_item_def os_alloc_def os_log_def after_send_def
        is_kept_def kept_node_def ql_add_def set_errno_def split: option.splits)

section \<open>The invariant of the server state\<close>

definition fds :: "client_t queue \<Rightarrow> int list" where
  "fds q = map (\<lambda>n. c_sockfd (n_data n)) q"

definition tcp_fds :: "client_t queue \<Rightarrow> int set" where
  "tcp_fds q = (\<lambda>n. c_sockfd (n_data n)) ` {n \<in> set q. c_protocol (n_data n) = e_tcp}"

definition msg_fds :: "msg_t queue \<Rightarrow> int set" where
  "msg_fds b = (\<lambda>n. m_sockfd (n_data n)) ` set b"

text \<open>
  Cells have distinct addresses that were handed out; client ids are distinct and below the
  counter, which has not passed the range of an id; descriptors of clients are distinct and are
  not the welcome sockets; no unconfirmed message waits on the descriptor of a TCP client; the
  poll list is in bounds.
\<close>

definition wf_server :: "server \<Rightarrow> bool" where
  "wf_server s \<longleftrightarrow>
     distinct (ptrs (clients s)) \<and> (\<forall>a \<in> set (ptrs (clients s)). a < next_addr s) \<and>
     distinct (ptrs (msg_out_buf s)) \<and> (\<forall>a \<in> set (ptrs (msg_out_buf s)). a < next_addr s) \<and>
     distinct (ids (clients s)) \<and> (\<forall>i \<in> set (ids (clients s)). unat i < unat (client_cnt s)) \<and>
     unat (client_cnt s) \<le> 65536 \<and>
     distinct (fds (clients s)) \<and> sockfd_udp_welcome s \<notin> set (fds (clients s)) \<and>
     msg_fds (msg_out_buf s) \<inter> tcp_fds (clients s) = {} \<and>
     poll_ok (poll s)"

lemma fds_simps [simp]:
  "fds [] = []" "fds (n # q) = c_sockfd (n_data n) # fds q" "fds (q @ r) = fds q @ fds r"
  by (simp_all add: fds_def)

lemma msg_fds_simps [simp]:
  "msg_fds [] = {}" "msg_fds (n # q) = insert (m_sockfd (n_data n)) (msg_fds q)"
  "msg_fds (q @ r) = msg_fds q \<union> msg_fds r"
  by (auto simp: msg_fds_def)

lemma tcp_fds_simps [simp]:
  "tcp_fds [] = {}"
  "tcp_fds (n # q) =
     (if c_protocol (n_data n) = e_tcp then insert (c_sockfd (n_data n)) (tcp_fds q) else tcp_fds q)"
  "tcp_fds (q @ r) = tcp_fds q \<union> tcp_fds r"
  by (auto simp: tcp_fds_def)

lemma tcp_fds_subset: "tcp_fds q \<subseteq> set (fds q)"
  by (auto simp: tcp_fds_def fds_def)

lemma kept_node_simps [simp]:
  "n_ptr (kept_node f a m s) = next_addr s" "m_sockfd (n_data (kept_node f a m s)) = f"
  by (simp_all add: kept_node_def)

lemma wf_after_send:
  assumes "wf_server s" and "pr = e_udp \<Longrightarrow> f \<notin> tcp_fds (clients s)"
  shows "wf_server (after_send pr f a m r rc bs s)"
  using assms by (auto simp: wf_server_def is_kept_def less_SucI)

text \<open>What sending leaves alone.\<close>

definition calm :: "server \<Rightarrow> server \<Rightarrow> bool" where
  "calm s t \<longleftrightarrow> wf_server t \<and> quiet t \<and> clients t = clients s \<and> poll t = poll s \<and>
     client_cnt t = client_cnt s \<and> stop_flag t = stop_flag s \<and> argv t = argv s \<and>
     sockfd_tcp_welcome t = sockfd_tcp_welcome s \<and> sockfd_udp_welcome t = sockfd_udp_welcome s \<and>
     exited t = exited s \<and> inbox (os t) = inbox (os s) \<and> new_conns (os t) = new_conns (os s) \<and>
     new_socks (os t) = new_socks (os s)"

lemma calm_trans: "calm s t \<Longrightarrow> calm t u \<Longrightarrow> calm s u"
  by (simp add: calm_def)

lemma calm_refl: "wf_server s \<Longrightarrow> quiet s \<Longrightarrow> calm s s"
  by (simp add: calm_def)

lemma calmD: "calm s t \<Longrightarrow> wf_server t" "calm s t \<Longrightarrow> quiet t" "calm s t \<Longrightarrow> clients t = clients s"
  by (simp_all add: calm_def)

lemma send_msg_calm:
  assumes "wf_server s" and "quiet s" and "pr = e_udp \<Longrightarrow> f \<notin> tcp_fds (clients s)" and "may_send F m"
  shows "ends F (send_msg pr f a m r s)
     (\<lambda>t. calm s t \<and> (r \<longrightarrow> msg_out_buf t = msg_out_buf s))"
  using assms wf_after_send [OF assms(1,3)]
  by (auto simp: send_msg_quiet calm_def is_kept_def intro!: ends_compose)

text \<open>A client's own descriptor is never in the way.\<close>

lemma own_fd_free:
  assumes "wf_server s" and "n \<in> set (clients s)" and "c_protocol (n_data n) = e_udp"
  shows "c_sockfd (n_data n) \<notin> tcp_fds (clients s)"
proof -
  from assms(1) have d: "distinct (fds (clients s))" by (simp add: wf_server_def)
  have "m = n" if "m \<in> set (clients s)" "c_sockfd (n_data m) = c_sockfd (n_data n)" for m
    using that assms(2) d by (auto simp: fds_def distinct_map dest: inj_onD)
  with assms(3) show ?thesis by (auto simp: tcp_fds_def)
qed

lemma client_at_ok:
  "wf_server s \<Longrightarrow> n \<in> set (clients s) \<Longrightarrow> client_at (Some (n_ptr n)) s = Ok (n_data n)"
  by (simp add: client_at_def wf_server_def ql_at_mem)

lemma send_client_calm:
  assumes "wf_server s" and "quiet s" and "client_at p s = Ok c" and "may_send F m"
  shows "ends F (send_msg (c_protocol c) (c_sockfd c) (c_addr c) m r s) (calm s)"
  using client_at_node [OF assms(3)] own_fd_free [OF assms(1)]
  by (auto intro!: ends_wp [OF send_msg_calm [OF assms(1,2) _ assms(4)]])

section \<open>Forwarding\<close>

lemma ql_next_split:
  "distinct (ptrs q) \<Longrightarrow> q = xs @ n # ys \<Longrightarrow> ql_next (Some (n_ptr n)) q = Ok (ql_first ys)"
  by (auto simp: ql_next_def ql_at_mem ql_succ_split)

lemma ql_first_Cons [simp]: "ql_first (n # q) = Some (n_ptr n)" "ql_first [] = None"
  by (simp_all add: ql_first_def)

lemma forward_loop_calm:
  assumes "wf_server s" and "quiet s" and "client_at cl s = Ok c0" and "clients s = xs @ ys" and "length ys < k"
    and "may_send F m"
  shows "ends F (forward_loop k cl m (ql_first ys) s) (calm s)"
  using assms
proof (induction ys arbitrary: k s xs)
  case Nil
  then show ?case by (cases k) (auto simp: forward_loop.simps calm_refl)
next
  case (Cons n ys)
  obtain j where k: "k = Suc j" "length ys < j" using Cons.prems(5) by (cases k) auto
  have n: "client_at (Some (n_ptr n)) s = Ok (n_data n)"
    using Cons.prems by (intro client_at_ok) auto
  have nxt: "ql_next (Some (n_ptr n)) (xs @ n # ys) = Ok (ql_first ys)"
    using Cons.prems(1,4) by (auto simp: wf_server_def intro!: ql_next_split)
  have rest: "ends F (forward_loop j cl m (ql_first ys) t) (calm s)" if "calm s t" for t
  proof -
    have "client_at cl t = Ok c0" using that Cons.prems(3) by (simp add: calm_def client_at_def)
    then have "ends F (forward_loop j cl m (ql_first ys) t) (calm t)"
      using that Cons.prems(4,6) k(2) by (intro Cons.IH [of t "xs @ [n]"]) (auto simp: calm_def)
    then show ?thesis by (rule ends_wp) (use that calm_trans in blast)
  qed
  have "ends F
      (andthen (send_msg (c_protocol (n_data n)) (c_sockfd (n_data n)) (c_addr (n_data n)) m False s)
        (\<lambda>s1. andthen (ql_next (Some (n_ptr n)) (clients s1)) (\<lambda>i. forward_loop j cl m i s1))) (calm s)"
    using Cons.prems n by (auto intro!: ends_wp [OF send_client_calm] rest simp: nxt calmD)
  with Cons.prems n nxt rest [OF calm_refl] show ?case
    by (simp add: k(1) forward_loop.simps)
qed

lemma forward_calm:
  assumes "wf_server s" and "quiet s" and "client_at cl s = Ok c0"
  shows "may_send F m \<Longrightarrow> ends F (forward_msg_channel cl m s) (calm s)"
    and "ends F (notify_join cl s) (calm s)"
    and "ends F (notify_leave cl s) (calm s)"
  using forward_loop_calm [OF assms, of "[]" "clients s" "Suc (length (clients s))"] assms(3)
  by (simp_all add: forward_msg_channel_def notify_join_def notify_leave_def)

lemma send_error_calm:
  assumes "wf_server s" and "quiet s" and "pr = e_udp \<Longrightarrow> f \<notin> tcp_fds (clients s)" and "length e < 1400"
  shows "ends F (send_error pr f a e s) (calm s)"
  unfolding send_error_def
  by (rule ends_wp [OF send_msg_calm [OF assms(1-3) may_send_simps(2) [OF fits_error [OF assms(4)]]]]) simp_all

end
