(* ===== verification/Safety.thy ===== *)
theory Safety
  imports Sending
begin

text \<open>
  Memory safety.  As long as the operating system does not fail a send or an allocation, no
  handler dereferences NULL or a freed item and every loop ends; the only fault that is left is
  an overflow of a fixed-size buffer.  The invariant \<open>wf_server\<close> is kept.
\<close>

section \<open>Deleting clients\<close>

lemma remove_before:
  "\<exists>xs'. snd (ql_remove (n_id m) (xs @ m # ys)) = xs' @ ys \<and> set xs' \<subseteq> set (xs @ [m])"
proof (induction xs)
  case (Cons x xs)
  then obtain xs' where "snd (ql_remove (n_id m) (xs @ m # ys)) = xs' @ ys" "set xs' \<subseteq> set (xs @ [m])"
    by auto
  then show ?case
    by (cases "n_id x = n_id m")
       (auto simp: case_prod_beta intro: exI [of _ "xs @ [m]"] exI [of _ "x # xs'"])
qed (auto intro: exI [of _ "[]"])

lemma purge_loop_ok:
  assumes "distinct (ptrs q)" and "q = xs @ ys" and "length ys < k"
  shows "\<exists>q'. purge_loop k f (ql_first ys) q = Ok q' \<and> set q' \<subseteq> set q \<and> distinct (ptrs q')"
  using assms
proof (induction ys arbitrary: k q xs)
  case Nil
  then show ?case by (cases k) (auto simp: purge_loop.simps)
next
  case (Cons m ys)
  obtain j where k: "k = Suc j" "length ys < j" using Cons.prems(3) by (cases k) auto
  have at: "ql_at (Some (n_ptr m)) q = Ok m" "ql_next (Some (n_ptr m)) q = Ok (ql_first ys)"
    using Cons.prems by (auto intro!: ql_at_mem ql_next_split)
  show ?case
  proof (cases "m_sockfd (n_data m) = f")
    case True
    let ?q = "snd (ql_remove (n_id m) q)"
    obtain xs' where q': "?q = xs' @ ys" using remove_before [of m xs ys] Cons.prems(2) by auto
    have "\<exists>q'. purge_loop j f (ql_first ys) ?q = Ok q' \<and> set q' \<subseteq> set ?q \<and> distinct (ptrs q')"
      by (rule Cons.IH [OF distinct_ql_remove [OF Cons.prems(1)] q' k(2)])
    with at True set_ql_remove [of "n_id m" q] show ?thesis
      by (auto simp: k(1) purge_loop.simps intro: order_trans)
  next
    case False
    with Cons.IH [of q "xs @ [m]" j] k Cons.prems at show ?thesis
      by (auto simp: k(1) purge_loop.simps)
  qed
qed

text \<open>
  \<open>shrinks s t\<close>: the invariant holds in \<open>t\<close>, and its clients are clients of \<open>s\<close>, with the same
  descriptor and protocol.  \<open>level s t\<close>: moreover no client is gone.
\<close>

definition identity :: "client_t node \<Rightarrow> nat \<times> id_t \<times> int \<times> transport_protocol_t" where
  "identity n = (n_ptr n, n_id n, c_sockfd (n_data n), c_protocol (n_data n))"

definition members :: "server \<Rightarrow> (nat \<times> id_t \<times> int \<times> transport_protocol_t) set" where
  "members s = identity ` set (clients s)"

definition shrinks :: "server \<Rightarrow> server \<Rightarrow> bool" where
  "shrinks s t \<longleftrightarrow> wf_server t \<and> quiet t \<and> members t \<subseteq> members s \<and>
     pl_cnt (poll t) \<le> pl_cnt (poll s) \<and>
     client_cnt t = client_cnt s \<and> stop_flag t = stop_flag s \<and> argv t = argv s \<and>
     sockfd_tcp_welcome t = sockfd_tcp_welcome s \<and> sockfd_udp_welcome t = sockfd_udp_welcome s \<and>
     exited t = exited s \<and> inbox (os t) = inbox (os s) \<and> new_conns (os t) = new_conns (os s) \<and>
     new_socks (os t) = new_socks (os s)"

definition level :: "server \<Rightarrow> server \<Rightarrow> bool" where
  "level s t \<longleftrightarrow> shrinks s t \<and> map identity (clients t) = map identity (clients s)"

definition present :: "ptr \<Rightarrow> server \<Rightarrow> bool" where
  "present p s \<longleftrightarrow> (\<exists>n \<in> set (clients s). p = Some (n_ptr n))"

lemma shrinks_trans: "shrinks s t \<Longrightarrow> shrinks t u \<Longrightarrow> shrinks s u"
  by (auto simp: shrinks_def)

lemma level_trans: "level s t \<Longrightarrow> level t u \<Longrightarrow> level s u"
  by (auto simp: level_def intro: shrinks_trans)

lemma level_shrinks: "level s t \<Longrightarrow> shrinks s t"
  by (simp add: level_def)

lemma level_refl: "wf_server s \<Longrightarrow> quiet s \<Longrightarrow> level s s"
  by (simp add: level_def shrinks_def)

lemma calm_level: "calm s t \<Longrightarrow> level s t"
  by (auto simp: calm_def level_def shrinks_def members_def)

lemma shrinksD: "shrinks s t \<Longrightarrow> wf_server t" "shrinks s t \<Longrightarrow> quiet t"
  by (simp_all add: shrinks_def)

lemmas levelD = level_shrinks [THEN shrinksD(1)] level_shrinks [THEN shrinksD(2)]

lemma ptrs_identity: "ptrs q = map fst (map identity q)"
  by (simp add: ptrs_def identity_def)

lemma present_ptrs: "present p s \<longleftrightarrow> (\<exists>a \<in> set (ptrs (clients s)). p = Some a)"
  by (auto simp: present_def ptrs_def)

lemma level_present: "level s t \<Longrightarrow> present p s \<Longrightarrow> present p t"
  by (simp add: level_def present_ptrs ptrs_identity)

lemma client_at_present: "client_at p s = Ok c \<Longrightarrow> present p s"
  by (auto simp: present_def dest: client_at_node)

lemma present_client_at: "wf_server s \<Longrightarrow> present p s \<Longrightarrow> \<exists>c. client_at p s = Ok c"
  by (auto simp: present_def dest: client_at_ok)

lemma read_level:
  "level s0 s \<Longrightarrow> present p s0 \<Longrightarrow> (\<And>c. client_at p s = Ok c \<Longrightarrow> Q c) \<Longrightarrow> ends F (client_at p s) Q"
  using present_client_at [OF levelD(1) level_present] by force

section \<open>Updates of one client\<close>

lemma wf_server_clients:
  assumes "wf_server s" and "map identity q = map identity (clients s)"
  shows "wf_server (s\<lparr>clients := q\<rparr>)"
proof -
  have "ptrs q = ptrs (clients s)" using assms(2) by (simp add: ptrs_identity)
  moreover have "ids q = ids (clients s)"
    using arg_cong [OF assms(2), of "map (fst \<circ> snd)"] by (simp add: ids_def identity_def comp_def)
  moreover have "fds q = fds (clients s)"
    using arg_cong [OF assms(2), of "map (fst \<circ> snd \<circ> snd)"] by (simp add: fds_def identity_def comp_def)
  moreover have t: "tcp_fds r = (fst \<circ> snd) ` {x \<in> snd ` set (map identity r). snd (snd x) = e_tcp}" for r
    by (force simp: tcp_fds_def identity_def)
  then have "tcp_fds q = tcp_fds (clients s)" unfolding t assms(2) ..
  ultimately show ?thesis using assms by (simp add: wf_server_def)
qed

lemma upd_client_level:
  assumes "level s0 s" and "present p s0"
    and "\<And>c. c_sockfd (f c) = c_sockfd c \<and> c_protocol (f c) = c_protocol c"
  shows "ends F (upd_client p f s) (level s0)"
proof -
  from level_present [OF assms(1,2)] obtain n where n: "n \<in> set (clients s)" "p = Some (n_ptr n)"
    by (auto simp: present_def)
  with levelD(1) [OF assms(1)] have u: "upd_client p f s = Ok (s\<lparr>clients := ql_map (n_ptr n) f (clients s)\<rparr>)"
    by (simp add: upd_client_def ql_upd_def ql_at_mem wf_server_def)
  have i: "map identity (ql_map (n_ptr n) f (clients s)) = map identity (clients s)"
    using assms(3) by (auto simp: ql_map_def identity_def)
  then have "level s (s\<lparr>clients := ql_map (n_ptr n) f (clients s)\<rparr>)"
    using levelD [OF assms(1)] wf_server_clients [OF levelD(1) [OF assms(1)] i]
    by (simp add: level_def shrinks_def quiet_def members_def) (metis i set_map subset_refl)
  with u level_trans [OF assms(1)] show ?thesis by simp
qed

section \<open>Closing\<close>

lemma wf_server_trim:
  assumes "wf_server s" and "set b \<subseteq> set (msg_out_buf s)" and "distinct (ptrs b)" and "poll_ok pl"
  shows "wf_server (s\<lparr>clients := filter P (clients s), msg_out_buf := b, poll := pl\<rparr>)"
proof -
  let ?q = "filter P (clients s)"
  note w = assms(1) [unfolded wf_server_def]
  have b: "set (ptrs b) \<subseteq> set (ptrs (msg_out_buf s))" "msg_fds b \<subseteq> msg_fds (msg_out_buf s)"
    using assms(2) by (auto simp: ptrs_def msg_fds_def)
  have q: "set (ptrs ?q) \<subseteq> set (ptrs (clients s))" "set (ids ?q) \<subseteq> set (ids (clients s))"
    "set (fds ?q) \<subseteq> set (fds (clients s))" "tcp_fds ?q \<subseteq> tcp_fds (clients s)"
    by (auto simp: ptrs_def ids_def fds_def tcp_fds_def)
  have "distinct (ptrs ?q)" "distinct (ids ?q)" "distinct (fds ?q)"
    using w by (simp_all add: ptrs_def ids_def fds_def distinct_map_filter)
  moreover have "msg_fds b \<inter> tcp_fds ?q = {}" using w b(2) q(4) by blast
  moreover have "\<forall>a \<in> set (ptrs ?q). a < next_addr s" "\<forall>a \<in> set (ptrs b). a < next_addr s"
    "\<forall>i \<in> set (ids ?q). unat i < unat (client_cnt s)" "sockfd_udp_welcome s \<notin> set (fds ?q)"
    using w b(1) q(1-3) by blast+
  ultimately show ?thesis using w assms(3,4) by (simp add: wf_server_def)
qed

lemma remove_own:
  assumes "wf_server s" and "n \<in> set (clients s)"
  shows "snd (ql_remove (n_id n) (clients s)) = filter (\<lambda>m. n_ptr m \<noteq> n_ptr n) (clients s)"
proof -
  have d: "distinct (ids (clients s))" "distinct (ptrs (clients s))"
    using assms(1) by (auto simp: wf_server_def)
  have "n_id m = n_id n \<longleftrightarrow> n_ptr m = n_ptr n" if "m \<in> set (clients s)" for m
    using that assms(2) d by (auto simp: ids_def ptrs_def distinct_map dest: inj_onD)
  with ql_remove_filter [OF d(1)] show ?thesis by (simp cong: filter_cong)
qed

lemma delete_client_ok:
  assumes "wf_server s" and "n \<in> set (clients s)"
  shows "\<exists>t. delete_client (Some (n_ptr n)) s = Ok t \<and> wf_server t \<and> (quiet s \<longrightarrow> shrinks s t) \<and>
     wire (os t) = wire (os s) \<and> send_fail (os t) = send_fail (os s) \<and>
     clients t = filter (\<lambda>m. n_ptr m \<noteq> n_ptr n) (clients s)"
proof -
  let ?f = "c_sockfd (n_data n)" and ?q = "filter (\<lambda>m. n_ptr m \<noteq> n_ptr n) (clients s)"
  have "distinct (ptrs (msg_out_buf s))" "poll_ok (poll s)" using assms(1) by (auto simp: wf_server_def)
  with purge_loop_ok [of "msg_out_buf s" "[]" "msg_out_buf s" "Suc (length (msg_out_buf s))" ?f]
    del_poll_fd_ok [of "poll s" ?f]
  obtain b found pl where
    b: "purge_loop (Suc (length (msg_out_buf s))) ?f (ql_first (msg_out_buf s)) (msg_out_buf s) = Ok b"
      "set b \<subseteq> set (msg_out_buf s)" "distinct (ptrs b)"
    and pl: "del_poll_fd ?f (poll s) = Ok (found, pl)" "poll_ok pl" "pl_cnt pl \<le> pl_cnt (poll s)"
    by auto
  let ?t = "s\<lparr>clients := ?q, msg_out_buf := b, poll := pl\<rparr>"
  have at: "ql_at (Some (n_ptr n)) (clients s) = Ok n"
    using assms by (auto simp: wf_server_def intro: ql_at_mem)
  have "delete_client (Some (n_ptr n)) s = Ok (if found then os_close ?f ?t else ?t)"
    using client_at_ok [OF assms] b(1) pl(1) at remove_own [OF assms]
    by (simp add: delete_client_def Let_def os_close_def)
  moreover have "wf_server ?t" using wf_server_trim [OF assms(1) b(2,3) pl(2)] .
  ultimately show ?thesis
    using pl(3) by (auto simp: shrinks_def os_close_def wf_server_def quiet_def members_def)
qed

lemma delete_client_safe:
  assumes "wf_server s" and "quiet s" and "n \<in> set (clients s)"
  shows "\<exists>t. delete_client (Some (n_ptr n)) s = Ok t \<and> shrinks s t \<and>
     clients t = filter (\<lambda>m. n_ptr m \<noteq> n_ptr n) (clients s)"
  using delete_client_ok [OF assms(1,3)] assms(2) by blast

definition closed_clients :: "client_t node \<Rightarrow> client_t queue \<Rightarrow> client_t queue" where
  "closed_clients n q =
     (if c_protocol (n_data n) = e_tcp then filter (\<lambda>m. n_ptr m \<noteq> n_ptr n) q
      else if c_state (n_data n) \<noteq> s_en then ql_map (n_ptr n) to_end q else q)"

lemma close_client_safe:
  assumes wf: "wf_server s" and q: "quiet s" and n: "n \<in> set (clients s)"
  shows "ends F (close_client (Some (n_ptr n)) s)
     (\<lambda>t. shrinks s t \<and> clients t = closed_clients n (clients s))"
proof (cases "c_state (n_data n) = s_en")
  case True
  with delete_client_safe [OF assms] client_at_ok [OF wf n] level_shrinks [OF level_refl [OF wf q]]
  show ?thesis by (auto simp: close_client.simps closed_clients_def)
next
  case False
  let ?p = "Some (n_ptr n)" and ?c = "n_data n" and ?s = "s\<lparr>clients := ql_map (n_ptr n) to_end (clients s)\<rparr>"
  let ?n = "n\<lparr>n_data := to_end (n_data n)\<rparr>"
  have u: "upd_client ?p to_end s = Ok ?s"
    using wf n by (simp add: upd_client_def ql_upd_def ql_at_mem wf_server_def)
  have l: "level s ?s"
    using upd_client_level [OF level_refl [OF wf q], of ?p to_end "{}"] n u
    by (auto simp: present_def)
  have n': "?n \<in> set (clients ?s)" using n by (auto simp: ql_map_def)
  have at: "client_at ?p ?s = Ok (to_end ?c)" using client_at_ok [OF levelD(1) [OF l] n'] by simp
  have fin: "ends F (andthen (client_at ?p t)
        (\<lambda>c2. if c_protocol c2 = e_tcp then delete_client ?p t else Ok t))
      (\<lambda>t. shrinks s t \<and> clients t = closed_clients n (clients s))" if "calm ?s t" for t
  proof -
    have t: "level s t" "?n \<in> set (clients t)" "clients t = clients ?s"
      using level_trans [OF l calm_level [OF that]] n' that by (auto simp: calm_def)
    have "client_at ?p t = Ok (to_end ?c)" using client_at_ok [OF levelD(1) [OF t(1)] t(2)] by simp
    moreover have "filter (\<lambda>m. n_ptr m \<noteq> n_ptr n) (ql_map (n_ptr n) to_end q) =
        filter (\<lambda>m. n_ptr m \<noteq> n_ptr n) q" for q
      by (induction q) (auto simp: ql_map_def)
    ultimately show ?thesis
      using delete_client_safe [OF levelD(1) levelD(2), OF t(1) t(1) t(2)] level_shrinks [OF t(1)] False t(3)
      by (auto simp: closed_clients_def intro: shrinks_trans)
  qed
  have "ends F (send_msg (c_protocol ?c) (c_sockfd ?c) (c_addr ?c) bye_msg False ?s) (calm ?s)"
    using send_client_calm [OF levelD(1) levelD(2) at, OF l l, where m = bye_msg and r = False and F = F]
    by (simp add: to_end_def)
  then have "ends F (andthen (send_msg (c_protocol ?c) (c_sockfd ?c) (c_addr ?c) bye_msg False ?s)
      (\<lambda>t. andthen (client_at ?p t) (\<lambda>c2. if c_protocol c2 = e_tcp then delete_client ?p t else Ok t)))
      (\<lambda>t. shrinks s t \<and> clients t = closed_clients n (clients s))"
    unfolding ends_simps by (rule ends_wp) (use fin in simp)
  with False client_at_ok [OF wf n] u show ?thesis by (simp add: close_client.simps)
qed

lemma close_present:
  assumes "level s0 s" and "present p s0"
  shows "ends F (close_client p s) (shrinks s0)"
proof -
  from level_present [OF assms] obtain n where n: "n \<in> set (clients s)" "p = Some (n_ptr n)"
    by (auto simp: present_def)
  with ends_wp [OF close_client_safe [OF levelD [OF assms(1)] n(1)], of "shrinks s0"]
    shrinks_trans [OF level_shrinks [OF assms(1)]] show ?thesis by blast
qed

section \<open>Handlers of one message\<close>

lemma calm_level_trans: "ends F r (calm s) \<Longrightarrow> level s0 s \<Longrightarrow> ends F r (level s0)"
  by (erule ends_wp) (blast intro: level_trans calm_level)

lemma send_level:
  assumes "level s0 s" and "client_at p s = Ok c" and "pr = c_protocol c"
  shows "may_send F m \<Longrightarrow> ends F (send_msg pr (c_sockfd c) (c_addr c) m r s) (level s0)"
    and "length e < 1400 \<Longrightarrow> ends F (send_error pr (c_sockfd c) (c_addr c) e s) (level s0)"
  unfolding send_error_def assms(3)
  by (rule calm_level_trans [OF send_client_calm [OF levelD [OF assms(1)] assms(2)] assms(1)];
      simp add: fits_error)+

lemma notify_level:
  assumes "level s0 s" and "present p s0"
  shows "may_send F m \<Longrightarrow> ends F (forward_msg_channel p m s) (level s0)"
    and "ends F (notify_join p s) (level s0)"
    and "ends F (notify_leave p s) (level s0)"
proof -
  from present_client_at [OF levelD(1) level_present, OF assms(1) assms] obtain c
    where "client_at p s = Ok c" by blast
  note f = forward_calm [OF levelD(1) levelD(2) this, OF assms(1) assms(1)]
  show "may_send F m \<Longrightarrow> ends F (forward_msg_channel p m s) (level s0)"
    "ends F (notify_join p s) (level s0)" "ends F (notify_leave p s) (level s0)"
    using calm_level_trans [OF f(1) assms(1)] calm_level_trans [OF f(2) assms(1)]
      calm_level_trans [OF f(3) assms(1)] by auto
qed

lemmas level_wp =
  read_level upd_client_level [THEN ends_wp] send_level(1) [THEN ends_wp]
  send_level(2) [THEN ends_wp] notify_level(1) [THEN ends_wp] notify_level(2) [THEN ends_wp]
  notify_level(3) [THEN ends_wp]

lemma check_state_level:
  "level s0 s \<Longrightarrow> present p s0 \<Longrightarrow>
     ends F (check_state_transition p m s) (\<lambda>(b, t). level s0 t)"
  by (auto simp: check_state_transition_def intro!: level_wp)

lemmas reply_sizes = snprintf_n_def MESSAGECONTENT_MAX_LENGTH_def reply_content_off_def
  set_reply_ref_id_def set_reply_result_def

lemma exec_auth_level:
  "level s0 s \<Longrightarrow> present p s0 \<Longrightarrow> data out = [] \<Longrightarrow>
     ends F (exec_auth p m out s) (\<lambda>(o1, t). level s0 t \<and> fits o1)"
  by (auto simp: exec_auth_def Let_def reply_sizes intro!: level_wp fits_reply)

lemma exec_join_level:
  "level s0 s \<Longrightarrow> present p s0 \<Longrightarrow> data out = [] \<Longrightarrow>
     ends F (exec_join p m out s) (\<lambda>(o1, t). level s0 t \<and> fits o1)"
  by (auto simp: exec_join_def Let_def reply_sizes intro!: level_wp fits_reply)

lemma exec_msg_level:
  "level s0 s \<Longrightarrow> present p s0 \<Longrightarrow> may_send F (m\<lparr>msg_type := e_msg\<rparr>) \<Longrightarrow> ends F (exec_msg p m s) (\<lambda>(o1, t). level s0 t)"
  by (auto simp: exec_msg_def Let_def intro!: level_wp)

lemma acknowledge_level:
  "level s0 s \<Longrightarrow> present p s0 \<Longrightarrow> ends F (acknowledge p m s) (\<lambda>(b, t). level s0 t)"
  by (auto simp: acknowledge_def intro!: level_wp)

lemma remove_msg_level:
  assumes "level s0 s" and "set b \<subseteq> set (msg_out_buf s)" and "distinct (ptrs b)"
  shows "level s0 (s\<lparr>msg_out_buf := b\<rparr>)"
proof -
  have "poll_ok (poll s)" using levelD(1) [OF assms(1)] by (simp add: wf_server_def)
  from wf_server_trim [OF levelD(1) [OF assms(1)] assms(2,3) this, of "\<lambda>n. True"]
  have "wf_server (s\<lparr>msg_out_buf := b\<rparr>)" by simp
  with assms(1) show ?thesis by (auto simp: level_def shrinks_def quiet_def members_def)
qed

lemma exec_confirm_eq:
  assumes d: "distinct (ptrs (msg_out_buf s))"
    and k: "ql_get (confirm_ref_id (data m)) (msg_out_buf s) = Some (n_ptr k)" "k \<in> set (msg_out_buf s)"
  defines "t \<equiv> s\<lparr>msg_out_buf := snd (ql_remove (confirm_ref_id (data m)) (msg_out_buf s))\<rparr>"
  shows "exec_confirm p m s = (if msg_type (n_data k) = e_bye then close_client p t else Ok t)"
proof -
  let ?i = "confirm_ref_id (data m)" and ?b = "msg_out_buf s" and ?g = "\<lambda>m. m\<lparr>is_confirmed := True\<rparr>"
  have "?i \<in> set (ids ?b)" using k(1) ql_get_None_iff [of ?i ?b] by simp
  from ql_remove_split [OF this] obtain xs n ys where n: "?b = xs @ n # ys"
    "ql_remove ?i ?b = (Some (n_ptr n), xs @ ys)" by blast
  with ql_remove_get [of ?i ?b] k(1) have "n_ptr k = n_ptr n" by simp
  with n d have "snd (ql_remove ?i (ql_map (n_ptr k) ?g ?b)) = snd (ql_remove ?i ?b)"
    by (simp add: ql_remove_map ql_map_absent)
  then show ?thesis
    using k ql_at_mem [OF k(2) d] ql_find_distinct [OF k(2) d]
    by (simp add: exec_confirm_def upd_msg_def msg_at_def ql_upd_def ql_at_def ql_find_map t_def Let_def)
qed

text \<open>
  The handlers that may close the client, for a postcondition \<open>Q\<close> that closing gives and that
  holds when nothing is closed.
\<close>

lemma exec_confirm_safe:
  assumes l: "level s0 s"
    and close: "\<And>t. level s0 t \<Longrightarrow> ends F (close_client p t) Q" and Q: "\<And>t. level s0 t \<Longrightarrow> Q t"
  shows "ends F (exec_confirm p m s) Q"
proof (cases "ql_get (confirm_ref_id (data m)) (msg_out_buf s)")
  case None
  with l Q show ?thesis by (simp add: exec_confirm_def)
next
  case (Some a)
  have d: "distinct (ptrs (msg_out_buf s))" using levelD(1) [OF l] by (simp add: wf_server_def)
  from ql_get_SomeD [OF Some] obtain k where "k \<in> set (msg_out_buf s)" "n_ptr k = a" by auto
  with exec_confirm_eq [OF d _ this(1), of m p] Some close Q
    remove_msg_level [OF l set_ql_remove distinct_ql_remove [OF d]] show ?thesis by simp
qed

lemma execute_msg_safe:
  assumes "level s0 s" and "present p s0" and msg: "msg_type m = e_msg \<Longrightarrow> may_send F m"
    and "\<And>t. level s0 t \<Longrightarrow> ends F (close_client p t) Q" and "\<And>t. level s0 t \<Longrightarrow> Q t"
  shows "ends F (execute_msg p m zero_msg s)
     (\<lambda>(b, o1, t). if is_ending m then Q t \<and> \<not> b else level s0 t \<and> (b \<longrightarrow> fits o1))"
proof -
  have "m\<lparr>msg_type := e_msg\<rparr> = m" if "msg_type m = e_msg" using that by (cases m) simp
  then have "may_send F (m\<lparr>msg_type := e_msg\<rparr>)" if "msg_type m = e_msg" using that msg by metis
  moreover
  have "ends F (exec_bye p s) Q"
    using assms by (auto simp: exec_bye_def intro!: level_wp split: option.split)
  moreover have "ends F (exec_confirm p m s) Q"
    using assms(1,4,5) by (rule exec_confirm_safe)
  ultimately show ?thesis
    using assms(1,2)
    by (cases "msg_type m")
       (auto simp: execute_msg_def fits_error is_ending_def intro!: level_wp exec_auth_level [THEN ends_wp]
          exec_join_level [THEN ends_wp] exec_msg_level [THEN ends_wp] elim!: ends_wp)
qed

lemma check_execute_safe:
  assumes l: "level s0 s" and p: "present p s0" and msg: "msg_type m = e_msg \<Longrightarrow> may_send F m"
    and close: "\<And>t. level s0 t \<Longrightarrow> ends F (close_client p t) Q" and Q: "\<And>t. level s0 t \<Longrightarrow> Q t"
  shows "ends F (check_execute p m s) (\<lambda>t. if is_ending m then Q t else level s0 t)"
proof -
  define P where "P = (\<lambda>t. if is_ending m then Q t else level s0 t)"
  have P: "level s0 t \<Longrightarrow> P t" for t using Q by (simp add: P_def)
  have exe: "ends F (andthen (execute_msg p m zero_msg t) (\<lambda>(answer, msg_out, s2).
      if answer then andthen (client_at p s2) (\<lambda>c.
        send_msg (c_protocol c) (c_sockfd c) (c_addr c) msg_out False s2) else Ok s2)) P" if "level s0 t" for t
    using p by (auto simp: P_def intro!: ends_wp [OF execute_msg_safe [OF that p msg close Q]] level_wp
        split: if_splits)
  have "ends F (if \<not> b then upd_client p (set_state s_er) t
      else andthen (execute_msg p m zero_msg t) (\<lambda>(answer, msg_out, s2).
        if answer then andthen (client_at p s2) (\<lambda>c.
          send_msg (c_protocol c) (c_sockfd c) (c_addr c) msg_out False s2) else Ok s2)) P"
    if "level s0 t" for b t
    using exe [OF that] ends_wp [OF upd_client_level [OF that p] P] by (cases b) simp_all
  then show ?thesis
    unfolding check_execute_def ends_simps(3) [of _ "check_state_transition p m s"] P_def [symmetric]
    by (intro ends_wp [OF check_state_level [OF l p]]) (simp only: case_prod_beta)
qed

lemma process_msg_rule:
  assumes l: "level s0 s" and p: "present p s0" and msg: "msg_type m = e_msg \<Longrightarrow> may_send F m"
    and close: "\<And>t. level s0 t \<Longrightarrow> ends F (close_client p t) Q" and Q: "\<And>t. level s0 t \<Longrightarrow> Q t"
  shows "ends F (process_msg p m s) Q"
proof -
  have finish: "ends F (andthen (client_at p t) (\<lambda>c. if c_state c = s_er
      then andthen (upd_client p to_end t) (close_client p) else Ok t)) Q" if "level s0 t" for t
    using that p close Q by (auto intro!: level_wp)
  have body: "ends F (andthen (check_execute p m t) (\<lambda>t. if is_ending m then Ok t
      else andthen (client_at p t) (\<lambda>c. if c_state c = s_er
      then andthen (upd_client p to_end t) (close_client p) else Ok t))) Q" if "level s0 t" for t
    unfolding ends_simps using check_execute_safe [OF that p msg close Q]
    by (rule ends_wp) (use finish in \<open>auto split: if_splits\<close>)
  have "ends F (if b then Ok t else if stop_flag t \<and> \<not> is_ending m then Ok t
      else andthen (client_at p t) (\<lambda>c. if c_state c = s_en \<and> \<not> is_ending m then Ok t
        else andthen (check_execute p m t) (\<lambda>t. if is_ending m then Ok t
      else andthen (client_at p t) (\<lambda>c. if c_state c = s_er
      then andthen (upd_client p to_end t) (close_client p) else Ok t)))) Q"
    if "level s0 t" for b t
    using that body Q [OF that] by (auto intro!: read_level [OF that p])
  then show ?thesis
    unfolding process_msg_def ends_simps
    by (intro ends_wp [OF acknowledge_level [OF l p]]) auto
qed

lemma process_msg_safe:
  "level s0 s \<Longrightarrow> present p s0 \<Longrightarrow> (msg_type m = e_msg \<Longrightarrow> may_send F m) \<Longrightarrow>
     ends F (process_msg p m s) (shrinks s0)"
  by (rule process_msg_rule) (auto intro: close_present level_shrinks)

section \<open>Receiving\<close>

text \<open>\<open>drains\<close> is \<open>shrinks\<close> without a promise about the inbox.\<close>

definition drains :: "server \<Rightarrow> server \<Rightarrow> bool" where
  "drains s t \<longleftrightarrow> shrinks (s\<lparr>os := (os s)\<lparr>inbox := inbox (os t)\<rparr>\<rparr>) t"

definition received :: "int \<Rightarrow> server \<Rightarrow> server" where
  "received f s = s\<lparr>os := (os s)\<lparr>inbox := (inbox (os s))(f := tl (inbox (os s) f))\<rparr>\<rparr>"

lemma drains_unfold:
  "drains s t \<longleftrightarrow> wf_server t \<and> quiet t \<and> members t \<subseteq> members s \<and>
     pl_cnt (poll t) \<le> pl_cnt (poll s) \<and>
     client_cnt t = client_cnt s \<and> stop_flag t = stop_flag s \<and> argv t = argv s \<and>
     sockfd_tcp_welcome t = sockfd_tcp_welcome s \<and> sockfd_udp_welcome t = sockfd_udp_welcome s \<and>
     exited t = exited s \<and> new_conns (os t) = new_conns (os s) \<and> new_socks (os t) = new_socks (os s)"
  by (simp add: drains_def shrinks_def members_def)

lemma drains_trans: "drains s t \<Longrightarrow> drains t u \<Longrightarrow> drains s u"
  by (auto simp: drains_unfold)

lemma shrinks_drains: "shrinks s t \<Longrightarrow> drains s t"
  by (simp add: drains_unfold shrinks_def)

lemma received_simps [simp]: "wf_server (received f s) = wf_server s" "quiet (received f s) = quiet s"
  "clients (received f s) = clients s" "present p (received f s) = present p s"
  "inbox (os (received f s)) f = tl (inbox (os s) f)"
  "sockfd_udp_welcome (received f s) = sockfd_udp_welcome s"
  by (simp_all add: received_def wf_server_def quiet_def present_def)

lemma drains_received: "wf_server s \<Longrightarrow> quiet s \<Longrightarrow> drains s (received f s)"
  unfolding drains_unfold by (simp add: members_def) (simp add: received_def)

lemma read_sock_received:
  "\<exists>n b a1. server_read_sock pr f a s = (n, b, a1, received f s) \<and>
     (n \<noteq> None \<longrightarrow> inbox (os s) f \<noteq> [] \<and> n = Some (length b) \<and>
       b = take STRING_MAX_LENGTH (fst (hd (inbox (os s) f))))"
  by (auto simp: server_read_sock_def received_def Let_def fun_upd_idem split: list.splits)

lemma parse_overflow: "parse pr b n m = Fault e \<Longrightarrow> e = BufOverflow"
  by (auto simp: parse_def parse_tcp_def split: if_splits)

text \<open>A packet that is read without a fault outside of \<open>F\<close>, and that may be forwarded.\<close>

definition packet_ok :: "fault set \<Rightarrow> transport_protocol_t \<Rightarrow> bytes \<Rightarrow> bool" where
  "packet_ok F pr bs \<longleftrightarrow> (let b = take STRING_MAX_LENGTH bs in
     ends F (parse pr b (length b) zero_msg) (\<lambda>(rc, m). rc = None \<longrightarrow> msg_type m = e_msg \<longrightarrow> may_send F m))"

lemma packet_ok_overflow [simp]: "packet_ok only_overflow pr bs"
proof -
  have "ends only_overflow (parse pr b n m) (\<lambda>x. True)" for b n m
    using parse_overflow [of pr b n m] by (cases "parse pr b n m") auto
  then show ?thesis unfolding packet_ok_def Let_def by (rule ends_wp) auto
qed

lemma set_errno_level: "level s0 s \<Longrightarrow> level s0 (set_errno e s)"
  by (auto simp: set_errno_def level_def shrinks_def wf_server_def quiet_def members_def)

lemma os_log_level: "level s0 s \<Longrightarrow> level s0 (os_log e s)"
  by (auto simp: os_log_def level_def shrinks_def wf_server_def quiet_def members_def)

text \<open>\<open>read_msg\<close> for a client that is in the queue, and for the welcome socket.\<close>

lemma get_client_by_fd_Some:
  "get_client_by_fd q f \<noteq> None \<longleftrightarrow> f \<in> set (fds q)"
  "get_client_by_fd q f = Some a \<Longrightarrow> \<exists>n \<in> set q. n_ptr n = a \<and> c_sockfd (n_data n) = f"
  by (induction q) (auto split: if_splits)

lemma send_error_level:
  assumes "level s0 s" and "pr = e_udp \<Longrightarrow> f \<notin> tcp_fds (clients s)" and "length e < 1400"
  shows "ends F (send_error pr f a e s) (level s0)"
  by (rule calm_level_trans [OF send_error_calm [OF levelD [OF assms(1)] assms(2,3)] assms(1)])

lemma tcp_fds_level: "level s0 s \<Longrightarrow> tcp_fds (clients s) = tcp_fds (clients s0)"
proof -
  assume "level s0 s"
  moreover have t: "tcp_fds r = (fst \<circ> snd) ` {x \<in> snd ` set (map identity r). snd (snd x) = e_tcp}" for r
    by (force simp: tcp_fds_def identity_def)
  ultimately show ?thesis unfolding t level_def by simp
qed

lemma read_msg_safe:
  assumes wf: "wf_server s" "quiet s" and free: "pr = e_udp \<Longrightarrow> f \<notin> tcp_fds (clients s)"
    and known: "pr = e_tcp \<Longrightarrow> f \<in> set (fds (clients s))"
    and ref: "ref = LocalAddr \<or> (\<exists>p. ref = ClientAddr p \<and> present p s)"
    and pk: "\<And>x. x \<in> set (inbox (os s) f) \<Longrightarrow> packet_ok F pr (fst x)"
  shows "ends F (read_msg pr f a ref zero_msg s) (\<lambda>(n, a1, m1, t).
     if n = None then shrinks (received f s) t
     else level (received f s) t \<and> inbox (os s) f \<noteq> [] \<and> (msg_type m1 = e_msg \<longrightarrow> may_send F m1))"
proof -
  let ?r = "received f s"
  obtain n b a1 where rs: "server_read_sock pr f a s = (n, b, a1, ?r)"
    "n \<noteq> None \<longrightarrow> inbox (os s) f \<noteq> [] \<and> n = Some (length b) \<and>
       b = take STRING_MAX_LENGTH (fst (hd (inbox (os s) f)))" using read_sock_received by blast
  have rd: "ends F (parse pr b (length b) zero_msg)
      (\<lambda>(rc, m). rc = None \<longrightarrow> msg_type m = e_msg \<longrightarrow> may_send F m)" if "n \<noteq> None"
    using that rs(2) pk [of "hd (inbox (os s) f)"] by (auto simp: packet_ok_def Let_def)
  have size: "n = None \<or> n = Some (length b) \<and> inbox (os s) f \<noteq> []" using rs(2) by blast
  have r: "level ?r ?r" using wf by (intro level_refl) auto
  have st: "ends F (store_addr ref a1 ?r) (level ?r)"
    using ref r by (auto simp: store_addr_def intro!: upd_client_level)
  have close: "ends F (close_client (get_client_by_fd (clients t) f) t) (shrinks ?r)"
    if t: "level ?r t" and "pr = e_tcp" for t
  proof -
    have "map identity (clients t) = map identity (clients s)" using t by (simp add: level_def)
    from arg_cong [OF this, of "map (fst \<circ> snd \<circ> snd)"] have "fds (clients t) = fds (clients s)"
      by (simp add: fds_def identity_def comp_def)
    with known that(2) get_client_by_fd_Some(1) obtain x where x: "get_client_by_fd (clients t) f = Some x"
      by force
    with get_client_by_fd_Some(2) have "present (Some x) t" by (fastforce simp: present_def)
    with x t have "ends F (close_client (get_client_by_fd (clients t) f) t) (shrinks t)"
      using close_present [OF level_refl [OF levelD]] by auto
    then show ?thesis by (rule ends_wp) (use level_shrinks [OF t] shrinks_trans in blast)
  qed
  have err: "ends F (send_error pr f a1 e (set_errno x t)) (shrinks ?r)"
    if "level ?r t" and "length e < 1400" for t e x
  proof -
    have "ends F (send_error pr f a1 e (set_errno x t)) (level ?r)"
      using tcp_fds_level [OF that(1)] free
      by (intro send_error_level set_errno_level that) (simp add: set_errno_def)
    then show ?thesis by (rule ends_wp) (rule level_shrinks)
  qed
  show ?thesis
    unfolding read_msg_def rs(1) prod.case ends_simps
    using close err size
    by (intro ends_wp [OF st]) (auto intro!: ends_wp [OF rd] os_log_level intro: level_shrinks
        split: option.splits)
qed

lemma drains_member:
  "drains s t \<Longrightarrow> m \<in> set (clients t) \<Longrightarrow> \<exists>k \<in> set (clients s). identity m = identity k"
  unfolding drains_unfold members_def by blast

lemma present_after:
  assumes "wf_server s" and "n \<in> set (clients s)" and "drains s t"
    and "get_client_by_fd (clients t) (c_sockfd (n_data n)) \<noteq> None"
  shows "present (Some (n_ptr n)) t"
proof -
  from assms(4) get_client_by_fd_Some(1) [of "clients t" "c_sockfd (n_data n)"]
  obtain m where m: "m \<in> set (clients t)" "c_sockfd (n_data m) = c_sockfd (n_data n)"
    by (auto simp: fds_def)
  from drains_member [OF assms(3) m(1)] obtain k where
    k: "k \<in> set (clients s)" "identity m = identity k" by blast
  with m(2) have "c_sockfd (n_data k) = c_sockfd (n_data n)" by (simp add: identity_def)
  with assms(1,2) k(1) have "k = n" by (auto simp: wf_server_def fds_def distinct_map dest: inj_onD)
  with k m show ?thesis by (auto simp: present_def identity_def intro: bexI [of _ m])
qed

lemma sock_loop_safe:
  assumes "wf_server s" and "n \<in> set (clients s)" and "drains s t"
    and "length (inbox (os t) (c_sockfd (n_data n))) < k"
    and pk: "\<And>x. x \<in> set (inbox (os t) (c_sockfd (n_data n))) \<Longrightarrow> packet_ok F (c_protocol (n_data n)) (fst x)"
  shows "ends F (sock_loop k (c_sockfd (n_data n)) (Some (n_ptr n)) t) (drains s)"
  using assms(3-5)
proof (induction k arbitrary: t)
  case (Suc k)
  let ?f = "c_sockfd (n_data n)" and ?p = "Some (n_ptr n)"
  show ?case
  proof (cases "get_client_by_fd (clients t) ?f = None")
    case True
    with Suc.prems show ?thesis by (simp add: sock_loop.simps)
  next
    case False
    have pr: "present ?p t" using present_after [OF assms(1,2) Suc.prems(1) False] .
    then obtain m where
      m: "m \<in> set (clients t)" "n_ptr m = n_ptr n" by (auto simp: present_def)
    have wt: "wf_server t" "quiet t" using Suc.prems(1) by (auto simp: drains_unfold)
    from drains_member [OF Suc.prems(1) m(1)] obtain k' where
      "k' \<in> set (clients s)" "identity m = identity k'" by blast
    with assms(1,2) m(2) have "k' = n"
      by (auto simp: wf_server_def ptrs_def identity_def distinct_map dest: inj_onD)
    with \<open>identity m = identity k'\<close> have f: "c_sockfd (n_data m) = ?f" "c_protocol (n_data m) = c_protocol (n_data n)"
      by (simp_all add: identity_def)
    have at: "client_at ?p t = Ok (n_data m)" using client_at_ok [OF wt(1) m(1)] m(2) by simp
    have dr: "drains s (received ?f t)"
      using drains_trans [OF Suc.prems(1) drains_received [OF wt]] .
    have round: "ends F (andthen (process_msg ?p msg u) (\<lambda>s2. sock_loop k ?f ?p s2)) (drains s)"
      if u: "level (received ?f t) u" "inbox (os t) ?f \<noteq> []" "msg_type msg = e_msg \<longrightarrow> may_send F msg" for msg u
    proof -
      have "ends F (process_msg ?p msg u) (shrinks (received ?f t))"
        using pr u(3) by (intro process_msg_safe u(1)) simp_all
      moreover have "ends F (sock_loop k ?f ?p v) (drains s)"
        if v: "shrinks (received ?f t) v" for v
      proof (rule Suc.IH)
        show "drains s v" using drains_trans [OF dr shrinks_drains [OF v]] .
        have i: "inbox (os v) ?f = tl (inbox (os t) ?f)" using v by (simp add: shrinks_def)
        with u(2) Suc.prems(2) show "length (inbox (os v) ?f) < k"
          by (cases "inbox (os t) ?f") auto
        show "packet_ok F (c_protocol (n_data n)) (fst x)" if "x \<in> set (inbox (os v) ?f)" for x
          using that i u(2) Suc.prems(3) by (cases "inbox (os t) ?f") auto
      qed
      ultimately show ?thesis unfolding ends_simps by (rule ends_wp)
    qed
    have "ends F (read_msg (c_protocol (n_data m)) (c_sockfd (n_data m)) (c_addr (n_data m))
        (ClientAddr ?p) zero_msg t) (\<lambda>(x, a1, m1, u). if x = None then shrinks (received ?f t) u
          else level (received ?f t) u \<and> inbox (os t) ?f \<noteq> [] \<and> (msg_type m1 = e_msg \<longrightarrow> may_send F m1))"
      unfolding f(1) [symmetric] using own_fd_free [OF wt(1) m(1)] m f Suc.prems(3)
      by (intro read_msg_safe wt) (auto simp: fds_def pr intro: rev_image_eqI)
    then have "ends F (read_msg (c_protocol (n_data m)) (c_sockfd (n_data m)) (c_addr (n_data m))
        (ClientAddr ?p) zero_msg t) (\<lambda>x. ends F (case x of (buf_size, a, msg, s1) \<Rightarrow>
            if buf_size = None then Ok s1
            else andthen (process_msg ?p msg s1) (\<lambda>s2. sock_loop k ?f ?p s2)) (drains s))"
      by (rule ends_wp) (use round drains_trans [OF dr shrinks_drains] in
          \<open>auto split: if_splits simp del: ends_simps(3)\<close>)
    with False at show ?thesis by (auto simp: sock_loop.simps)
  qed
qed simp

lemma process_msg_sock_safe:
  assumes "wf_server s" and "quiet s"
    and pk: "\<And>n x. n \<in> set (clients s) \<Longrightarrow> c_sockfd (n_data n) = f \<Longrightarrow> x \<in> set (inbox (os s) f) \<Longrightarrow>
      packet_ok F (c_protocol (n_data n)) (fst x)"
  shows "ends F (process_msg_sock f s) (drains s)"
proof (cases "get_client_by_fd (clients s) f")
  case None
  have "poll_ok (poll s)" using assms(1) by (simp add: wf_server_def)
  from del_poll_fd_ok [OF this, of f] None assms show ?thesis
    by (auto simp: process_msg_sock_def drains_unfold set_errno_def os_close_def wf_server_def
        quiet_def members_def Let_def)
next
  case (Some a)
  from get_client_by_fd_Some(2) [OF Some] obtain n where
    n: "n \<in> set (clients s)" "n_ptr n = a" "c_sockfd (n_data n) = f" by blast
  have "drains s s" using shrinks_drains level_shrinks level_refl assms by blast
  from sock_loop_safe [OF assms(1) n(1) this] pk Some n show ?thesis
    by (simp add: process_msg_sock_def)
qed

end
