(* ===== verification/Demo.thy ===== *)
theory Demo
  imports Sending
begin

text \<open>
  A small server state on which the theorems are applied: four TCP and UDP clients, two of them
  in the default channel, one alone in a channel and one not yet authorized, and one UDP message
  that waits for its confirmation.
\<close>

definition demo_addr :: "16 word \<Rightarrow> sockaddr_in" where
  "demo_addr p = \<lparr>sin_family = AF_INET, sin_port = p, sin_addr = 0x7F000001\<rparr>"

definition demo_client :: "int \<Rightarrow> transport_protocol_t \<Rightarrow> string \<Rightarrow> string \<Rightarrow> client_t" where
  "demo_client f pr name ch = set_state s_op (set_channel_id ch (set_display_name name
     (set_username name (new_client f pr (demo_addr (word_of_int f))))))"

definition ann :: "client_t node" where
  "ann = \<lparr>n_ptr = 1, n_id = 0, n_data = demo_client 5 e_tcp ''ann'' ''default''\<rparr>"
definition bob :: "client_t node" where
  "bob = \<lparr>n_ptr = 2, n_id = 1, n_data = demo_client 6 e_tcp ''bob'' ''default''\<rparr>"
definition cid :: "client_t node" where
  "cid = \<lparr>n_ptr = 3, n_id = 2, n_data = demo_client 7 e_udp ''cid'' ''music''\<rparr>"
definition dan :: "client_t node" where
  "dan = \<lparr>n_ptr = 4, n_id = 3, n_data = new_client 8 e_tcp (demo_addr 8)\<rparr>"

definition demo_msg :: "msg_t node" where
  "demo_msg = \<lparr>n_ptr = 5, n_id = 9, n_data = zero_msg\<lparr>msg_type := e_msg, msg_id := 9, timeout := 250,
     m_sockfd := 7, m_addr := demo_addr 7\<rparr>\<rparr>"

definition demo_fds :: pollfd_list_t where
  "demo_fds = \<lparr>pl_size = 8, pl_cnt = 4,
     pl_list = map (\<lambda>f. \<lparr>fd = f, events_in = True, revents_in = False\<rparr>) [3, 4, 5, 6, 7, 8, 0, 0],
     pl_protocol = [Some e_tcp, Some e_udp, Some e_tcp, Some e_tcp, Some e_udp, Some e_tcp, None, None]\<rparr>"

definition calm_os :: os_t where
  "calm_os = \<lparr>send_fail = [], alloc_fail = [], call_fail = [], new_socks = [], new_conns = [],
     inbox = (\<lambda>f. []), wire = [], closed = [], out_log = []\<rparr>"

definition demo_server :: server where
  "demo_server = (init_server calm_os default_argv)\<lparr>clients := [ann, bob, cid, dan],
     msg_out_buf := [demo_msg], poll := demo_fds, client_cnt := 4, msg_cnt := 10,
     sockfd_tcp_welcome := 3, sockfd_udp_welcome := 4, next_addr := 6\<rparr>"

lemmas demo_nodes = ann_def bob_def cid_def dan_def demo_msg_def

lemma demo_client_simps [simp]:
  "c_sockfd (demo_client f pr nm ch) = f" "c_protocol (demo_client f pr nm ch) = pr"
  "c_state (demo_client f pr nm ch) = s_op" "c_addr (demo_client f pr nm ch) = demo_addr (word_of_int f)"
  "c_names (demo_client f pr nm ch) = buf_write 40 ch (buf_write 20 nm (buf_write 0 nm []))"
  "msg_count (demo_client f pr nm ch) = 0" "msg_in_confirmed (demo_client f pr nm ch) = replicate 32 0"
  by (simp_all add: demo_client_def set_state_def set_channel_id_def set_display_name_def set_username_def
      new_client_def MAX_CONFIRMED_MSG_def)

lemma demo_server_simps [simp]:
  "clients demo_server = [ann, bob, cid, dan]" "msg_out_buf demo_server = [demo_msg]"
  "stop_flag demo_server = False" "os demo_server = calm_os" "poll demo_server = demo_fds"
  "argv demo_server = default_argv" "msg_cnt demo_server = 10" "client_cnt demo_server = 4"
  "sockfd_udp_welcome demo_server = 4" "exited demo_server = None" "next_addr demo_server = 6"
  by (simp_all add: demo_server_def init_server_def)

lemma demo_fds_ok: "poll_ok demo_fds"
  by (simp add: poll_ok_def demo_fds_def free_slots_def eval_nat_numeral)

lemma demo_wf: "wf_server demo_server"
  by (simp add: wf_server_def demo_nodes demo_fds_ok new_client_def)

lemma demo_quiet: "quiet demo_server"
  by (simp add: quiet_def calm_os_def)

end
