(* ===== verification/Safety_Loop.thy ===== *)
theory Safety_Loop
  imports Safety Demo
begin

text \<open>
  Memory safety of the main loop: new connections, timeouts, the interrupt handler and the
  shutdown, and the theorem for whole runs.
\<close>

section \<open>New connections\<close>

text \<open>
  The kernel hands out descriptors that are not open.  A descriptor is open while a client or a
  buffered message has it, and so are the welcome sockets.
\<close>

definition fresh_fd :: "server \<Rightarrow> int \<Rightarrow> bool" where
  "fresh_fd s f \<longleftrightarrow> 0 < f \<and> f \<notin> set (fds (clients s)) \<and> f \<notin> msg_fds (msg_out_buf s) \<and>
     f \<noteq> sockfd_udp_welcome s"

definition fresh_fds :: "server \<Rightarrow> bool" where
  "fresh_fds s \<longleftrightarrow> (\<forall>f \<in> fst ` set (new_conns (os s)). f = -1 \<or> fresh_fd s f) \<and>
     (\<forall>f \<in> set (new_socks (os s)). f \<le> 0 \<or> fresh_fd s f \<and> f \<notin> fst ` set (new_conns (os s)))"

lemma add_poll_safe:
  assumes "wf_server s" and "quiet s" and "f \<noteq> 0"
  shows "\<exists>t. add_poll f pr s = Ok (None, t) \<and> wf_server t \<and> quiet t \<and>
     (\<exists>pl al. t = s\<lparr>poll := pl, os := (os s)\<lparr>alloc_fail := al\<rparr>\<rparr> \<and> pl_cnt pl = pl_cnt (poll s) + 1)"
proof -
  let ?al = "tl (tl (alloc_fail (os s)))" and ?a = "alloc_fail (os s)"
  have q: "True \<notin> set ?a" "True \<notin> set (tl ?a)" "True \<notin> set ?al"
    using assms(2) quiet_tl [of ?a] quiet_tl [of "tl ?a"] by (auto simp: quiet_def)
  have "poll_ok (poll s)" using assms(1) by (simp add: wf_server_def)
  from add_poll_fd_ok [OF this assms(3), of pr] obtain pl where
    pl: "add_poll_fd True True f pr (poll s) = Ok (None, pl)" "poll_ok pl" "pl_cnt pl = pl_cnt (poll s) + 1"
    by blast
  let ?t = "s\<lparr>poll := pl, os := (os s)\<lparr>alloc_fail := ?al\<rparr>\<rparr>"
  have "add_poll f pr s = Ok (None, ?t)"
    using pl(1) pop_quiet [OF q(1)] pop_quiet [OF q(2)]
    by (simp add: add_poll_def os_alloc_def)
  moreover have "wf_server ?t" "quiet ?t"
    using assms(1,2) pl(2) q(3) by (auto simp: wf_server_def quiet_def)
  ultimately show ?thesis using pl(3) by blast
qed

definition joined :: "server \<Rightarrow> server \<Rightarrow> bool" where
  "joined s t \<longleftrightarrow> wf_server t \<and> quiet t \<and> unat (client_cnt t) \<le> unat (client_cnt s) + 1 \<and>
     stop_flag t = stop_flag s \<and> exited t = exited s \<and>
     sockfd_udp_welcome t = sockfd_udp_welcome s"

lemma register_client_safe:
  assumes wf: "wf_server s" "quiet s" and f: "0 < f" "f \<notin> set (fds (clients s))" "f \<noteq> sockfd_udp_welcome s"
    and m: "pr = e_tcp \<Longrightarrow> f \<notin> msg_fds (msg_out_buf s)" and cnt: "unat (client_cnt s) < 65536"
  shows "\<exists>x t. register_client pr f a s = Ok (Some x, t) \<and> present (Some x) t \<and> joined s t \<and>
     fds (clients t) = fds (clients s) @ [f] \<and> msg_out_buf t = msg_out_buf s \<and> msg_cnt t = msg_cnt s \<and>
     wire (os t) = wire (os s) \<and> new_socks (os t) = new_socks (os s) \<and> inbox (os t) = inbox (os s) \<and>
     map n_data (clients t) = map n_data (clients s) @ [new_client f pr a]"
proof -
  have "f \<noteq> 0" using f(1) by simp
  from add_poll_safe [OF wf this, of pr] obtain u pl al where
    u: "add_poll f pr s = Ok (None, u)" "wf_server u" "quiet u"
      "u = s\<lparr>poll := pl, os := (os s)\<lparr>alloc_fail := al\<rparr>\<rparr>" by blast
  let ?n = "\<lparr>n_ptr = next_addr s, n_id = ucast (client_cnt s), n_data = new_client f pr a\<rparr>"
  let ?t = "u\<lparr>os := (os u)\<lparr>alloc_fail := tl al\<rparr>, next_addr := next_addr s + 1,
    client_cnt := client_cnt s + 1, clients := clients s @ [?n]\<rparr>"
  have al: "True \<notin> set al" "pop al = (False, tl al)" "True \<notin> set (tl al)"
    using u(3,4) pop_quiet [of al] quiet_tl [of al] by (auto simp: quiet_def)
  have r: "register_client pr f a s = Ok (Some (next_addr s), ?t)"
    using u(1,4) al(2) by (simp add: register_client_def new_item_def os_alloc_def ql_add_def)
  have id: "unat (ucast (client_cnt s) :: id_t) = unat (client_cnt s)"
    using cnt by (simp add: unsigned_ucast_eq take_bit_nat_eq_self_iff)
  have suc: "unat (client_cnt s + 1) = unat (client_cnt s) + 1"
    using cnt by (simp add: unat_word_ariths)
  have "wf_server ?t"
    using u(2,4) wf(1) f m cnt id suc
    by (auto simp: wf_server_def new_client_def less_SucI dest: tcp_fds_subset [THEN subsetD])
  with r u(3,4) al(3) suc show ?thesis
    by (auto simp: joined_def quiet_def present_def new_client_def)
qed

text \<open>What \<open>server_accept\<close> leaves alone, and the descriptor it returns.\<close>

definition same_core :: "server \<Rightarrow> server \<Rightarrow> bool" where
  "same_core s t \<longleftrightarrow> clients t = clients s \<and> msg_out_buf t = msg_out_buf s \<and> poll t = poll s \<and>
     client_cnt t = client_cnt s \<and> stop_flag t = stop_flag s \<and> exited t = exited s \<and>
     sockfd_udp_welcome t = sockfd_udp_welcome s \<and> next_addr t = next_addr s \<and>
     msg_cnt t = msg_cnt s \<and> wire (os t) = wire (os s) \<and>
     send_fail (os t) = send_fail (os s) \<and> alloc_fail (os t) = alloc_fail (os s) \<and>
     inbox (os t) = inbox (os s)"

lemma same_core_wf: "same_core s t \<Longrightarrow> wf_server t = wf_server s" "same_core s t \<Longrightarrow> quiet t = quiet s"
  by (auto simp: same_core_def wf_server_def quiet_def)

lemma accept_core:
  assumes "server_accept pr a0 s = (rc, f, a, t)"
  shows "same_core s t"
    and "pr = e_tcp \<Longrightarrow> new_socks (os t) = new_socks (os s)"
    and "rc = None \<Longrightarrow> pr = e_tcp \<Longrightarrow> f \<noteq> -1 \<and> (f, a) \<in> set (new_conns (os s))"
    and "rc = None \<Longrightarrow> pr = e_udp \<Longrightarrow> 0 < f \<and> f \<in> set (new_socks (os s))"
  using assms
  by (auto simp: server_accept_def set_errno_def os_call_def os_socket_def Let_def same_core_def
      split: transport_protocol_t.splits prod.splits if_splits list.splits)

lemma tcp_polling_safe:
  assumes wf: "wf_server s" "quiet s" and fr: "fresh_fds s" and cnt: "unat (client_cnt s) < 65536"
  shows "\<exists>t. tcp_polling s = Ok t \<and> joined s t \<and>
     (\<forall>f \<in> set (new_socks (os t)). f \<le> 0 \<or> f \<notin> set (fds (clients t)) \<and> f \<noteq> sockfd_udp_welcome t)"
proof -
  obtain rc f a u where ac: "server_accept e_tcp zero_addr s = (rc, f, a, u)"
    by (cases "server_accept e_tcp zero_addr s")
  note core = accept_core [OF ac]
  have q: "wf_server u" "quiet u" using same_core_wf [OF core(1)] wf by auto
  show ?thesis
  proof (cases rc)
    case None
    have f: "f \<noteq> -1" "f \<in> fst ` set (new_conns (os s))" using core(3) [OF None] by force+
    have "fresh_fd s f" using fr f(1,2) by (auto simp: fresh_fds_def)
    then obtain x t where t: "register_client e_tcp f a u = Ok (Some x, t)" "joined u t"
      "fds (clients t) = fds (clients s) @ [f]" "new_socks (os t) = new_socks (os s)"
      using register_client_safe [OF q, of f e_tcp a] cnt core(1,2)
      by (auto simp: fresh_fd_def same_core_def)
    have "\<forall>g \<in> set (new_socks (os t)). g \<le> 0 \<or> g \<notin> set (fds (clients t)) \<and> g \<noteq> sockfd_udp_welcome t"
      using fr f(2) t(2-4) core(1) by (auto simp: fresh_fds_def fresh_fd_def joined_def same_core_def)
    moreover have "joined s t" "tcp_polling s = Ok t"
      using t(1,2) ac None core(1) by (simp_all add: joined_def tcp_polling_def same_core_def)
    ultimately show ?thesis by blast
  next
    case (Some e)
    with ac have "tcp_polling s = Ok u" by (simp add: tcp_polling_def)
    moreover have "joined s u" using q core(1) by (simp add: joined_def same_core_def)
    moreover have "\<forall>g \<in> set (new_socks (os u)). g \<le> 0 \<or> g \<notin> set (fds (clients u)) \<and> g \<noteq> sockfd_udp_welcome u"
      using fr core(1,2) by (auto simp: fresh_fds_def fresh_fd_def same_core_def)
    ultimately show ?thesis by blast
  qed
qed

lemma joined_shrinks: "joined s t \<Longrightarrow> shrinks t u \<Longrightarrow> joined s u"
  by (auto simp: joined_def shrinks_def)

lemma joined_refl: "wf_server s \<Longrightarrow> quiet s \<Longrightarrow> joined s s"
  by (simp add: joined_def)

lemma fds_level: "level s t \<Longrightarrow> fds (clients t) = fds (clients s)"
proof -
  assume "level s t"
  then have "map identity (clients t) = map identity (clients s)" by (simp add: level_def)
  from arg_cong [OF this, of "map (fst \<circ> snd \<circ> snd)"] show ?thesis
    by (simp add: fds_def identity_def comp_def)
qed

lemma udp_polling_safe:
  assumes wf: "wf_server s" "quiet s" and cnt: "unat (client_cnt s) < 65536"
    and fr: "\<forall>f \<in> set (new_socks (os s)). f \<le> 0 \<or> f \<notin> set (fds (clients s)) \<and> f \<noteq> sockfd_udp_welcome s"
    and pk: "\<And>x. x \<in> set (inbox (os s) (sockfd_udp_welcome s)) \<Longrightarrow> packet_ok F e_udp (fst x)"
  shows "ends F (udp_polling s) (joined s)"
proof -
  obtain rc f a s1 where ac: "server_accept e_udp zero_addr s = (rc, f, a, s1)"
    by (cases "server_accept e_udp zero_addr s")
  note core = accept_core [OF ac]
  have q: "wf_server s1" "quiet s1" using same_core_wf [OF core(1)] wf by auto
  show ?thesis
  proof (cases rc)
    case None
    let ?w = "sockfd_udp_welcome s"
    let ?r = "received ?w s1"
    have f: "0 < f" "f \<notin> set (fds (clients s))" "f \<noteq> ?w" using core(4) [OF None] fr by force+
    have w: "?w \<notin> tcp_fds (clients s)" using wf(1) tcp_fds_subset by (auto simp: wf_server_def)
    have r: "joined s ?r" using q core(1) by (simp add: joined_def same_core_def) (simp add: received_def)
    have known: "ends F (send_error e_udp f ca e t) (joined s)"
      if t: "level ?r t" and "length e < 1400" for t ca e
    proof -
      have "f \<notin> tcp_fds (clients t)"
        using f(2) tcp_fds_level [OF t] tcp_fds_subset [of "clients s"] core(1) by (auto simp: same_core_def)
      with that have "ends F (send_error e_udp f ca e t) (level ?r)" by (intro send_error_level) auto
      then show ?thesis by (rule ends_wp) (use joined_shrinks [OF r level_shrinks] in blast)
    qed
    have fresh: "ends F (andthen (register_client e_udp f ca t) (\<lambda>(client, s3).
        case client of None \<Rightarrow> Ok s3 | Some x \<Rightarrow> process_msg client msg s3)) (joined s)"
      if t: "level ?r t" and m: "msg_type msg = e_msg \<Longrightarrow> may_send F msg" for t ca msg
    proof -
      have "client_cnt t = client_cnt s" "sockfd_udp_welcome t = ?w" "stop_flag t = stop_flag s"
        "exited t = exited s"
        using t core(1) by (auto simp: level_def shrinks_def received_def same_core_def)
      note t' = this
      then obtain x u where u: "register_client e_udp f ca t = Ok (Some x, u)" "present (Some x) u" "joined t u"
        using register_client_safe [OF levelD [OF t] f(1), of e_udp ca] f fds_level [OF t] cnt core(1)
        by (auto simp: same_core_def)
      have j: "joined s u" using u(3) t' by (auto simp: joined_def)
      have "ends F (process_msg (Some x) msg u) (shrinks u)"
        using u m by (intro process_msg_safe level_refl) (auto simp: joined_def)
      then have "ends F (process_msg (Some x) msg u) (joined s)"
        by (rule ends_wp) (use joined_shrinks [OF j] in blast)
      with u(1) show ?thesis by simp
    qed
    have rd: "ends F (read_msg e_udp ?w zero_addr LocalAddr zero_msg s1) (\<lambda>(n, a1, m1, t).
       if n = None then shrinks ?r t else level ?r t \<and> inbox (os s1) ?w \<noteq> [] \<and> (msg_type m1 = e_msg \<longrightarrow> may_send F m1))"
      using q w core(1) pk by (intro read_msg_safe) (auto simp: same_core_def)
    have close: "joined s (os_close f t)" if "shrinks ?r t" for t
      using joined_shrinks [OF r that] by (auto simp: joined_def os_close_def quiet_def wf_server_def)
    have "get_udp_socket s1 = ?w" using core(1) by (simp add: get_udp_socket_def same_core_def)
    with ac None show ?thesis
      using known fresh close unfolding udp_polling_def
      by (auto simp del: ends_simps(3) simp: ends_simps(3) [of _ "read_msg a b c d e g" for a b c d e g]
          split: if_splits intro!: ends_wp [OF rd])
  next
    case (Some e)
    with ac q core(1) show ?thesis by (simp add: udp_polling_def joined_def same_core_def)
  qed
qed

section \<open>Which faults the input can cause\<close>

text \<open>
  \<open>input_ok F u s\<close>: the packets that wait cause no fault outside of \<open>F\<close>.  If \<open>u\<close> is false then no
  client uses UDP, nothing waits for a confirmation and no datagram waits on the welcome socket.
\<close>

definition protocols :: "bool \<Rightarrow> transport_protocol_t set" where
  "protocols u = {pr. pr = e_tcp \<or> u}"

definition input_ok :: "fault set \<Rightarrow> bool \<Rightarrow> server \<Rightarrow> bool" where
  "input_ok F u s \<longleftrightarrow> (\<forall>f. \<forall>x \<in> set (inbox (os s) f). \<forall>pr \<in> protocols u. packet_ok F pr (fst x)) \<and>
     (u \<or> tcp_only s \<and> inbox (os s) (get_udp_socket s) = [])"

lemma input_ok_overflow [simp]: "input_ok only_overflow True s"
  by (simp add: input_ok_def)

lemma input_ok_simps [simp]:
  "input_ok F u (s\<lparr>poll := pl\<rparr>) = input_ok F u s" "input_ok F u (s\<lparr>errno := e\<rparr>) = input_ok F u s"
  "input_ok F u (s\<lparr>msg_cnt := n\<rparr>) = input_ok F u s" "input_ok F u (s\<lparr>next_addr := k\<rparr>) = input_ok F u s"
  "input_ok F u (s\<lparr>stop_flag := b\<rparr>) = input_ok F u s" "input_ok F u (s\<lparr>exited := c\<rparr>) = input_ok F u s"
  "input_ok F u (s\<lparr>stop_timeout := d\<rparr>) = input_ok F u s"
  by (simp_all add: input_ok_def tcp_only_def get_udp_socket_def)

lemma input_ok_used: "input_ok F u s \<Longrightarrow> os_used (os s) sys \<Longrightarrow> input_ok F u (s\<lparr>os := sys\<rparr>)"
proof -
  assume s: "input_ok F u s" "os_used (os s) sys"
  then have "suffix (inbox sys f) (inbox (os s) f)" for f by (simp add: os_used_def)
  then have sub: "set (inbox sys f) \<subseteq> set (inbox (os s) f)" for f by (rule set_mono_suffix)
  then have "inbox (os s) f = [] \<Longrightarrow> inbox sys f = []" for f by (metis list.set(1) set_empty subset_empty)
  moreover have "\<forall>f. \<forall>x \<in> set (inbox sys f). \<forall>pr \<in> protocols u. packet_ok F pr (fst x)"
    using s(1) sub unfolding input_ok_def by blast
  ultimately show ?thesis using s(1) by (auto simp: input_ok_def get_udp_socket_def tcp_only_def)
qed

interpretation input: update_inv "input_ok F u" "protocols u" for F u
proof unfold_locales
  show "c_protocol c \<in> protocols u" if "input_ok F u s" "client_at p s = Ok c" for F u s p c
    using that by (auto simp: input_ok_def protocols_def tcp_only_def dest!: client_at_node)
qed (auto simp: input_ok_used,
     auto simp: input_ok_def tcp_only_def get_udp_socket_def protocols_def ql_map_def keeps_socket_def
       dest: set_ql_remove [THEN subsetD])

interpretation input: main_inv "input_ok F u" "protocols u" for F u
proof unfold_locales
  show "e_udp \<in> protocols u \<or> inbox (os s) (get_udp_socket s) = []" if "input_ok F u s" for F u s
    using that by (auto simp: input_ok_def protocols_def)
  show "input_ok F u (s\<lparr>next_addr := Suc (next_addr s), client_cnt := cnt, clients := clients s @
      [\<lparr>n_ptr = next_addr s, n_id = i, n_data = new_client f pr x\<rparr>]\<rparr>)"
    if "input_ok F u s" "pr \<in> protocols u" for F u s pr cnt i f x
    using that by (simp add: input_ok_def tcp_only_def get_udp_socket_def protocols_def new_client_def) blast
  show "input_ok F u (s\<lparr>clients := []\<rparr>)" if "input_ok F u s" for F u s
    using that by (auto simp: input_ok_def tcp_only_def get_udp_socket_def)
qed (simp_all add: input.process_msg_I input.I_updated keeps_socket_def, simp add: protocols_def)

section \<open>The round for readable descriptors\<close>

lemma udp_polling_input:
  assumes wf: "wf_server s" "quiet s" and cnt: "unat (client_cnt s) < 65536"
    and fr: "\<forall>f \<in> set (new_socks (os s)). f \<le> 0 \<or> f \<notin> set (fds (clients s)) \<and> f \<noteq> sockfd_udp_welcome s"
    and i: "input_ok F u s"
  shows "ends F (udp_polling s) (\<lambda>t. joined s t \<and> input_ok F u t)"
proof (rule ends_conj_UNIV [OF _ input.udp_polling_I [OF i]], cases u)
  case True
  then show "ends F (udp_polling s) (joined s)"
    using i by (intro udp_polling_safe wf cnt fr) (auto simp: input_ok_def protocols_def)
next
  case False
  obtain rc f a t where ac: "server_accept e_udp zero_addr s = (rc, f, a, t)"
    by (cases "server_accept e_udp zero_addr s")
  note core = accept_core(1) [OF ac]
  have "inbox (os t) (get_udp_socket t) = []"
    using False i core by (simp add: input_ok_def same_core_def get_udp_socket_def)
  then have "udp_polling s = Ok (if rc = None then os_close f t else t)"
    by (simp add: udp_polling_def ac input.no_datagram split: option.split)
  then show "ends F (udp_polling s) (joined s)"
    using wf core by (auto simp: joined_def same_core_def wf_server_def quiet_def os_close_def)
qed

lemma poll_loop_safe:
  assumes "wf_server s" and "quiet s" and "input_ok F u s" and "2 + pl_cnt (poll s) - i < k"
  shows "ends F (poll_loop k i s) (drains s)"
  using assms
proof (induction k arbitrary: i s)
  case (Suc k)
  have same: "drains s s" using shrinks_drains level_shrinks level_refl Suc.prems(1,2) by blast
  show ?case
  proof (cases "i < 2 + pl_cnt (poll s)")
    case True
    then have "i < length (pl_list (poll s))"
      using Suc.prems(1) by (auto simp: wf_server_def poll_ok_def)
    then have at: "pl_at (poll s) i = Ok (pl_list (poll s) ! i)" by (simp add: pl_at_def)
    have rest: "ends F (poll_loop k (Suc i) t) (drains s)" if t: "drains s t \<and> input_ok F u t" for t
    proof -
      have "ends F (poll_loop k (Suc i) t) (drains t)"
        using t Suc.prems(4) True by (intro Suc.IH) (auto simp: drains_unfold)
      then show ?thesis by (rule ends_wp) (use drains_trans t in blast)
    qed
    have "packet_ok F (c_protocol (n_data n)) (fst x)"
      if "n \<in> set (clients s)" "x \<in> set (inbox (os s) f)" for n x f
      using that Suc.prems(3) by (auto simp: input_ok_def protocols_def tcp_only_def)
    then have sock: "ends F (process_msg_sock f s) (\<lambda>t. drains s t \<and> input_ok F u t)" for f
      by (intro ends_conj_UNIV process_msg_sock_safe input.process_msg_sock_I Suc.prems(1-3))
    with True at rest same Suc.prems(3) show ?thesis
      by (auto simp: poll_loop.simps WELCOME_SOCK_COUNT_def intro: ends_wp [OF sock])
  next
    case False
    with same show ?thesis by (simp add: poll_loop.simps WELCOME_SOCK_COUNT_def)
  qed
qed simp

text \<open>What a round keeps: the invariant, as long as the program has not exited.\<close>

definition sound :: "server \<Rightarrow> bool" where
  "sound s \<longleftrightarrow> exited s = None \<longrightarrow> wf_server s"

lemma poll_ready_safe:
  assumes wf: "wf_server s" "quiet s" "fresh_fds s" and cnt: "unat (client_cnt s) < 65535"
    and inp: "input_ok F u s"
  shows "ends F (poll_ready s) sound"
proof -
  have at: "\<exists>e. pl_at (poll t) j = Ok e" if "wf_server t" "j < 2" for t j
    using that by (auto simp: pl_at_def wf_server_def poll_ok_def)
  obtain e0 where e0: "pl_at (poll s) 0 = Ok e0" using at [OF wf(1), of 0] by auto
  have loop: "ends F (poll_loop (Suc (pl_cnt (poll t))) WELCOME_SOCK_COUNT t) sound"
    if "joined v t \<and> input_ok F u t" for t v
  proof -
    have "ends F (poll_loop (Suc (pl_cnt (poll t))) WELCOME_SOCK_COUNT t) (drains t)"
      using that by (intro poll_loop_safe) (auto simp: joined_def WELCOME_SOCK_COUNT_def)
    then show ?thesis by (rule ends_wp) (simp add: drains_unfold sound_def)
  qed
  have udp: "ends F (andthen (pl_at (poll t) 1) (\<lambda>e1.
      andthen (if revents_in e1 then udp_polling t else Ok t) (\<lambda>s2.
        poll_loop (Suc (pl_cnt (poll s2))) WELCOME_SOCK_COUNT s2))) sound"
    if t: "joined s t" "\<forall>f \<in> set (new_socks (os t)). f \<le> 0 \<or>
      f \<notin> set (fds (clients t)) \<and> f \<noteq> sockfd_udp_welcome t" "input_ok F u t" for t
  proof -
    have q: "wf_server t" "quiet t" "unat (client_cnt t) < 65536" using t(1) cnt by (auto simp: joined_def)
    obtain e1 where "pl_at (poll t) 1 = Ok e1" using at [OF q(1), of 1] by auto
    with loop [OF conjI [OF joined_refl [OF q(1,2)] t(3)]] show ?thesis
      by (auto intro: ends_wp [OF udp_polling_input [OF q t(2,3)] loop])
  qed
  have "\<exists>t. (if revents_in e0 then tcp_polling s else Ok s) = Ok t \<and> joined s t \<and> input_ok F u t \<and>
      (\<forall>f \<in> set (new_socks (os t)). f \<le> 0 \<or> f \<notin> set (fds (clients t)) \<and> f \<noteq> sockfd_udp_welcome t)"
  proof (cases "revents_in e0")
    case True
    then show ?thesis
      using tcp_polling_safe [OF wf] cnt ends_OkD [OF input.tcp_polling_I [OF inp input.PR_tcp]] by auto
  next
    case False
    with joined_refl [OF wf(1,2)] wf(3) inp show ?thesis by (auto simp: fresh_fds_def fresh_fd_def)
  qed
  with e0 udp show ?thesis unfolding poll_ready_def by fastforce
qed

section \<open>Timeouts\<close>

text \<open>The pointers in \<open>clnt_dstr\<close>: NULL, or distinct UDP clients.\<close>

definition dstr_ok :: "ptr list \<Rightarrow> client_t queue \<Rightarrow> bool" where
  "dstr_ok d q \<longleftrightarrow> distinct (filter (\<lambda>p. p \<noteq> None) d) \<and>
     (\<forall>p \<in> set d. p = None \<or> (\<exists>n \<in> set q. p = Some (n_ptr n) \<and> c_protocol (n_data n) = e_udp))"

lemma in_dstr_eq:
  assumes "wf_server s" and "\<forall>p \<in> set d. p = None \<or> (\<exists>n \<in> set (clients s). p = Some (n_ptr n))"
  shows "in_dstr f d s = Ok (\<exists>n \<in> set (clients s). Some (n_ptr n) \<in> set d \<and> c_sockfd (n_data n) = f)"
  using assms(2)
proof (induction d)
  case (Cons p d)
  have same: "m = n" if "m \<in> set (clients s)" "n \<in> set (clients s)" "n_ptr m = n_ptr n" for m n
    using that assms(1) by (auto simp: wf_server_def ptrs_def distinct_map dest: inj_onD)
  show ?case
  proof (cases p)
    case None
    with Cons show ?thesis by auto
  next
    case (Some a)
    with Cons.prems obtain n where n: "n \<in> set (clients s)" "p = Some (n_ptr n)" by auto
    with Cons client_at_ok [OF assms(1) n(1)] same show ?thesis by (auto intro: bexI [of _ n]) 
  qed
qed simp

lemma upd_msg_calm:
  assumes wf: "wf_server s" "quiet s" and n: "n \<in> set (msg_out_buf s)"
    and g: "\<And>m. m_sockfd (g m) = m_sockfd m"
  shows "\<exists>t. upd_msg (Some (n_ptr n)) g s = Ok t \<and> calm s t \<and>
     ptrs (msg_out_buf t) = ptrs (msg_out_buf s) \<and> msg_at (Some (n_ptr n)) t = Ok (g (n_data n))"
proof -
  let ?b = "ql_map (n_ptr n) g (msg_out_buf s)" and ?t = "s\<lparr>msg_out_buf := ql_map (n_ptr n) g (msg_out_buf s)\<rparr>"
  have d: "distinct (ptrs (msg_out_buf s))" using wf(1) by (simp add: wf_server_def)
  have "upd_msg (Some (n_ptr n)) g s = Ok ?t" using ql_at_mem [OF n d]
    by (simp add: upd_msg_def ql_upd_def)
  moreover have "msg_fds (ql_map (n_ptr n) g b) = msg_fds b" for b
    by (induction b) (auto simp: ql_map_def g)
  then have "calm s ?t" using wf by (auto simp: calm_def wf_server_def quiet_def)
  moreover have "msg_at (Some (n_ptr n)) ?t = Ok (g (n_data n))"
    using ql_find_distinct [OF n d] by (simp add: msg_at_def ql_at_def ql_find_map)
  ultimately show ?thesis by simp
qed

lemma msg_at_node:
  "msg_at p s = Ok m \<Longrightarrow> \<exists>n \<in> set (msg_out_buf s). p = Some (n_ptr n) \<and> m = n_data n"
  by (auto simp: msg_at_def andthen_Ok_iff ql_at_Ok_iff dest: ql_find_SomeD)

definition ticked :: "server \<Rightarrow> server \<Rightarrow> bool" where
  "ticked s t \<longleftrightarrow> calm s t \<and> ptrs (msg_out_buf t) = ptrs (msg_out_buf s)"

lemma ticked_trans: "ticked s t \<Longrightarrow> ticked t u \<Longrightarrow> ticked s u"
  by (auto simp: ticked_def intro: calm_trans)

lemma ticked_node:
  assumes "ticked s t" and "n \<in> set (msg_out_buf s)"
  obtains m where "m \<in> set (msg_out_buf t)" "n_ptr m = n_ptr n"
proof -
  have "n_ptr n \<in> set (ptrs (msg_out_buf t))" using assms by (simp add: ticked_def ptrs_def)
  then show ?thesis using that by (auto simp: ptrs_def)
qed

lemma upd_msg_ticked:
  assumes "ticked s0 s" and "n \<in> set (msg_out_buf s0)" and "\<And>m. m_sockfd (g m) = m_sockfd m"
  shows "ends F (upd_msg (Some (n_ptr n)) g s) (ticked s0)"
proof -
  obtain m where m: "m \<in> set (msg_out_buf s)" "n_ptr m = n_ptr n"
    using ticked_node [OF assms(1,2)] by blast
  have "calm s0 s" using assms(1) by (simp add: ticked_def)
  with upd_msg_calm [OF calmD(1,2) m(1), of s0 s0 g] assms m(2) show ?thesis
    by (auto simp: ticked_def intro: calm_trans)
qed

lemma dstr_add:
  assumes wf: "wf_server s" and d: "dstr_ok d (clients s)" and m: "m \<in> set (msg_out_buf s)"
    and new: "\<not> (\<exists>n \<in> set (clients s). Some (n_ptr n) \<in> set d \<and> c_sockfd (n_data n) = m_sockfd (n_data m))"
  shows "dstr_ok (d @ [get_client_by_fd (clients s) (m_sockfd (n_data m))]) (clients s)"
proof (cases "get_client_by_fd (clients s) (m_sockfd (n_data m))")
  case None
  with d show ?thesis by (auto simp: dstr_ok_def)
next
  case (Some a)
  from get_client_by_fd_Some(2) [OF Some] obtain n where
    n: "n \<in> set (clients s)" "n_ptr n = a" "c_sockfd (n_data n) = m_sockfd (n_data m)" by blast
  have "msg_fds (msg_out_buf s) \<inter> tcp_fds (clients s) = {}" using wf by (simp add: wf_server_def)
  moreover have "m_sockfd (n_data m) \<in> msg_fds (msg_out_buf s)" using m by (simp add: msg_fds_def)
  moreover have "c_sockfd (n_data n) \<in> tcp_fds (clients s)" if "c_protocol (n_data n) = e_tcp"
    using that n(1) by (simp add: tcp_fds_def)
  ultimately have "c_protocol (n_data n) \<noteq> e_tcp" using n(3) by auto
  then have "c_protocol (n_data n) = e_udp" by (cases "c_protocol (n_data n)") auto
  moreover have "Some a \<notin> set d" using new n by auto
  ultimately show ?thesis using d Some n by (auto simp: dstr_ok_def)
qed

lemma timeout_item_safe:
  assumes wf: "wf_server s" "quiet s" and n: "n \<in> set (msg_out_buf s)" and d: "dstr_ok d (clients s)"
  shows "ends only_overflow (timeout_item iv cap (Some (n_ptr n)) d s)
     (\<lambda>(d1, t). ticked s t \<and> dstr_ok d1 (clients t))"
proof -
  let ?p = "Some (n_ptr n)"
  let ?g = "\<lambda>m. m\<lparr>timeout := timeout m - word_of_int iv\<rparr>"
  from upd_msg_calm [OF wf n, of ?g] obtain s1 where
    s1: "upd_msg ?p ?g s = Ok s1" "ticked s s1" "msg_at ?p s1 = Ok (?g (n_data n))"
    by (auto simp: ticked_def)
  have c: "wf_server s1" "quiet s1" "clients s1 = clients s" using s1(2) by (auto simp: ticked_def calm_def)
  from msg_at_node [OF s1(3)] obtain m where
    m: "m \<in> set (msg_out_buf s1)" "n_data m = ?g (n_data n)" by auto
  have "msg_fds (msg_out_buf s1) \<inter> tcp_fds (clients s1) = {}" using c(1) by (simp add: wf_server_def)
  moreover have "m_sockfd (n_data m) \<in> msg_fds (msg_out_buf s1)" using m(1) by (simp add: msg_fds_def)
  ultimately have f: "m_sockfd (n_data n) \<notin> tcp_fds (clients s1)" using m(2) by auto
  have retry: "ends only_overflow (andthen (send_msg e_udp (m_sockfd (n_data n)) a x True s1) (\<lambda>s2.
      andthen (upd_msg ?p (\<lambda>m. m\<lparr>retry_count := retry_count m + 1, timeout := udp_timeout (argv s2)\<rparr>) s2)
        (\<lambda>s3. Ok (d, s3)))) (\<lambda>(d1, t). ticked s t \<and> dstr_ok d1 (clients t))" for a x
  proof -
    have "ends only_overflow (send_msg e_udp (m_sockfd (n_data n)) a x True s1) (ticked s)"
      using ends_wp [OF send_msg_calm [OF c(1,2) f]] s1(2)
      by (auto simp: ticked_def intro!: ends_wp [OF send_msg_calm [OF c(1,2) f]] intro: calm_trans)
    moreover have "dstr_ok d (clients t)" if "ticked s t" for t using that d by (simp add: ticked_def calm_def)
    ultimately show ?thesis
      by (auto intro!: ends_wp [OF upd_msg_ticked [OF _ n]] elim!: ends_wp)
  qed
  have dstr: "in_dstr f d s1 = Ok (\<exists>n \<in> set (clients s1). Some (n_ptr n) \<in> set d \<and> c_sockfd (n_data n) = f)" for f
    using d c by (intro in_dstr_eq) (auto simp: dstr_ok_def)
  show ?thesis
    using retry s1 d c dstr_add [OF c(1) _ m(1), of d] m(2)
    by (auto simp: timeout_item_def dstr simp del: ends_simps(3))
qed

lemma timeout_loop_safe:
  assumes "wf_server s" and "quiet s" and "dstr_ok d (clients s)" and "msg_out_buf s = xs @ ys"
    and "length ys < k"
  shows "ends only_overflow (timeout_loop k iv cap (ql_first ys) d s)
     (\<lambda>(d1, t). ticked s t \<and> dstr_ok d1 (clients t))"
  using assms
proof (induction k arbitrary: s d xs ys)
  case (Suc k)
  show ?case
  proof (cases ys)
    case Nil
    with Suc.prems show ?thesis by (simp add: timeout_loop.simps ticked_def calm_refl)
  next
    case (Cons n zs)
    have n: "n \<in> set (msg_out_buf s)" using Suc.prems(4) Cons by simp
    have rest: "ends only_overflow (andthen (ql_next (Some (n_ptr n)) (msg_out_buf t))
        (\<lambda>item'. timeout_loop k iv cap item' d1 t)) (\<lambda>(d2, u). ticked s u \<and> dstr_ok d2 (clients u))"
      if t: "ticked s t" "dstr_ok d1 (clients t)" for d1 t
    proof -
      have tc: "wf_server t" "quiet t" using t(1) by (auto simp: ticked_def calm_def)
      have "map n_ptr (msg_out_buf t) = map n_ptr xs @ n_ptr n # map n_ptr zs"
        using t(1) Suc.prems(4) Cons by (simp add: ticked_def ptrs_def)
      then obtain xs' m zs' where t': "msg_out_buf t = xs' @ m # zs'" "n_ptr m = n_ptr n"
        "map n_ptr zs' = map n_ptr zs" by (auto simp: map_eq_append_conv map_eq_Cons_conv)
      have "ql_next (Some (n_ptr n)) (msg_out_buf t) = Ok (ql_first zs')"
        using ql_next_split [OF _ t'(1)] tc(1) t'(2) by (simp add: wf_server_def)
      moreover have "length zs' < k" using arg_cong [OF t'(3), of length] Suc.prems(5) Cons by simp
      then have "ends only_overflow (timeout_loop k iv cap (ql_first zs') d1 t)
          (\<lambda>(d2, u). ticked t u \<and> dstr_ok d2 (clients u))"
        using t' by (intro Suc.IH [of t d1 "xs' @ [m]"] tc t(2)) auto
      then have "ends only_overflow (timeout_loop k iv cap (ql_first zs') d1 t)
          (\<lambda>(d2, u). ticked s u \<and> dstr_ok d2 (clients u))"
        by (rule ends_wp) (use ticked_trans [OF t(1)] in auto)
      ultimately show ?thesis by simp
    qed
    show ?thesis
      using timeout_item_safe [OF Suc.prems(1,2) n Suc.prems(3), of iv cap] rest
      by (auto simp: Cons timeout_loop.simps simp del: ends_simps(3)
          simp: ends_simps(3) [of _ "timeout_item a b c e g" for a b c e g] elim!: ends_wp)
  qed
qed simp

text \<open>The clients remembered are closed or deleted; the others stay where they are.\<close>

lemma dstr_keep:
  assumes "dstr_ok ps (clients s)" and "\<And>n. n \<in> set (clients s) \<Longrightarrow> Some (n_ptr n) \<in> set ps \<Longrightarrow>
    \<exists>m \<in> set q. identity m = identity n"
  shows "dstr_ok ps q"
  using assms unfolding dstr_ok_def identity_def by fastforce

lemma destroy_loop_safe:
  assumes "shrinks s0 s" and "dstr_ok ps (clients s)"
  shows "ends F (destroy_loop ps s) (shrinks s0)"
  using assms
proof (induction ps arbitrary: s)
  case (Cons p ps)
  note s = Cons.prems(1)
  have q: "wf_server s" "quiet s" using shrinksD [OF s] .
  have tail: "dstr_ok ps (clients s)" using Cons.prems(2) by (auto simp: dstr_ok_def split: if_splits)
  have rest: "ends F (destroy_loop ps t) (shrinks s0)"
    if "shrinks s t" "dstr_ok ps (clients t)" for t
    using shrinks_trans [OF s that(1)] that(2) by (rule Cons.IH)
  show ?case
  proof (cases p)
    case None
    with rest [OF level_shrinks [OF level_refl [OF q]] tail] show ?thesis by simp
  next
    case (Some a)
    with Cons.prems(2) obtain n where n: "n \<in> set (clients s)" "p = Some (n_ptr n)"
      "c_protocol (n_data n) = e_udp" and new: "p \<notin> set ps" by (auto simp: dstr_ok_def)
    have at: "client_at p s = Ok (n_data n)" using client_at_ok [OF q(1) n(1)] n(2) by simp
    have keep: "dstr_ok ps (clients t)" if "level s t" for t
    proof (rule dstr_keep [OF tail])
      fix m assume "m \<in> set (clients s)"
      then have "identity m \<in> set (map identity (clients t))" using that by (simp add: level_def)
      then show "\<exists>k \<in> set (clients t). identity k = identity m" by auto
    qed
    have "ends F (andthen (close_client p s) (notify_leave p)) (\<lambda>t. level s t)"
      if "c_state (n_data n) \<noteq> s_en"
    proof -
      have "map identity (ql_map (n_ptr n) to_end (clients s)) = map identity (clients s)"
        by (auto simp: ql_map_def identity_def)
      with close_client_safe [OF q n(1), where F = F] n(2,3) that
      have "ends F (close_client p s) (level s)"
        by (auto simp: closed_clients_def level_def elim!: ends_wp)
      then show ?thesis unfolding ends_simps
        by (rule ends_wp) (use n in \<open>auto intro!: notify_level simp: present_def\<close>)
    qed
    then have "ends F (andthen (close_client p s) (notify_leave p))
        (\<lambda>t. ends F (destroy_loop ps t) (shrinks s0))" if "c_state (n_data n) \<noteq> s_en"
      using that rest [OF level_shrinks keep] by (auto elim!: ends_wp simp del: ends_simps(3))
    moreover obtain t where t: "delete_client p s = Ok t" "shrinks s t"
      "clients t = filter (\<lambda>m. n_ptr m \<noteq> n_ptr n) (clients s)"
      using delete_client_safe [OF q n(1)] n(2) by blast
    moreover have "dstr_ok ps (clients t)"
      using t(3) new n(2) by (intro dstr_keep [OF tail]) auto
    ultimately show ?thesis using at Some n(2) rest [of t] by auto
  qed
qed simp

lemma udp_timeout_safe:
  assumes "wf_server s" and "quiet s"
  shows "ends only_overflow (do_udp_timeout iv s) (shrinks s)"
proof -
  have "ends only_overflow (timeout_loop (Suc (length (msg_out_buf s))) iv (length (clients s))
      (ql_first (msg_out_buf s)) [] s) (\<lambda>(d1, t). ticked s t \<and> dstr_ok d1 (clients t))"
    using assms by (intro timeout_loop_safe [where xs = "[]"]) (auto simp: dstr_ok_def)
  moreover have "ends only_overflow (destroy_loop d1 t) (shrinks s)"
    if "ticked s t" "dstr_ok d1 (clients t)" for d1 t
    using that assms level_shrinks [OF calm_level] by (intro destroy_loop_safe) (auto simp: ticked_def)
  ultimately show ?thesis unfolding do_udp_timeout_def by (auto elim!: ends_wp)
qed

section \<open>Interrupt and shutdown\<close>

lemma sigint_loop_rule:
  assumes "wf_server s" and "quiet s" and "clients s = xs @ ys" and "length ys < k" and "P xs s"
    and step: "\<And>s n xs ys. wf_server s \<Longrightarrow> quiet s \<Longrightarrow> clients s = xs @ n # ys \<Longrightarrow> P xs s \<Longrightarrow>
      c_state (n_data n) \<noteq> s_en \<Longrightarrow> ends F (close_client (Some (n_ptr n)) s)
        (\<lambda>t. wf_server t \<and> quiet t \<and> (\<exists>xs'. clients t = xs' @ ys \<and> P xs' t))"
    and skip: "\<And>s n xs ys. clients s = xs @ n # ys \<Longrightarrow> P xs s \<Longrightarrow> c_state (n_data n) = s_en \<Longrightarrow>
      P (xs @ [n]) s"
  shows "ends F (sigint_loop k (ql_first ys) s) (\<lambda>t. P (clients t) t)"
  using assms(1-5)
proof (induction ys arbitrary: k s xs)
  case Nil
  then show ?case by (cases k) (auto simp: sigint_loop.simps)
next
  case (Cons n ys)
  obtain j where k: "k = Suc j" "length ys < j" using Cons.prems(4) by (cases k) auto
  have n: "n \<in> set (clients s)" using Cons.prems(3) by simp
  have nxt: "ql_next (Some (n_ptr n)) (clients s) = Ok (ql_first ys)"
    using Cons.prems(1,3) by (auto simp: wf_server_def intro!: ql_next_split)
  have "ends F (if c_state (n_data n) \<noteq> s_en then close_client (Some (n_ptr n)) s else Ok s)
      (\<lambda>t. wf_server t \<and> quiet t \<and> (\<exists>xs'. clients t = xs' @ ys \<and> P xs' t))"
    using step [OF Cons.prems(1-3,5)] skip [OF Cons.prems(3,5)] Cons.prems(1-3) by auto
  then have "ends F (if c_state (n_data n) \<noteq> s_en then close_client (Some (n_ptr n)) s else Ok s)
      (\<lambda>t. ends F (sigint_loop j (ql_first ys) t) (\<lambda>t. P (clients t) t))"
    by (rule ends_wp) (use Cons.IH k(2) in blast)
  then show ?case using nxt client_at_ok [OF Cons.prems(1) n] by (simp add: k(1) sigint_loop.simps)
qed

text \<open>Closing a client of the unvisited part.\<close>

lemma closed_split:
  assumes "distinct (ptrs (xs @ n # ys))" and "c_state (n_data n) \<noteq> s_en"
  shows "closed_clients n (xs @ n # ys) =
     (if c_protocol (n_data n) = e_tcp then xs else xs @ [n\<lparr>n_data := to_end (n_data n)\<rparr>]) @ ys"
proof -
  have a: "n_ptr n \<notin> set (ptrs xs)" "n_ptr n \<notin> set (ptrs ys)" using assms(1) by auto
  show ?thesis
    using filter_absent [OF a(1)] filter_absent [OF a(2)] ql_map_absent [OF a(1), of to_end]
      ql_map_absent [OF a(2), of to_end] assms(2)
    by (auto simp: closed_clients_def ql_map_def)
qed

lemma close_split:
  assumes "wf_server s" and "quiet s" and "clients s = xs @ n # ys" and "c_state (n_data n) \<noteq> s_en"
  shows "ends F (close_client (Some (n_ptr n)) s) (\<lambda>t. shrinks s t \<and> clients t =
     (if c_protocol (n_data n) = e_tcp then xs else xs @ [n\<lparr>n_data := to_end (n_data n)\<rparr>]) @ ys)"
proof -
  have "distinct (ptrs (xs @ n # ys))" using assms(1,3) by (simp add: wf_server_def)
  from closed_split [OF this assms(4)] close_client_safe [OF assms(1,2), of n F] assms(3)
  show ?thesis by simp
qed

lemma sigint_loop_safe:
  assumes "wf_server s" and "quiet s" and "clients s = xs @ ys" and "length ys < k"
  shows "ends F (sigint_loop k (ql_first ys) s) (shrinks s)"
proof (rule sigint_loop_rule [where P = "\<lambda>xs. shrinks s", OF assms])
  show "shrinks s s" using assms by (simp add: level_shrinks level_refl)
  fix t n xs ys
  assume t: "wf_server t" "quiet t" "clients t = xs @ n # ys" "shrinks s t" "c_state (n_data n) \<noteq> s_en"
  show "ends F (close_client (Some (n_ptr n)) t)
      (\<lambda>u. wf_server u \<and> quiet u \<and> (\<exists>xs'. clients u = xs' @ ys \<and> shrinks s u))"
    by (rule ends_wp [OF close_split [OF t(1-3,5)]]) (use t(4) shrinksD shrinks_trans in blast)
qed

lemma sigint_handler_safe:
  assumes "wf_server s" and "quiet s"
  shows "ends F (sigint_handler s) (shrinks (s\<lparr>stop_flag := True\<rparr>))"
  using assms unfolding sigint_handler_def Let_def
  by (intro sigint_loop_safe [where xs = "[]"]) (auto simp: wf_server_def quiet_def)

lemma close_fds_closed:
  "\<forall>i \<in> set js. i < length (pl_list (poll s)) \<Longrightarrow> close_fds js s = Ok (s\<lparr>os := (os s)\<lparr>closed :=
     closed (os s) @ filter (\<lambda>f. f \<noteq> 0) (map (\<lambda>i. fd (pl_list (poll s) ! i)) js)\<rparr>\<rparr>)"
  by (induction js arbitrary: s) (auto simp: pl_at_def os_close_def)

lemma map_nth_upt: "b \<le> length xs \<Longrightarrow> map (\<lambda>i. g (xs ! i)) [a..<b] = map g (take (b - a) (drop a xs))"
  by (intro nth_equalityI) auto

lemma stop_closes:
  assumes "poll_ok (poll s)"
  shows "\<exists>t. stop code s = Ok t \<and> exited t = Some code \<and> clients t = [] \<and>
     closed (os t) = closed (os s) @ [get_tcp_socket s, get_udp_socket s] @ filter (\<lambda>f. f \<noteq> 0) (polled (poll s))"
proof -
  let ?s = "server_close (s\<lparr>clients := [], msg_out_buf := []\<rparr>)"
  have p: "poll ?s = poll s" by (simp add: server_close_def os_close_def)
  define b where "b = pl_cnt (poll s) + WELCOME_SOCK_COUNT"
  have b: "b \<le> length (pl_list (poll s))" using assms by (simp add: poll_ok_def b_def WELCOME_SOCK_COUNT_def)
  then have "\<forall>i \<in> set [WELCOME_SOCK_COUNT..<b]. i < length (pl_list (poll ?s))" by (simp add: p)
  from close_fds_closed [OF this] show ?thesis
    by (simp add: stop_def p b_def [symmetric] map_nth_upt [OF b])
       (simp add: b_def polled_def server_close_def os_close_def get_tcp_socket_def get_udp_socket_def)
qed

lemma wf_server_stop_timeout [simp]: "wf_server (s\<lparr>stop_timeout := n\<rparr>) = wf_server s"
  "quiet (s\<lparr>stop_timeout := n\<rparr>) = quiet s"
  by (simp_all add: wf_server_def quiet_def)

lemma udp_timeout_input:
  assumes "wf_server s" and "quiet s" and "input_ok F u s" and "u \<longrightarrow> BufOverflow \<in> F"
  shows "ends F (do_udp_timeout iv s) (shrinks s)"
proof (cases u)
  case True
  then show ?thesis using ends_weaken [OF udp_timeout_safe [OF assms(1,2)]] assms(4) by simp
next
  case False
  then have "msg_out_buf s = []" using assms(3) by (simp add: input_ok_def tcp_only_def)
  then show ?thesis using level_shrinks [OF level_refl [OF assms(1,2)]]
    by (simp add: do_udp_timeout_def timeout_loop.simps ql_first_def)
qed

text \<open>The round without events, given what \<open>udp_timeout\<close> does.\<close>

lemma poll_idle_rule:
  assumes "wf_server s" and t: "\<And>n. ends F (do_udp_timeout iv (s\<lparr>stop_timeout := n\<rparr>)) (shrinks (s\<lparr>stop_timeout := n\<rparr>))"
  shows "ends F (poll_idle iv s) sound"
proof -
  have "poll_ok (poll s)" using assms(1) by (simp add: wf_server_def)
  from stop_closes [OF this, of 0]
  have "ends F (stop 0 s) sound" by (auto simp: sound_def)
  moreover have "ends F (do_udp_timeout iv (s\<lparr>stop_timeout := n\<rparr>)) sound" for n
    using t by (rule ends_wp) (simp add: sound_def shrinks_def)
  ultimately show ?thesis by (simp add: poll_idle_def)
qed

lemma poll_idle_safe:
  assumes "wf_server s" and "quiet s" and "input_ok F u s" and "u \<longrightarrow> BufOverflow \<in> F"
  shows "ends F (poll_idle iv s) sound"
  using assms by (intro poll_idle_rule udp_timeout_input) auto

lemma wf_server_poll: "wf_server s \<Longrightarrow> wf_server (s\<lparr>poll := set_revents rs (poll s)\<rparr>)"
  by (auto simp: wf_server_def set_revents_ok)

lemma main_ready_safe:
  assumes "wf_server s" and "quiet s" and "fresh_fds s" and "unat (client_cnt s) < 65535" and "input_ok F u s"
  shows "ends F (main_iter (Ready rs) s) sound"
proof -
  have "ends F (poll_ready (s\<lparr>poll := set_revents rs (poll s)\<rparr>)) sound"
    using assms by (intro poll_ready_safe wf_server_poll)
      (auto simp: quiet_def fresh_fds_def fresh_fd_def)
  then show ?thesis by (simp add: main_iter_def)
qed

text \<open>
  One round: with \<open>u\<close> it may overflow a buffer, without UDP and with well-formed input
  (\<open>F = {}\<close>) it returns.
\<close>

lemma main_iter_safe:
  assumes "wf_server s" and "quiet s" and "fresh_fds s" and "unat (client_cnt s) < 65535"
    and "input_ok F u s" and "u \<longrightarrow> BufOverflow \<in> F"
  shows "ends F (main_iter ev s) sound"
proof (cases ev)
  case (Ready rs)
  with main_ready_safe [OF assms(1-5)] show ?thesis by simp
next
  case Idle
  have "ends F (poll_idle (poll_timeout s) (s\<lparr>poll := set_revents [] (poll s)\<rparr>)) sound"
    using assms by (intro poll_idle_safe wf_server_poll) (auto simp: quiet_def)
  with Idle show ?thesis by (simp add: main_iter_def)
next
  case Interrupted
  have "ends UNIV (sigint_handler s) (input_ok F u)"
    unfolding sigint_handler_def Let_def by (rule input.sigint_loop_I) (simp add: assms(5))
  from ends_conj_UNIV [OF sigint_handler_safe [OF assms(1,2)] this]
  have "ends F (sigint_handler s) (\<lambda>t. ends F (poll_idle (poll_timeout s) t) sound)"
    by (rule ends_wp) (use assms(6) in \<open>auto simp: shrinks_def intro: poll_idle_safe\<close>)
  with Interrupted show ?thesis by (simp add: main_iter_def sound_def)
qed

section \<open>Runs\<close>

lemma server_open_ok:
  assumes "fst (server_open s) = None"
  defines "t \<equiv> snd (server_open s)"
  shows "0 < sockfd_udp_welcome t" and "poll t = poll s" and "clients t = clients s"
    and "msg_out_buf t = msg_out_buf s" and "client_cnt t = client_cnt s" and "stop_timeout t = stop_timeout s"
    and "msg_cnt t = msg_cnt s"
  using assms
  by (auto simp: server_open_def set_errno_def os_call_def os_socket_def Let_def case_prod_beta
      split: if_splits list.splits)

lemma make_queue_same [simp]:
  "poll (snd (make_queue s)) = poll s" "clients (snd (make_queue s)) = clients s"
  "msg_out_buf (snd (make_queue s)) = msg_out_buf s" "client_cnt (snd (make_queue s)) = client_cnt s"
  "stop_timeout (snd (make_queue s)) = stop_timeout s" "msg_cnt (snd (make_queue s)) = msg_cnt s"
  by (auto simp: make_queue_def os_alloc_def set_errno_def split: prod.split)

lemma os_alloc_same [simp]:
  "poll (snd (os_alloc s)) = poll s" "clients (snd (os_alloc s)) = clients s"
  "msg_out_buf (snd (os_alloc s)) = msg_out_buf s" "client_cnt (snd (os_alloc s)) = client_cnt s"
  "stop_timeout (snd (os_alloc s)) = stop_timeout s" "msg_cnt (snd (os_alloc s)) = msg_cnt s"
  by (auto simp: os_alloc_def split: prod.split)

lemma stop_exited: "stop code s = Ok t \<Longrightarrow> exited t = Some code"
  by (auto simp: stop_def Let_def andthen_Ok_iff)

lemma init_server_same:
  "clients (init_server sys a) = []" "msg_out_buf (init_server sys a) = []"
  "client_cnt (init_server sys a) = 0" "stop_timeout (init_server sys a) = STOP_TIMEOUT"
  "msg_cnt (init_server sys a) = 0"
  by (simp_all add: init_server_def)

definition start_poll :: "int \<Rightarrow> int \<Rightarrow> pollfd_list_t" where
  "start_poll f1 f2 = \<lparr>pl_size = POLL_REALLOC_DELTA, pl_cnt = 0,
     pl_list = (replicate POLL_REALLOC_DELTA zero_pollfd)[0 := welcome_fd f1, 1 := welcome_fd f2],
     pl_protocol = (replicate POLL_REALLOC_DELTA None)[0 := Some e_tcp, 1 := Some e_udp]\<rparr>"

lemma start_poll_ok: "f2 \<noteq> 0 \<Longrightarrow> poll_ok (start_poll f1 f2)"
  by (simp add: poll_ok_def start_poll_def free_slots_def POLL_REALLOC_DELTA_def welcome_fd_def
      zero_pollfd_def drop_update_swap)

text \<open>A start that does not exit leaves no clients, no messages and the two welcome sockets.\<close>

lemma main_init_state:
  assumes "main_init args sys = Ok s" and "exited s = None"
  shows "clients s = [] \<and> msg_out_buf s = [] \<and> client_cnt s = 0 \<and> 0 < get_udp_socket s \<and>
     msg_cnt s = 0 \<and> stop_timeout s = STOP_TIMEOUT \<and> poll s = start_poll (get_tcp_socket s) (get_udp_socket s)"
  using assms unfolding main_init_def
  by (auto simp: andthen_Ok_iff Let_def case_prod_beta init_server_same server_open_ok
      start_poll_def get_tcp_socket_def get_udp_socket_def set_errno_def
      split: if_splits option.splits dest!: stop_exited)

lemma main_init_wf:
  assumes "main_init args sys = Ok s" and "exited s = None"
  shows "wf_server s"
  using main_init_state [OF assms] start_poll_ok [of "get_udp_socket s" "get_tcp_socket s"]
  by (auto simp: wf_server_def)

text \<open>
  A round is benign when no send and no allocation fails in it, the kernel hands out fresh
  descriptors, and fewer than 65535 clients have connected so far (client ids have 16 bits).
\<close>

definition benign :: "server \<Rightarrow> bool" where
  "benign s \<longleftrightarrow> quiet s \<and> fresh_fds s \<and> unat (client_cnt s) < 65535"

inductive benign_run :: "string list \<Rightarrow> server \<Rightarrow> bool" for args where
  start: "main_init args sys = Ok s \<Longrightarrow> benign_run args s"
| env: "benign_run args s \<Longrightarrow> exited s = None \<Longrightarrow> env_change (os s) sys \<Longrightarrow> benign_run args (s\<lparr>os := sys\<rparr>)"
| round: "benign_run args s \<Longrightarrow> exited s = None \<Longrightarrow> benign s \<Longrightarrow> main_iter ev s = Ok s' \<Longrightarrow>
    benign_run args s'"

lemma benign_run_sound: "benign_run args s \<Longrightarrow> sound s"
proof (induction rule: benign_run.induct)
  case (start sys s)
  then show ?case by (auto simp: sound_def dest: main_init_wf)
next
  case (env s sys)
  then show ?case by (auto simp: sound_def wf_server_def)
next
  case (round s ev s')
  then have "ends only_overflow (main_iter ev s) sound"
    by (intro main_iter_safe [where u = True]) (auto simp: benign_def sound_def)
  with round.hyps(4) show ?case by simp
qed

text \<open>
  C3. In every state of a benign run the invariant of the server holds: queue cells are distinct
  and allocated, client ids and descriptors are distinct, no message waits on the descriptor of
  a TCP client, and the poll list is within its bounds.  Whatever the next event is and whatever the
  clients sent, the round ends without a NULL dereference, without a use after free and without an
  endless loop; the only possible fault is the overflow of a fixed-size buffer.
\<close>

theorem memory_safety:
  assumes "benign_run args s" and "exited s = None" and "benign s"
  shows "wf_server s \<and> ((\<exists>t. main_iter ev s = Ok t \<and> (exited t = None \<longrightarrow> wf_server t)) \<or>
     main_iter ev s = Fault BufOverflow)"
proof -
  have wf: "wf_server s" using benign_run_sound [OF assms(1)] assms(2) by (simp add: sound_def)
  then have "ends only_overflow (main_iter ev s) sound"
    using assms(3) by (intro main_iter_safe [where u = True]) (auto simp: benign_def)
  with wf show ?thesis by (cases "main_iter ev s") (auto simp: sound_def)
qed

text \<open>
  A start that does not exit has no clients and no messages, and polls the two welcome
  sockets and nothing else.
\<close>

lemma main_start:
  assumes "main_init args sys = Ok s" and "exited s = None"
  shows "wf_server s \<and> clients s = [] \<and> msg_out_buf s = [] \<and> polled (poll s) = [] \<and>
     map fd (take 2 (pl_list (poll s))) = [get_tcp_socket s, get_udp_socket s]"
  using main_init_wf [OF assms] main_init_state [OF assms]
  by (simp add: polled_def start_poll_def POLL_REALLOC_DELTA_def welcome_fd_def eval_nat_numeral)

text \<open>A start in which \<open>socket\<close> returns 3 and 4.\<close>

definition start_os :: os_t where
  "start_os = calm_os\<lparr>new_socks := [3, 4], inbox := (\<lambda>f. if f = 4 then [(''hello'', demo_addr 9)] else [])\<rparr>"

lemma demo_started:
  obtains s where "main_init [] start_os = Ok s" "exited s = None" "benign s"
proof -
  have "ends {} (main_init [] start_os) (\<lambda>s. exited s = None \<and> benign s)"
    by (simp add: main_init_def parse_argv_def default_argv_def init_server_def start_os_def calm_os_def
        os_alloc_def pop_def make_queue_def server_open_def os_socket_def os_call_def Let_def
        benign_def quiet_def fresh_fds_def)
  then show ?thesis using that by (cases "main_init [] start_os") auto
qed

theorem memory_safety_witness:
  "\<exists>s. main_init [] start_os = Ok s \<and> wf_server s \<and>
     ((\<exists>t. main_iter (Ready [False, True]) s = Ok t) \<or>
      main_iter (Ready [False, True]) s = Fault BufOverflow)"
  using demo_started benign_run.start memory_safety by metis

end
