(* ===== verification/Codec.thy ===== *)
theory Codec
  imports Parse Compose
begin

text \<open>
  The message grammar as an abstract specification, and the proof that parse.c and compose.c
  implement it.  \<open>grammar k\<close> says which fields a message may have: those of the README with every
  length limit raised by \<open>k\<close>; the README asks for \<open>grammar 0\<close>, the regular expressions of the code
  accept \<open>grammar 1\<close>.  \<open>tcp_wire\<close> is the line of a message with the literals of the grammar in
  capitals, as they are printed in the README.  That grammar is ABNF (RFC 5234), in which a quoted
  literal stands for every spelling in upper and lower case: \<open>abnf_line\<close> says which lines it derives
  for a message.  The code accepts the capitals only.
\<close>

datatype chat_msg =
    Auth string string string \<comment> \<open>username, display name, secret\<close>
  | Join string string \<comment> \<open>channel, display name\<close>
  | Msg string string \<comment> \<open>display name, content\<close>
  | Err string string
  | Reply bool string
  | Bye

fun grammar :: "nat \<Rightarrow> chat_msg \<Rightarrow> bool" where
  "grammar k (Auth u d s) \<longleftrightarrow> list_all alnum_dash u \<and> 1 \<le> length u \<and> length u \<le> 20 + k \<and>
     list_all is_graph d \<and> 1 \<le> length d \<and> length d \<le> 20 + k \<and>
     list_all alnum_dash s \<and> 1 \<le> length s \<and> length s \<le> 128 + k"
| "grammar k (Join c d) \<longleftrightarrow> list_all alnum_dash c \<and> 1 \<le> length c \<and> length c \<le> 20 + k \<and>
     list_all is_graph d \<and> 1 \<le> length d \<and> length d \<le> 20 + k"
| "grammar k (Msg d t) \<longleftrightarrow> list_all is_graph d \<and> 1 \<le> length d \<and> length d \<le> 20 + k \<and>
     list_all is_print t \<and> 1 \<le> length t \<and> length t \<le> 1400 + k"
| "grammar k (Err d t) \<longleftrightarrow> list_all is_graph d \<and> 1 \<le> length d \<and> length d \<le> 20 + k \<and>
     list_all is_print t \<and> 1 \<le> length t \<and> length t \<le> 1400 + k"
| "grammar k (Reply b t) \<longleftrightarrow> list_all is_print t \<and> 1 \<le> length t \<and> length t \<le> 1400 + k"
| "grammar k Bye \<longleftrightarrow> True"

text \<open>The wire format over TCP.\<close>

fun tcp_wire :: "chat_msg \<Rightarrow> string" where
  "tcp_wire (Auth u d s) = ''AUTH '' @ u @ '' AS '' @ d @ '' USING '' @ s @ [CR, LF]"
| "tcp_wire (Join c d) = ''JOIN '' @ c @ '' AS '' @ d @ [CR, LF]"
| "tcp_wire (Msg d t) = ''MSG FROM '' @ d @ '' IS '' @ t @ [CR, LF]"
| "tcp_wire (Err d t) = ''ERR FROM '' @ d @ '' IS '' @ t @ [CR, LF]"
| "tcp_wire (Reply b t) = ''REPLY '' @ (if b then ''OK'' else ''NOK'') @ '' IS '' @ t @ [CR, LF]"
| "tcp_wire Bye = ''BYE'' @ [CR, LF]"

text \<open>
  The literals (\<open>True\<close>) and the fields of such a line, and the lines that ABNF derives: a literal
  matches in any case, a field as it is.
\<close>

fun pieces :: "chat_msg \<Rightarrow> (bool \<times> string) list" where
  "pieces (Auth u d s) = [(True, ''AUTH ''), (False, u), (True, '' AS ''), (False, d), (True, '' USING ''),
     (False, s), (True, [CR, LF])]"
| "pieces (Join c d) = [(True, ''JOIN ''), (False, c), (True, '' AS ''), (False, d), (True, [CR, LF])]"
| "pieces (Msg d t) = [(True, ''MSG FROM ''), (False, d), (True, '' IS ''), (False, t), (True, [CR, LF])]"
| "pieces (Err d t) = [(True, ''ERR FROM ''), (False, d), (True, '' IS ''), (False, t), (True, [CR, LF])]"
| "pieces (Reply b t) = [(True, ''REPLY ''), (True, if b then ''OK'' else ''NOK''), (True, '' IS ''),
     (False, t), (True, [CR, LF])]"
| "pieces Bye = [(True, ''BYE''), (True, [CR, LF])]"

definition lower_case :: "char \<Rightarrow> char" where
  "lower_case c = (let n = (of_char c :: nat) in if 65 \<le> n \<and> n \<le> 90 then char_of (n + 32) else c)"

fun derives :: "(bool \<times> string) list \<Rightarrow> string \<Rightarrow> bool" where
  "derives [] s \<longleftrightarrow> s = []"
| "derives ((lit, p) # ps) s \<longleftrightarrow> length p \<le> length s \<and>
     (if lit then map lower_case (take (length p) s) = map lower_case p else take (length p) s = p) \<and>
     derives ps (drop (length p) s)"

definition abnf_line :: "nat \<Rightarrow> chat_msg \<Rightarrow> string \<Rightarrow> bool" where
  "abnf_line k a s \<longleftrightarrow> grammar k a \<and> derives (pieces a) s"

lemma derives_concat: "derives ps (concat (map snd ps))"
  by (induction ps) auto

lemma tcp_wire_pieces: "tcp_wire a = concat (map snd (pieces a))"
  by (cases a) simp_all

text \<open>The message struct filled in with an abstract message.\<close>

fun fill :: "chat_msg \<Rightarrow> msg_t \<Rightarrow> msg_t" where
  "fill (Auth u d s) m = put_str auth_secret_off s (put_str auth_display_name_off d
     (put_str auth_username_off u (m\<lparr>msg_type := e_auth\<rparr>)))"
| "fill (Join c d) m = put_str join_display_name_off d (put_str join_channel_id_off c
     (m\<lparr>msg_type := e_join\<rparr>))"
| "fill (Msg d t) m = put_str msg_content_off t (put_str msg_display_name_off d
     (m\<lparr>msg_type := e_msg\<rparr>))"
| "fill (Err d t) m = put_str msg_content_off t (put_str msg_display_name_off d
     (m\<lparr>msg_type := e_err\<rparr>))"
| "fill (Reply b t) m = put_str reply_content_off t
     (m\<lparr>msg_type := e_reply, data := set_reply_result b (data m)\<rparr>)"
| "fill Bye m = m\<lparr>msg_type := e_bye\<rparr>"

section \<open>TCP: the parser accepts exactly the grammar\<close>

lemmas re_defs =
  re_join_line_def re_join_def re_auth_line_def re_auth_def re_msg_line_def re_msg_def
  re_err_line_def re_err_def re_reply_ok_line_def re_reply_ok_def re_reply_nok_line_def
  re_reply_nok_def re_bye_def

lemma rmatch_group_lits:
  assumes "list_all p a" and "lo \<le> length a" and "length a \<le> hi" and "\<not> p c"
  shows "rmatch (Grp p lo hi # lits (c # w) @ r) (a @ c # w @ t) =
     map_option ((#) a) (rmatch r t)"
  using rmatch_Grp_sep [OF assms, of "lits w @ r" "w @ t"]
  by (simp add: lits_simps rmatch_lits)

text \<open>The expressions on a well-formed line.\<close>

lemma rmatch_join:
  "grammar 1 (Join c d) \<Longrightarrow> rmatch re_join (tcp_wire (Join c d)) = Some [c, d]"
  using rmatch_group_lits [of alnum_dash c 1 21 "CHR '' ''" "''AS ''"
      "Grp is_graph 1 21 # lits [CR, LF]" "d @ [CR, LF]"]
    rmatch_group_lits [of is_graph d 1 21 CR "[LF]" "[]" "[]"]
  by (simp only: re_join_def tcp_wire.simps rmatch_lits) (simp add: rmatch_Nil_Chr)

lemma rmatch_auth:
  "grammar 1 (Auth u d s) \<Longrightarrow> rmatch re_auth (tcp_wire (Auth u d s)) = Some [u, d, s]"
  using rmatch_group_lits [of alnum_dash u 1 21 "CHR '' ''" "''AS ''"
      "Grp is_graph 1 21 # lits '' USING '' @ Grp alnum_dash 1 129 # lits [CR, LF]"
      "d @ '' USING '' @ s @ [CR, LF]"]
    rmatch_group_lits [of is_graph d 1 21 "CHR '' ''" "''USING ''"
      "Grp alnum_dash 1 129 # lits [CR, LF]" "s @ [CR, LF]"]
    rmatch_group_lits [of alnum_dash s 1 129 CR "[LF]" "[]" "[]"]
  by (simp only: re_auth_def tcp_wire.simps rmatch_lits) (simp add: rmatch_Nil_Chr)

lemma rmatch_msg:
  "grammar 1 (Msg d t) \<Longrightarrow> rmatch re_msg (tcp_wire (Msg d t)) = Some [d, t]"
  using rmatch_group_lits [of is_graph d 1 21 "CHR '' ''" "''IS ''"
      "Grp is_print 1 1401 # lits [CR, LF]" "t @ [CR, LF]"]
    rmatch_group_lits [of is_print t 1 1401 CR "[LF]" "[]" "[]"]
  by (simp only: re_msg_def tcp_wire.simps rmatch_lits) (simp add: rmatch_Nil_Chr)

lemma rmatch_err:
  "grammar 1 (Err d t) \<Longrightarrow> rmatch re_err (tcp_wire (Err d t)) = Some [d, t]"
  using rmatch_group_lits [of is_graph d 1 21 "CHR '' ''" "''IS ''"
      "Grp is_print 1 1401 # lits [CR, LF]" "t @ [CR, LF]"]
    rmatch_group_lits [of is_print t 1 1401 CR "[LF]" "[]" "[]"]
  by (simp only: re_err_def tcp_wire.simps rmatch_lits) (simp add: rmatch_Nil_Chr)

lemma rmatch_reply:
  "grammar 1 (Reply True t) \<Longrightarrow> rmatch re_reply_ok (tcp_wire (Reply True t)) = Some [t]"
  "grammar 1 (Reply False t) \<Longrightarrow> rmatch re_reply_nok (tcp_wire (Reply False t)) = Some [t]"
  using rmatch_group_lits [of is_print t 1 1401 CR "[LF]" "[]" "[]"]
  by (simp_all only: re_reply_ok_def re_reply_nok_def tcp_wire.simps rmatch_lits)
     (simp_all add: rmatch_Nil_Chr)

text \<open>The line tests: the right one succeeds, those before it fail on their first word.\<close>

lemma line_no:
  "take (length w) s \<noteq> w \<Longrightarrow> regexec_ok (lits w @ r) s = False"
  by (auto simp: regexec_ok_def rmatch_lits)

lemma line_yes:
  "NUL \<notin> set t \<Longrightarrow> regexec_ok (lits w @ AnyStar # lits [CR, LF]) (w @ t @ [CR, LF])"
  using rmatch_line_ok [of t w "[CR, LF]"] by (simp add: regexec_ok_def)

lemmas no_NUL [simp] =
  list_all_not_NUL [of alnum_dash, simplified] list_all_not_NUL [of is_graph, simplified]
  list_all_not_NUL [of is_print, simplified]

lemma grammar_no_NUL: "grammar k a \<Longrightarrow> NUL \<notin> set (tcp_wire a)"
  by (cases a) auto

lemma parse_tcp_complete:
  assumes g: "grammar 1 a"
  shows "parse_tcp_text (tcp_wire a) m = (None, fill a m)"
proof (cases a)
  case (Auth u d s)
  have "regexec_ok re_auth_line (tcp_wire a)"
    using line_yes [of "CHR '' '' # u @ '' AS '' @ d @ '' USING '' @ s" "''AUTH''"] g Auth
    by (simp add: re_auth_line_def)
  moreover have "\<not> regexec_ok re_join_line (tcp_wire a)"
    unfolding re_join_line_def by (simp add: line_no Auth)
  ultimately show ?thesis using rmatch_auth [of u d s] g Auth
    by (simp add: parse_tcp_text_def)
next
  case (Join c d)
  have "regexec_ok re_join_line (tcp_wire a)"
    using line_yes [of "CHR '' '' # c @ '' AS '' @ d" "''JOIN''"] g Join
    by (simp add: re_join_line_def)
  then show ?thesis using rmatch_join [of c d] g Join by (simp add: parse_tcp_text_def)
next
  case (Msg d t)
  have "regexec_ok re_msg_line (tcp_wire a)"
    using line_yes [of "CHR '' '' # d @ '' IS '' @ t" "''MSG FROM''"] g Msg
    by (simp add: re_msg_line_def)
  moreover have "\<not> regexec_ok re_join_line (tcp_wire a)" "\<not> regexec_ok re_auth_line (tcp_wire a)"
    unfolding re_join_line_def re_auth_line_def by (simp_all add: line_no Msg)
  ultimately show ?thesis using rmatch_msg [of d t] g Msg by (simp add: parse_tcp_text_def)
next
  case (Err d t)
  have "regexec_ok re_err_line (tcp_wire a)"
    using line_yes [of "CHR '' '' # d @ '' IS '' @ t" "''ERR FROM''"] g Err
    by (simp add: re_err_line_def)
  moreover have "\<not> regexec_ok re_join_line (tcp_wire a)" "\<not> regexec_ok re_auth_line (tcp_wire a)"
      "\<not> regexec_ok re_msg_line (tcp_wire a)"
    unfolding re_join_line_def re_auth_line_def re_msg_line_def by (simp_all add: line_no Err)
  ultimately show ?thesis using rmatch_err [of d t] g Err by (simp add: parse_tcp_text_def)
next
  case (Reply b t)
  have no: "\<not> regexec_ok re_join_line (tcp_wire a)" "\<not> regexec_ok re_auth_line (tcp_wire a)"
      "\<not> regexec_ok re_msg_line (tcp_wire a)" "\<not> regexec_ok re_err_line (tcp_wire a)"
    unfolding re_join_line_def re_auth_line_def re_msg_line_def re_err_line_def
    by (simp_all add: line_no Reply)
  have "b \<Longrightarrow> regexec_ok re_reply_ok_line (tcp_wire a)"
    using line_yes [of "'' IS '' @ t" "''REPLY OK''"] g Reply
    by (simp add: re_reply_ok_line_def)
  moreover have "\<not> b \<Longrightarrow> regexec_ok re_reply_nok_line (tcp_wire a)"
    using line_yes [of "'' IS '' @ t" "''REPLY NOK''"] g Reply
    by (simp add: re_reply_nok_line_def)
  moreover have "\<not> b \<Longrightarrow> \<not> regexec_ok re_reply_ok_line (tcp_wire a)"
    unfolding re_reply_ok_line_def by (simp add: line_no Reply)
  ultimately show ?thesis using no rmatch_reply [of t] g Reply
    by (cases b) (simp_all add: parse_tcp_text_def)
next
  case Bye
  have "\<not> regexec_ok re_join_line (tcp_wire a)" "\<not> regexec_ok re_auth_line (tcp_wire a)"
      "\<not> regexec_ok re_msg_line (tcp_wire a)" "\<not> regexec_ok re_err_line (tcp_wire a)"
      "\<not> regexec_ok re_reply_ok_line (tcp_wire a)" "\<not> regexec_ok re_reply_nok_line (tcp_wire a)"
    unfolding re_join_line_def re_auth_line_def re_msg_line_def re_err_line_def
      re_reply_ok_line_def re_reply_nok_line_def
    by (simp_all add: line_no Bye)
  moreover have "regexec_ok re_bye (tcp_wire a)"
    using rmatch_lits [of "''BYE''" "lits [CR, LF]" "tcp_wire a"]
    by (simp add: regexec_ok_def re_bye_def Bye lits_simps rmatch_Nil_Chr)
  ultimately show ?thesis by (simp add: parse_tcp_text_def Bye)
qed

text \<open>The other direction: what the expressions match is a line of the grammar.\<close>

lemma re_sound:
  "rmatch re_join s = Some gs \<Longrightarrow> \<exists>c d. gs = [c, d] \<and> grammar 1 (Join c d) \<and> s = tcp_wire (Join c d)"
  "rmatch re_auth s = Some gs \<Longrightarrow>
     \<exists>u d e. gs = [u, d, e] \<and> grammar 1 (Auth u d e) \<and> s = tcp_wire (Auth u d e)"
  "rmatch re_msg s = Some gs \<Longrightarrow> \<exists>d t. gs = [d, t] \<and> grammar 1 (Msg d t) \<and> s = tcp_wire (Msg d t)"
  "rmatch re_err s = Some gs \<Longrightarrow> \<exists>d t. gs = [d, t] \<and> grammar 1 (Err d t) \<and> s = tcp_wire (Err d t)"
  "rmatch re_reply_ok s = Some gs \<Longrightarrow>
     \<exists>t. gs = [t] \<and> grammar 1 (Reply True t) \<and> s = tcp_wire (Reply True t)"
  "rmatch re_reply_nok s = Some gs \<Longrightarrow>
     \<exists>t. gs = [t] \<and> grammar 1 (Reply False t) \<and> s = tcp_wire (Reply False t)"
  "rmatch re_bye s = Some gs \<Longrightarrow> s = tcp_wire Bye"
  by (drule rmatch_sound, force simp: re_defs rlang_iffs)+

lemma parse_tcp_sound:
  assumes p: "parse_tcp_text s m = (None, m')"
  shows "\<exists>a. grammar 1 a \<and> s = tcp_wire a \<and> m' = fill a m"
proof -
  note d = parse_tcp_text_def tcp_fail_def
  consider (join) gs where "regexec_ok re_join_line s" "rmatch re_join s = Some gs"
    | (auth) gs where "\<not> regexec_ok re_join_line s" "regexec_ok re_auth_line s"
        "rmatch re_auth s = Some gs"
    | (msg) gs where "\<not> regexec_ok re_join_line s" "\<not> regexec_ok re_auth_line s"
        "regexec_ok re_msg_line s" "rmatch re_msg s = Some gs"
    | (err) gs where "\<not> regexec_ok re_join_line s" "\<not> regexec_ok re_auth_line s"
        "\<not> regexec_ok re_msg_line s" "regexec_ok re_err_line s" "rmatch re_err s = Some gs"
    | (ok) gs where "\<not> regexec_ok re_join_line s" "\<not> regexec_ok re_auth_line s"
        "\<not> regexec_ok re_msg_line s" "\<not> regexec_ok re_err_line s"
        "regexec_ok re_reply_ok_line s" "rmatch re_reply_ok s = Some gs"
    | (nok) gs where "\<not> regexec_ok re_join_line s" "\<not> regexec_ok re_auth_line s"
        "\<not> regexec_ok re_msg_line s" "\<not> regexec_ok re_err_line s"
        "\<not> regexec_ok re_reply_ok_line s"
        "regexec_ok re_reply_nok_line s" "rmatch re_reply_nok s = Some gs"
    | (bye) gs where "\<not> regexec_ok re_join_line s" "\<not> regexec_ok re_auth_line s"
        "\<not> regexec_ok re_msg_line s" "\<not> regexec_ok re_err_line s"
        "\<not> regexec_ok re_reply_ok_line s" "\<not> regexec_ok re_reply_nok_line s"
        "rmatch re_bye s = Some gs"
    using p unfolding d
    by (simp add: regexec_ok_def [of re_bye] split: if_split_asm option.splits)
  then show ?thesis
  proof cases
    case join
    with re_sound(1) obtain c e where "gs = [c, e]" "grammar 1 (Join c e)" "s = tcp_wire (Join c e)"
      by blast
    with join p show ?thesis by (intro exI [of _ "Join c e"]) (simp add: d)
  next
    case auth
    with re_sound(2) obtain u e f where
      "gs = [u, e, f]" "grammar 1 (Auth u e f)" "s = tcp_wire (Auth u e f)" by blast
    with auth p show ?thesis by (intro exI [of _ "Auth u e f"]) (simp add: d)
  next
    case msg
    with re_sound(3) obtain e t where "gs = [e, t]" "grammar 1 (Msg e t)" "s = tcp_wire (Msg e t)"
      by blast
    with msg p show ?thesis by (intro exI [of _ "Msg e t"]) (simp add: d)
  next
    case err
    with re_sound(4) obtain e t where "gs = [e, t]" "grammar 1 (Err e t)" "s = tcp_wire (Err e t)"
      by blast
    with err p show ?thesis by (intro exI [of _ "Err e t"]) (simp add: d)
  next
    case ok
    with re_sound(5) obtain t where "gs = [t]" "grammar 1 (Reply True t)" "s = tcp_wire (Reply True t)"
      by blast
    with ok p show ?thesis by (intro exI [of _ "Reply True t"]) (simp add: d)
  next
    case nok
    with re_sound(6) obtain t where "gs = [t]" "grammar 1 (Reply False t)" "s = tcp_wire (Reply False t)"
      by blast
    with nok p show ?thesis by (intro exI [of _ "Reply False t"]) (simp add: d)
  next
    case bye
    with re_sound(7) p show ?thesis
      by (intro exI [of _ Bye]) (simp add: d regexec_ok_def [of re_bye])
  qed
qed

section \<open>TCP: what compose writes, parse reads\<close>

text \<open>
  Names shorter than their arrays keep a terminating zero.  A name that fills its 20 bytes runs
  on into the next member when it is read as a string.
\<close>

fun terminated :: "chat_msg \<Rightarrow> bool" where
  "terminated (Auth u d s) \<longleftrightarrow> length u < 20 \<and> length d < 20"
| "terminated (Join c d) \<longleftrightarrow> length c < 20"
| "terminated (Msg d t) \<longleftrightarrow> length d < 20"
| "terminated (Err d t) \<longleftrightarrow> length d < 20"
| "terminated (Reply b t) \<longleftrightarrow> True"
| "terminated Bye \<longleftrightarrow> True"

lemma two_fields:
  assumes "NUL \<notin> set a" and "NUL \<notin> set b" and "length a < 20"
  shows "cstr 0 (buf_write 20 b (buf_write 0 a [])) = a"
    and "cstr 20 (buf_write 20 b (buf_write 0 a [])) = b"
proof -
  have e: "buf_write 20 b (buf_write 0 a []) = a @ replicate (20 - length a) NUL @ b"
    using assms(3) by (simp add: buf_write_ext)
  show "cstr 0 (buf_write 20 b (buf_write 0 a [])) = a"
    unfolding e using assms by (intro cstr_pad) auto
  have "drop 20 (a @ replicate (20 - length a) NUL @ b) = b" using assms(3) by simp
  then show "cstr 20 (buf_write 20 b (buf_write 0 a [])) = b"
    unfolding e using cstr_at [OF assms(2), of 20 _ "[]"] by simp
qed

lemma three_fields:
  assumes "NUL \<notin> set a" "NUL \<notin> set b" "NUL \<notin> set c" "length a < 20" "length b < 20"
  shows "cstr 0 (buf_write 40 c (buf_write 20 b (buf_write 0 a []))) = a"
    and "cstr 20 (buf_write 40 c (buf_write 20 b (buf_write 0 a []))) = b"
    and "cstr 40 (buf_write 40 c (buf_write 20 b (buf_write 0 a []))) = c"
proof -
  have e: "buf_write 40 c (buf_write 20 b (buf_write 0 a [])) =
      a @ replicate (20 - length a) NUL @ b @ replicate (20 - length b) NUL @ c"
    using assms(4,5) by (simp add: buf_write_ext)
  show "cstr 0 (buf_write 40 c (buf_write 20 b (buf_write 0 a []))) = a"
    unfolding e using assms by (intro cstr_pad) auto
  have "drop 20 (a @ replicate (20 - length a) NUL @ b @ replicate (20 - length b) NUL @ c) =
      b @ replicate (20 - length b) NUL @ c" using assms(4) by simp
  then show "cstr 20 (buf_write 40 c (buf_write 20 b (buf_write 0 a []))) = b"
    unfolding e using cstr_pad [OF assms(2,5)] cstr_drop [of 0 20] by simp
  have "drop 40 (a @ replicate (20 - length a) NUL @ b @ replicate (20 - length b) NUL @ c) = c"
    using assms(4,5) by simp
  then show "cstr 40 (buf_write 40 c (buf_write 20 b (buf_write 0 a []))) = c"
    unfolding e using cstr_at [OF assms(3), of 40 _ "[]"] by simp
qed

lemma reply_fields:
  assumes "NUL \<notin> set t"
  shows "reply_result (buf_write 4 t (set_reply_result b [])) = b"
    and "cstr 4 (buf_write 4 t (set_reply_result b [])) = t"
  using assms cstr_at [OF assms, of 4 _ "[]"]
  by (simp_all add: reply_result_def set_reply_result_def buf_at_def buf_write_ext)

lemma compose_tcp_fill:
  assumes g: "grammar 1 a" and t: "terminated a"
  shows "compose_tcp (fill a zero_msg) = Ok (None, tcp_wire a)"
  using assms two_fields three_fields reply_fields
  by (cases a)
     (auto simp: compose_tcp_def sprintf_buf_def STRING_MAX_LENGTH_def data_str_def data_offsets)

lemma tcp_wire_length: "grammar 1 a \<Longrightarrow> length (tcp_wire a) < STRING_MAX_LENGTH"
  by (cases a) (auto simp: STRING_MAX_LENGTH_def)

lemma parse_tcp_wire: "grammar 1 a \<Longrightarrow> parse_tcp (tcp_wire a) m = Ok (None, fill a m)"
  using tcp_wire_length [of a] grammar_no_NUL [of 1 a] parse_tcp_complete [of a m]
  by (simp add: parse_tcp_def cstr_0_id)

section \<open>The contract of a codec\<close>

text \<open>
  An encoder and a decoder for the valid messages of a protocol.  \<open>seen\<close> is what the receiver
  gets to see of a message.
\<close>

locale codec =
  fixes valid :: "'m \<Rightarrow> bool" and enc :: "'m \<Rightarrow> bytes res" and dec :: "bytes \<Rightarrow> 'r res"
    and seen :: "'m \<Rightarrow> 'r"
  assumes enc_ok: "valid m \<Longrightarrow> is_ok (enc m)"
    and dec_enc: "valid m \<Longrightarrow> enc m = Ok w \<Longrightarrow> dec w = Ok (seen m)"
begin

lemma roundtrip: "valid m \<Longrightarrow> andthen (enc m) dec = Ok (seen m)"
  using enc_ok [of m] dec_enc [of m] by (auto simp: is_ok_iff)

text \<open>Messages that the receiver tells apart have different encodings.\<close>

lemma enc_separates:
  assumes "valid m" "valid m'" "seen m \<noteq> seen m'"
  shows "enc m \<noteq> enc m'"
  using roundtrip [OF assms(1)] roundtrip [OF assms(2)] assms(3) by auto

end

definition tcp_valid :: "chat_msg \<Rightarrow> bool" where
  "tcp_valid a = (grammar 1 a \<and> terminated a)"

definition tcp_enc :: "chat_msg \<Rightarrow> bytes res" where
  "tcp_enc a = andthen (compose_tcp (fill a zero_msg)) (\<lambda>(rc, s). Ok s)"

definition tcp_dec :: "bytes \<Rightarrow> (rc \<times> msg_t) res" where
  "tcp_dec b = parse_tcp b zero_msg"

interpretation tcp: codec tcp_valid tcp_enc tcp_dec "\<lambda>a. (None, fill a zero_msg)"
  by unfold_locales (auto simp: tcp_valid_def tcp_enc_def tcp_dec_def compose_tcp_fill parse_tcp_wire)

section \<open>UDP: message ids\<close>

text \<open>The id a receiver decodes from the two bytes that encode \<open>i\<close>.\<close>

definition dec_id :: "message_id_t \<Rightarrow> message_id_t" where
  "dec_id i = word_of_int (schar (hi_byte i) * 0xFF + schar (lo_byte i))"

lemma schar_pct_c: "n < 256 \<Longrightarrow> schar (pct_c n) = (if n < 128 then int n else int n - 256)"
  using of_nat_of_char [of "char_of (n mod 256)", where ?'a = int]
  by (auto simp: schar_def pct_c_def Let_def)

lemma uint_less_128: "uint (i :: 16 word) < 128 \<longleftrightarrow> unat i < 128"
proof -
  have "int (unat i) < int 128 \<longleftrightarrow> unat i < 128" by (rule of_nat_less_iff)
  then show ?thesis by simp
qed

lemma dec_id_iff: "dec_id i = i \<longleftrightarrow> unat i < 128"
proof -
  define h l where "h = int (unat i div 256)" and "l = int (unat i mod 256)"
  have i: "uint i = 256 * h + l" by (simp add: h_def l_def zdiv_int zmod_int)
  have b: "0 \<le> h" "h < 256" "0 \<le> l" "l < 256"
    using unsigned_less [of i, where ?'a = nat] by (auto simp: h_def l_def)
  define x where "x = (if h < 128 then h else h - 256) * 255 + (if l < 128 then l else l - 256)"
  have "dec_id i = word_of_int x"
    using b by (simp add: dec_id_def hi_byte_def lo_byte_def schar_pct_c x_def h_def l_def)
  then have "dec_id i = i \<longleftrightarrow> x mod 65536 = uint i"
    by (simp add: word_uint_eq_iff uint_word_of_int)
  also have "x mod 65536 = (if 0 \<le> x then x else x + 65536)"
  proof -
    have "- 65536 \<le> x" "x < 65536" using b by (auto simp: x_def split: if_splits)
    moreover from this have "x < 0 \<Longrightarrow> (x + 65536) mod 65536 = x + 65536"
      by (intro mod_pos_pos_trivial) auto
    ultimately show ?thesis by (auto simp: mod_pos_pos_trivial)
  qed
  also have "\<dots> = uint i \<longleftrightarrow> uint i < 128"
    using b unfolding i x_def by (cases "h < 128"; cases "l < 128") (simp_all, presburger+)
  also have "\<dots> \<longleftrightarrow> unat i < 128" by (rule uint_less_128)
  finally show ?thesis .
qed

section \<open>UDP: fields and messages\<close>

text \<open>One turn of the splitting loop over a whole field.\<close>

lemma split_loop_stop: "\<not> (i < len \<and> m < mx) \<Longrightarrow> split_loop str c i j m ptr mx len = (i, m, ptr)"
  by (subst split_loop.simps) auto

lemma split_loop_field:
  assumes "drop i str = f @ NUL # rest" and "NUL \<notin> set f" and "i + length f < len"
    and "m < mx" and "m < length ptr" and "length (ptr ! m) = j"
  shows "split_loop str NUL i j m ptr mx len =
     split_loop str NUL (i + length f + 1) 0 (Suc m) (ptr[m := ptr ! m @ f]) mx len"
  using assms
proof (induction f arbitrary: i j ptr)
  case Nil
  then have "i < length str" by (metis append_Nil drop_eq_Nil list.distinct(1) not_le)
  moreover have "str ! i = NUL" using Nil.prems(1) \<open>i < length str\<close>
    by (metis Cons_nth_drop_Suc append_Nil list.inject)
  ultimately show ?case using Nil.prems by (subst split_loop.simps) (simp add: buf_at_def)
next
  case (Cons x f)
  then have il: "i < length str" by (metis append_Cons drop_eq_Nil list.distinct(1) not_le)
  have x: "str ! i = x" and d: "drop (Suc i) str = f @ NUL # rest"
    using Cons.prems(1) Cons_nth_drop_Suc [OF il] by auto
  have w: "buf_write j [x] (ptr ! m) = ptr ! m @ [x]"
    using Cons.prems(6) by (simp add: buf_write_ext)
  have "split_loop str NUL i j m ptr mx len =
      split_loop str NUL (Suc i) (Suc j) m (ptr[m := ptr ! m @ [x]]) mx len"
    using Cons.prems il x w by (subst split_loop.simps) (auto simp: buf_at_def)
  also have "\<dots> = split_loop str NUL (Suc i + length f + 1) 0 (Suc m)
      ((ptr[m := ptr ! m @ [x]])[m := (ptr[m := ptr ! m @ [x]]) ! m @ f]) mx len"
    using Cons.prems d by (intro Cons.IH) auto
  finally show ?case using Cons.prems(5) by simp
qed

lemma split_l_1:
  assumes "length h = n" and "NUL \<notin> set a"
  shows "split_l (h @ a @ [NUL]) NUL n [[], [], []] 1 (length (h @ a @ [NUL])) = (0, [a, [], []])"
proof -
  have "split_loop (h @ a @ [NUL]) NUL n 0 0 [[], [], []] 1 (n + length a + 1) =
      (n + length a + 1, 1, [a, [], []])"
    using assms by (subst split_loop_field [where f = a and rest = "[]"]) (auto simp: split_loop_stop)
  with assms show ?thesis by (simp add: split_l_def)
qed

lemma split_l_2:
  assumes "length h = n" and "NUL \<notin> set a" and "NUL \<notin> set b"
  shows "split_l (h @ a @ [NUL] @ b @ [NUL]) NUL n [[], [], []] 2
     (length (h @ a @ [NUL] @ b @ [NUL])) = (1, [a, b, []])"
proof -
  have "split_loop (h @ a @ [NUL] @ b @ [NUL]) NUL n 0 0 [[], [], []] 2 (n + length a + length b + 2) =
      (n + length a + length b + 2, 2, [a, b, []])"
    using assms
    by (subst split_loop_field [where f = a and rest = "b @ [NUL]"],
        simp_all add: numeral_2_eq_2,
        subst split_loop_field [where f = b and rest = "[]"],
        simp_all add: split_loop_stop)
  with assms show ?thesis by (simp add: split_l_def add.assoc)
qed

lemma split_l_3:
  assumes "length h = n" and "NUL \<notin> set a" and "NUL \<notin> set b" and "NUL \<notin> set c"
  shows "split_l (h @ a @ [NUL] @ b @ [NUL] @ c @ [NUL]) NUL n [[], [], []] 3
     (length (h @ a @ [NUL] @ b @ [NUL] @ c @ [NUL])) = (2, [a, b, c])"
proof -
  have "split_loop (h @ a @ [NUL] @ b @ [NUL] @ c @ [NUL]) NUL n 0 0 [[], [], []] 3
      (n + length a + length b + length c + 3) =
      (n + length a + length b + length c + 3, 3, [a, b, c])"
    using assms
    by (subst split_loop_field [where f = a and rest = "b @ [NUL] @ c @ [NUL]"],
        simp_all add: numeral_3_eq_3,
        subst split_loop_field [where f = b and rest = "c @ [NUL]"], simp_all,
        subst split_loop_field [where f = c and rest = "[]"],
        simp_all add: split_loop_stop)
  with assms show ?thesis by (simp add: split_l_def add.assoc eval_nat_numeral)
qed

text \<open>The wire format over UDP, with the id of the message and, for a reply, its reference.\<close>

fun udp_wire :: "message_id_t \<Rightarrow> message_id_t \<Rightarrow> chat_msg \<Rightarrow> bytes" where
  "udp_wire i r (Auth u d s) = [type_byte e_auth, hi_byte i, lo_byte i] @
     u @ [NUL] @ d @ [NUL] @ s @ [NUL]"
| "udp_wire i r (Join c d) = [type_byte e_join, hi_byte i, lo_byte i] @ c @ [NUL] @ d @ [NUL]"
| "udp_wire i r (Msg d t) = [type_byte e_msg, hi_byte i, lo_byte i] @ d @ [NUL] @ t @ [NUL]"
| "udp_wire i r (Err d t) = [type_byte e_err, hi_byte i, lo_byte i] @ d @ [NUL] @ t @ [NUL]"
| "udp_wire i r (Reply b t) = [type_byte e_reply, hi_byte i, lo_byte i,
     pct_c (if b then 1 else 0), hi_byte r, lo_byte r] @ t @ [NUL]"
| "udp_wire i r Bye = [type_byte e_bye, hi_byte i, lo_byte i]"

fun udp_fill :: "message_id_t \<Rightarrow> message_id_t \<Rightarrow> chat_msg \<Rightarrow> msg_t \<Rightarrow> msg_t" where
  "udp_fill i r (Reply b t) m = put_str reply_content_off t
     (m\<lparr>msg_type := e_reply, msg_id := i, data := set_reply_ref_id r (set_reply_result b (data m))\<rparr>)"
| "udp_fill i r a m = fill a (m\<lparr>msg_id := i\<rparr>)"

lemma of_char_type_byte [simp]: "(of_char (type_byte t) :: nat) = msg_type_code t"
  by (cases t) (simp_all add: type_byte_def pct_c_def of_char_of)

lemma dec_id_bytes: "udp_id (x # hi_byte i # lo_byte i # t) 1 = dec_id i"
  "udp_id (x # y # z # w # hi_byte i # lo_byte i # t) 4 = dec_id i"
  by (simp_all add: udp_id_def dec_id_def buf_at_def)

lemma pct_c_bool [simp]: "(pct_c (if b then 1 else 0) \<noteq> NUL) = b"
proof -
  have "pct_c 1 \<noteq> NUL" "pct_c 0 = NUL" by code_simp+
  then show ?thesis by (cases b) simp_all
qed

lemma part_simps [simp]:
  "NUL \<notin> set a \<Longrightarrow> part (a # ps) 0 = a" "part (x # ps) (Suc k) = part ps k"
  by (simp_all add: part_def cstr_0_id)

lemma udp_wire_head:
  "buf_at (udp_wire i r a) 0 = type_byte (msg_type (fill a m))"
  "udp_id (udp_wire i r a) 1 = dec_id i"
proof -
  show "buf_at (udp_wire i r a) 0 = type_byte (msg_type (fill a m))"
    by (cases a) (simp_all add: buf_at_def)
  show "udp_id (udp_wire i r a) 1 = dec_id i"
    by (cases a) (simp_all only: udp_wire.simps append_Cons append_Nil dec_id_bytes)
qed

lemma udp_split_3:
  assumes "grammar k (Auth u d s)"
  shows "split_l (udp_wire i r (Auth u d s)) NUL 3 [[], [], []] 3 (length (udp_wire i r (Auth u d s)))
    = (2, [u, d, s])"
  using assms split_l_3 [of "[type_byte e_auth, hi_byte i, lo_byte i]" 3 u d s] by simp

lemma udp_split_2:
  "grammar k (Join c d) \<Longrightarrow> split_l (udp_wire i r (Join c d)) NUL 3 [[], [], []] 2
     (length (udp_wire i r (Join c d))) = (1, [c, d, []])"
  "grammar k (Msg d t) \<Longrightarrow> split_l (udp_wire i r (Msg d t)) NUL 3 [[], [], []] 2
     (length (udp_wire i r (Msg d t))) = (1, [d, t, []])"
  "grammar k (Err d t) \<Longrightarrow> split_l (udp_wire i r (Err d t)) NUL 3 [[], [], []] 2
     (length (udp_wire i r (Err d t))) = (1, [d, t, []])"
  using split_l_2 [of "[type_byte e_join, hi_byte i, lo_byte i]" 3 c d]
    split_l_2 [of "[type_byte e_msg, hi_byte i, lo_byte i]" 3 d t]
    split_l_2 [of "[type_byte e_err, hi_byte i, lo_byte i]" 3 d t]
  by simp_all

lemma udp_split_1:
  "grammar k (Reply b t) \<Longrightarrow> split_l (udp_wire i r (Reply b t)) NUL 6 [[], [], []] 1
     (length (udp_wire i r (Reply b t))) = (0, [t, [], []])"
  using split_l_1 [of "[type_byte e_reply, hi_byte i, lo_byte i,
      pct_c (if b then 1 else 0), hi_byte r, lo_byte r]" 6 t] by simp

lemma udp_reply_head:
  "(buf_at (udp_wire i r (Reply b t)) 3 \<noteq> NUL) = b"
  "udp_id (udp_wire i r (Reply b t)) 4 = dec_id r"
  by (simp_all add: buf_at_def dec_id_bytes del: if_split)

lemma part_nth [simp]:
  "NUL \<notin> set a \<Longrightarrow> part [a, b, c] 0 = a" "NUL \<notin> set b \<Longrightarrow> part [a, b, c] 1 = b"
  "NUL \<notin> set c \<Longrightarrow> part [a, b, c] 2 = c"
  by (simp_all add: part_def cstr_0_id)

lemma msg_upd_commute [simp]: "m\<lparr>msg_id := i, msg_type := t\<rparr> = m\<lparr>msg_type := t, msg_id := i\<rparr>"
  by (cases m) simp

lemma parse_udp_wire:
  assumes "grammar 1 a"
  shows "parse_udp (udp_wire i r a) (length (udp_wire i r a)) m =
     (None, udp_fill (dec_id i) (dec_id r) a m)"
proof -
  note hd = udp_wire_head(1) [of i r a m] udp_wire_head(2) [of i r a]
  show ?thesis
  proof (cases a)
    case (Auth u d s)
    have "9 \<le> length (udp_wire i r a)" using assms Auth by simp
    with hd udp_split_3 [of 1 u d s i r] assms Auth show ?thesis
      by (simp add: parse_udp_def Let_def str_check_iffs del: udp_wire.simps)
  next
    case (Join c d)
    have "7 \<le> length (udp_wire i r a)" using assms Join by simp
    with hd udp_split_2(1) [of 1 c d i r] assms Join show ?thesis
      by (simp add: parse_udp_def Let_def str_check_iffs del: udp_wire.simps)
  next
    case (Msg d t)
    have "7 \<le> length (udp_wire i r a)" using assms Msg by simp
    with hd udp_split_2(2) [of 1 d t i r] assms Msg show ?thesis
      by (simp add: parse_udp_def Let_def str_check_iffs del: udp_wire.simps)
  next
    case (Err d t)
    have "7 \<le> length (udp_wire i r a)" using assms Err by simp
    with hd udp_split_2(3) [of 1 d t i r] assms Err show ?thesis
      by (simp add: parse_udp_def Let_def str_check_iffs del: udp_wire.simps)
  next
    case (Reply b t)
    have "8 \<le> length (udp_wire i r a)" using assms Reply by simp
    with hd udp_split_1 [of 1 b t i r] udp_reply_head [of i r b t] assms Reply show ?thesis
      by (simp add: parse_udp_def Let_def str_check_iffs del: udp_wire.simps)
  next
    case Bye
    have "length (udp_wire i r a) = 3" using Bye by simp
    with hd Bye show ?thesis by (simp add: parse_udp_def Let_def del: udp_wire.simps)
  qed
qed

lemma reply_bytes:
  "buf_write 4 t (set_reply_ref_id r (set_reply_result b [])) =
     [if b then CHR 0x01 else NUL, NUL] @ le16 r @ t"
  by (simp add: set_reply_ref_id_def set_reply_result_def buf_write_ext)

lemma reply_bytes_read:
  assumes "NUL \<notin> set t" and d: "data m = [if b then CHR 0x01 else NUL, NUL] @ le16 r @ t"
  shows "reply_result (data m) = b" "reply_ref_id (data m) = r" "cstr 4 (data m) = t"
proof -
  show "reply_result (data m) = b" using d by (simp add: reply_result_def buf_at_def)
  show "reply_ref_id (data m) = r"
    unfolding d reply_ref_id_def by (rule u16_at_le16) simp
  show "cstr 4 (data m) = t"
    using cstr_at [OF assms(1), of 4 "data m" "[]"] d by (simp add: le16_def)
qed

lemma hi_byte_small: "unat r < 256 \<Longrightarrow> hi_byte r = pct_c (unat r div 256 * 256)"
  by (simp add: hi_byte_def)

text \<open>The message that is composed, apart from the bookkeeping fields, has the bytes of its struct.\<close>

lemma compose_udp_fill:
  assumes g: "grammar 1 a" and t: "terminated a" and r: "unat r < 256"
  shows "compose_udp (udp_fill i r a zero_msg) = Ok (None, udp_wire i r a, length (udp_wire i r a))"
proof (cases "\<exists>b t. a = Reply b t")
  case True
  then obtain b t where a: "a = Reply b t" by blast
  let ?m = "udp_fill i r a zero_msg"
  have "data ?m = [if b then CHR 0x01 else NUL, NUL] @ le16 r @ t"
    by (simp add: a reply_content_off_def reply_bytes)
  moreover have "NUL \<notin> set t" using g a by simp
  ultimately have "reply_result (data ?m) = b" "reply_ref_id (data ?m) = r" "cstr 4 (data ?m) = t"
    using reply_bytes_read by blast+
  moreover have "msg_type ?m = e_reply" "msg_id ?m = i" by (simp_all add: a)
  ultimately show ?thesis using g
    by (simp add: compose_udp_def Let_def sprintf_buf_def STRING_MAX_LENGTH_def data_str_def
        reply_content_off_def hi_byte_small [OF r] a del: udp_fill.simps)
next
  case False
  then show ?thesis
    using g t two_fields three_fields
    by (cases a)
       (auto simp: compose_udp_def sprintf_buf_def STRING_MAX_LENGTH_def data_str_def data_offsets)
qed

definition udp_valid :: "message_id_t \<times> message_id_t \<times> chat_msg \<Rightarrow> bool" where
  "udp_valid x = (case x of (i, r, a) \<Rightarrow> grammar 1 a \<and> terminated a \<and> unat r < 256)"

text \<open>What leaves the socket: the first \<open>size\<close> bytes of the buffer.\<close>

definition udp_enc :: "message_id_t \<times> message_id_t \<times> chat_msg \<Rightarrow> bytes res" where
  "udp_enc x = (case x of (i, r, a) \<Rightarrow>
     andthen (compose_udp (udp_fill i r a zero_msg)) (\<lambda>(rc, s, n). Ok (buf_slice 0 n s)))"

definition udp_dec :: "bytes \<Rightarrow> (rc \<times> msg_t) res" where
  "udp_dec b = Ok (parse_udp b (length b) zero_msg)"

lemma buf_slice_all [simp]: "buf_slice 0 (length b) b = b"
  by (simp add: buf_slice_def)

interpretation udp: codec udp_valid udp_enc udp_dec
  "\<lambda>(i, r, a). (None, udp_fill (dec_id i) (dec_id r) a zero_msg)"
  by unfold_locales
     (auto simp: udp_valid_def udp_enc_def udp_dec_def compose_udp_fill parse_udp_wire)

section \<open>Properties of the codecs\<close>

text \<open>A line that differs from the README's grammar in nothing but its letters is not accepted.\<close>

lemma tcp_wire_capital: "\<exists>c w. tcp_wire a = c # w \<and> c \<in> set ''AJMERB''"
  by (cases a) auto

lemma lower_case_rejected:
  "abnf_line 0 Bye (''bye'' @ [CR, LF]) \<and> (\<forall>m'. parse_tcp (''bye'' @ [CR, LF]) m \<noteq> Ok (None, m'))"
proof -
  have "abnf_line 0 Bye (''bye'' @ [CR, LF])" by code_simp
  moreover have "''bye'' @ [CR, LF] \<noteq> tcp_wire a" for a
    using tcp_wire_capital [of a] by auto
  then have "\<forall>m'. parse_tcp (''bye'' @ [CR, LF]) m \<noteq> Ok (None, m')"
    using parse_tcp_sound [of "''bye'' @ [CR, LF]" m]
    by (auto simp: parse_tcp_def cstr_0_id STRING_MAX_LENGTH_def)
  ultimately show ?thesis ..
qed

text \<open>
  C13. A TCP message (shorter than its buffer) is accepted exactly when its text is the line of a
  message of the README, with the literals in capitals and each length limit one above the documented
  one, and then the message struct holds exactly its fields.  Every accepted line is one that the
  ABNF of the README derives with these limits; the converse fails for literals in lower case.
\<close>

theorem parse_tcp_accepts_grammar:
  assumes "length buf < STRING_MAX_LENGTH"
  shows "(parse_tcp buf m = Ok (None, m') \<longleftrightarrow>
       (\<exists>a. grammar 1 a \<and> cstr 0 buf = tcp_wire a \<and> m' = fill a m)) \<and>
     (parse_tcp buf m = Ok (None, m') \<longrightarrow> (\<exists>a. abnf_line 1 a (cstr 0 buf) \<and> m' = fill a m))"
proof -
  have iff: "parse_tcp buf m = Ok (None, m') \<longleftrightarrow> (\<exists>a. grammar 1 a \<and> cstr 0 buf = tcp_wire a \<and> m' = fill a m)"
    using assms parse_tcp_sound [of "cstr 0 buf" m m'] parse_tcp_complete [of _ m]
    by (auto simp: parse_tcp_def)
  moreover have "abnf_line k a (tcp_wire a)" if "grammar k a" for k a
    using that derives_concat [of "pieces a"] by (simp add: abnf_line_def tcp_wire_pieces)
  ultimately show ?thesis by metis
qed

theorem parse_tcp_accepts_grammar_witness:
  "parse_tcp (tcp_wire (Join ''c1'' ''bob'')) zero_msg =
       Ok (None, fill (Join ''c1'' ''bob'') zero_msg) \<longleftrightarrow>
     (\<exists>a. grammar 1 a \<and> cstr 0 (tcp_wire (Join ''c1'' ''bob'')) = tcp_wire a \<and>
        fill (Join ''c1'' ''bob'') zero_msg = fill a zero_msg)"
  by (rule parse_tcp_accepts_grammar [THEN conjunct1]) (simp add: STRING_MAX_LENGTH_def)

text \<open>
  C17. Over TCP, a message of the grammar in which the user, display and channel names have fewer
  than 20 characters, so that each keeps a terminating zero in its array, is composed without
  overflow, and parsing the composed line yields the same message.
\<close>

theorem tcp_compose_parse:
  assumes "grammar 1 a" and "terminated a"
  shows "andthen (compose_tcp (fill a zero_msg)) (\<lambda>(rc, s). parse_tcp s zero_msg) =
     Ok (None, fill a zero_msg)"
  using tcp.roundtrip [of a] assms
  by (simp add: tcp_valid_def tcp_enc_def tcp_dec_def andthen_assoc case_prod_unfold)

theorem tcp_compose_parse_witness:
  "andthen (compose_tcp (fill (Msg ''bob'' ''hi there'') zero_msg)) (\<lambda>(rc, s). parse_tcp s zero_msg) =
     Ok (None, fill (Msg ''bob'' ''hi there'') zero_msg)"
  by (rule tcp_compose_parse) code_simp+

text \<open>
  C18. Over UDP, such a message (with a reference id below 256) is composed into exactly the announced
  number of bytes; parsing them yields the same fields, with the id and the reference id of a reply as
  decoded by msg_in[1] * 0xFF + msg_in[2], which are the same ids when they are below 128.
\<close>

theorem udp_compose_parse:
  assumes "grammar 1 a" and "terminated a" and "unat r < 256"
  shows "andthen (compose_udp (udp_fill i r a zero_msg))
       (\<lambda>(rc, s, n). Ok (parse_udp (buf_slice 0 n s) n zero_msg)) =
     Ok (None, udp_fill (dec_id i) (dec_id r) a zero_msg) \<and>
     (unat i < 128 \<longrightarrow> dec_id i = i) \<and> (unat r < 128 \<longrightarrow> dec_id r = r)"
  using udp.roundtrip [of "(i, r, a)"] assms dec_id_iff
  by (simp add: udp_valid_def udp_enc_def udp_dec_def andthen_assoc case_prod_unfold)

theorem udp_compose_parse_witness:
  "andthen (compose_udp (udp_fill 5 0 (Msg ''bob'' ''hi there'') zero_msg))
       (\<lambda>(rc, s, n). Ok (parse_udp (buf_slice 0 n s) n zero_msg)) =
     Ok (None, udp_fill 5 0 (Msg ''bob'' ''hi there'') zero_msg)"
proof -
  have "grammar 1 (Msg ''bob'' ''hi there'')" "terminated (Msg ''bob'' ''hi there'')" by code_simp+
  from udp_compose_parse [OF this, of 0 5] show ?thesis by (simp del: udp_fill.simps)
qed

text \<open>
  C39. A CONFIRM is composed into three bytes and parsed back to a CONFIRM, but the id that it
  confirms survives exactly when it is below 128: the decoder multiplies the high byte by 0xFF and
  reads both bytes as signed.  A CONFIRM for a message with a larger id is taken for another message.
\<close>

theorem udp_confirm_id:
  "\<exists>m'. andthen (compose_udp (m\<lparr>msg_type := e_confirm, data := set_confirm_ref_id i []\<rparr>))
       (\<lambda>(rc, s, n). Ok (n, parse_udp (buf_slice 0 n s) n zero_msg)) = Ok (3, None, m') \<and>
     msg_type m' = e_confirm \<and> (confirm_ref_id (data m') = i \<longleftrightarrow> unat i < 128)"
proof -
  have "compose_udp (m\<lparr>msg_type := e_confirm, data := set_confirm_ref_id i []\<rparr>) =
      Ok (None, [type_byte e_confirm, hi_byte i, lo_byte i], 3)"
    by (simp add: compose_udp_def Let_def sprintf_buf_def STRING_MAX_LENGTH_def)
  moreover have "buf_slice 0 3 [x, y, z] = [x, y, z]" for x y z by (simp add: buf_slice_def)
  ultimately show ?thesis using dec_id_iff [of i]
    by (simp add: parse_udp_def Let_def dec_id_bytes [unfolded One_nat_def] buf_at_def)
qed

theorem udp_confirm_id_witness:
  "\<exists>m'. andthen (compose_udp (zero_msg\<lparr>msg_type := e_confirm, data := set_confirm_ref_id 200 []\<rparr>))
       (\<lambda>(rc, s, n). Ok (n, parse_udp (buf_slice 0 n s) n zero_msg)) = Ok (3, None, m') \<and>
     confirm_ref_id (data m') \<noteq> 200"
proof -
  have "\<not> unat (200 :: message_id_t) < 128" by simp
  with udp_confirm_id [of 200 zero_msg] show ?thesis by blast
qed

lemma grammar_one_LF: "grammar k a \<Longrightarrow> LF \<notin> set (butlast (tcp_wire a))"
proof -
  have "\<not> alnum_dash LF" "\<not> is_graph LF" "\<not> is_print LF" by code_simp+
  then have "list_all alnum_dash s \<Longrightarrow> LF \<notin> set s" "list_all is_graph s \<Longrightarrow> LF \<notin> set s"
    "list_all is_print s \<Longrightarrow> LF \<notin> set s" for s by (auto simp: list_all_iff)
  then show "grammar k a \<Longrightarrow> LF \<notin> set (butlast (tcp_wire a))"
    by (cases a) (auto simp: butlast_append)
qed

lemma tcp_wire_last: "tcp_wire a \<noteq> []" "LF \<in> set (tcp_wire a)"
  by (cases a; simp)+

lemma fst_if_in: "fst x \<in> S \<Longrightarrow> fst y \<in> S \<Longrightarrow> fst (if c then x else y) \<in> S"
  by simp

lemma parse_tcp_text_rc: "fst (parse_tcp_text s m) \<in> {None, Some error_pars_tcp_parse_fail}"
  unfolding parse_tcp_text_def
  by (intro fst_if_in) (auto simp: tcp_fail_def split: option.split list.split)

text \<open>
  C40. Two complete TCP messages that arrive in one segment are rejected as a whole, whatever
  they are.
\<close>

theorem parse_tcp_two_lines:
  assumes "grammar 1 a" and "grammar 1 b"
    and "length (tcp_wire a @ tcp_wire b) < STRING_MAX_LENGTH"
  shows "\<exists>m'. parse_tcp (tcp_wire a @ tcp_wire b) m = Ok (Some error_pars_tcp_parse_fail, m')"
proof -
  let ?s = "tcp_wire a @ tcp_wire b"
  have c: "cstr 0 ?s = ?s" using assms grammar_no_NUL by (intro cstr_0_id) auto
  have "?s \<noteq> tcp_wire x" if "grammar 1 x" for x
    using grammar_one_LF [OF that] tcp_wire_last [of a] tcp_wire_last [of b]
    by (metis Un_iff butlast_append set_append)
  then have "\<forall>m'. parse_tcp ?s m \<noteq> Ok (None, m')"
    using parse_tcp_sound [of ?s m] assms(3) by (auto simp: parse_tcp_def c)
  moreover have "parse_tcp ?s m = Ok (parse_tcp_text ?s m)"
    using assms(3) by (auto simp: parse_tcp_def c)
  moreover have "fst (parse_tcp_text ?s m) \<in> {None, Some error_pars_tcp_parse_fail}"
    by (rule parse_tcp_text_rc)
  ultimately show ?thesis by (cases "parse_tcp_text ?s m") auto
qed

theorem parse_tcp_two_lines_witness:
  "\<exists>m'. parse_tcp (tcp_wire Bye @ tcp_wire Bye) zero_msg = Ok (Some error_pars_tcp_parse_fail, m')"
  by (rule parse_tcp_two_lines) (simp_all add: STRING_MAX_LENGTH_def)

text \<open>A full-length display name has no terminator: read as a string it goes on into the content.\<close>

lemma full_name_fields:
  assumes "NUL \<notin> set d" and "length d = 20" and "NUL \<notin> set t"
  shows "data_str msg_display_name_off (fill (Msg d t) zero_msg) = d @ t"
    and "data_str msg_content_off (fill (Msg d t) zero_msg) = t"
proof -
  have dt: "data (fill (Msg d t) zero_msg) = d @ t"
    using assms by (simp add: data_offsets buf_write_ext)
  have "cstr 0 (d @ t) = d @ t" "cstr 20 (d @ t) = t"
    using assms cstr_at [OF assms(3), of 20 "d @ t" "[]"] by (auto intro: cstr_0_id)
  with dt show "data_str msg_display_name_off (fill (Msg d t) zero_msg) = d @ t"
    "data_str msg_content_off (fill (Msg d t) zero_msg) = t"
    by (simp_all add: data_str_def data_offsets del: data_put_str(1))
qed

text \<open>
  A chat message whose display name has the full 20 characters is composed with the content
  appended to the name, and with more than 1006 characters of content the composed line
  overflows the 2048 bytes of the send buffer.
\<close>

lemma compose_tcp_full_name:
  assumes "NUL \<notin> set d" and "length d = 20" and "NUL \<notin> set t"
  shows "compose_tcp (fill (Msg d t) zero_msg) =
     (if length t \<le> 1006 then Ok (None, ''MSG FROM '' @ d @ t @ '' IS '' @ t @ [CR, LF])
      else Fault BufOverflow)"
  using full_name_fields [OF assms] assms(2)
  by (auto simp: compose_tcp_def sprintf_buf_def STRING_MAX_LENGTH_def)

end
