(* ===== verification/Delivery.thy ===== *)
theory Delivery
  imports Safety_Loop State_Rel Codec Demo
begin

text \<open>
  What the handlers do for the users: who receives a message that is forwarded to a channel, what
  happens to duplicates, to clients that are not authorized, during the shutdown, and when a
  client confirms; and what happens when a send over TCP fails.
\<close>

lemma client_at_after_send [simp]: "client_at p (after_send pr f a m r rc bs s) = client_at p s"
  by (simp add: client_at_def)

section \<open>Forwarding\<close>

text \<open>
  The abstract specification of a forward: the clients that are not in the end state, are in the
  channel of the sender and are not the sender, in the order of the queue; each gets the message
  with the next message id.
\<close>

definition recipients :: "client_t \<Rightarrow> client_t queue \<Rightarrow> client_t list" where
  "recipients c0 q = filter (\<lambda>c. c_state c \<noteq> s_en \<and> \<not> cmp_clients c0 c \<and> c_channel_id c = c_channel_id c0)
     (map n_data q)"

fun deliveries :: "msg_t \<Rightarrow> 32 word \<Rightarrow> client_t list \<Rightarrow> (int \<times> sockaddr_in \<times> bytes) list res" where
  "deliveries m cnt [] = Ok []"
| "deliveries m cnt (c # cs) = andthen (compose (c_protocol c) (m\<lparr>msg_id := ucast cnt\<rparr>)) (\<lambda>(rc, buf, n).
     andthen (deliveries m (cnt + 1) cs) (\<lambda>ws.
       Ok ((c_sockfd c, c_addr c, sent_bytes (c_protocol c) buf n) # ws)))"

lemma deliveries_Fault: "deliveries m cnt cs = Fault e \<Longrightarrow> e = BufOverflow"
  by (induction cs arbitrary: cnt) (auto simp: andthen_Fault_iff dest: compose_overflow)

lemma deliveries_length: "deliveries m cnt cs = Ok ws \<Longrightarrow> length ws = length cs"
  by (induction cs arbitrary: cnt ws) (auto simp: andthen_Ok_iff)

lemma recipients_simps [simp]:
  "recipients c0 [] = []"
  "recipients c0 (n # q) = (if c_state (n_data n) \<noteq> s_en \<and> \<not> cmp_clients c0 (n_data n) \<and>
     c_channel_id (n_data n) = c_channel_id c0 then n_data n # recipients c0 q else recipients c0 q)"
  by (simp_all add: recipients_def)

lemma forward_loop_delivers:
  assumes "wf_server s" and "quiet s" and "client_at cl s = Ok c0" and "clients s = xs @ ys" and "length ys < k"
  shows "case deliveries m (msg_cnt s) (recipients c0 ys) of
      Ok ws \<Rightarrow> \<exists>t. forward_loop k cl m (ql_first ys) s = Ok t \<and> clients t = clients s \<and>
        wire (os t) = wire (os s) @ ws
    | Fault e \<Rightarrow> forward_loop k cl m (ql_first ys) s = Fault e"
  using assms
proof (induction ys arbitrary: k s xs)
  case Nil
  then show ?case by (cases k) (auto simp: forward_loop.simps)
next
  case (Cons n ys)
  obtain j where k: "k = Suc j" "length ys < j" using Cons.prems(5) by (cases k) auto
  let ?c = "n_data n"
  have n: "n \<in> set (clients s)" using Cons.prems(4) by simp
  have at: "client_at (Some (n_ptr n)) s = Ok ?c" using client_at_ok [OF Cons.prems(1) n] .
  have nxt: "ql_next (Some (n_ptr n)) (clients s) = Ok (ql_first ys)"
    using Cons.prems(1,4) by (auto simp: wf_server_def intro!: ql_next_split)
  show ?case
  proof (cases "c_state ?c \<noteq> s_en \<and> \<not> cmp_clients c0 ?c \<and> c_channel_id ?c = c_channel_id c0")
    case False
    then have r: "recipients c0 (n # ys) = recipients c0 ys" by auto
    have fw: "forward_loop k cl m (ql_first (n # ys)) s = forward_loop j cl m (ql_first ys) s"
      using False at nxt Cons.prems(3) by (auto simp: k(1) forward_loop.simps)
    show ?thesis
      unfolding r fw using Cons.prems k(2) by (intro Cons.IH [of s "xs @ [n]" j]) auto
  next
    case True
    let ?m = "m\<lparr>msg_id := ucast (msg_cnt s)\<rparr>"
    show ?thesis
    proof (cases "compose (c_protocol ?c) ?m")
      case (Fault e)
      with True at Cons.prems(2,3) show ?thesis
        by (auto simp: k(1) forward_loop.simps send_msg_quiet stamp_def)
    next
      case (Ok x)
      obtain rc buf len where x: "x = (rc, buf, len)" by (cases x)
      let ?bs = "sent_bytes (c_protocol ?c) buf len"
      let ?t = "after_send (c_protocol ?c) (c_sockfd ?c) (c_addr ?c) ?m False rc ?bs s"
      have wf: "wf_server ?t" using own_fd_free [OF Cons.prems(1) n] Cons.prems(1)
        by (intro wf_after_send) auto
      have "forward_loop k cl m (ql_first (n # ys)) s = forward_loop j cl m (ql_first ys) ?t"
        using True at nxt Ok x Cons.prems(2,3)
        by (auto simp: k(1) forward_loop.simps send_msg_quiet stamp_def)
      moreover have "client_at cl ?t = Ok c0" using Cons.prems(3) by (simp add: client_at_def)
      ultimately show ?thesis
        using Cons.IH [OF wf _ _ _ k(2), of "xs @ [n]"] Cons.prems True Ok x
        by (auto split: res.splits)
    qed
  qed
qed

text \<open>
  C12. A message that is forwarded to a channel reaches exactly the recipients of the
  specification, in order, each with its own message id, and changes no client; it fails only if
  the message does not fit into the send buffer (no send and no allocation fails).
\<close>

theorem forward_delivers:
  assumes "wf_server s" and "quiet s" and "client_at cl s = Ok c0"
  shows "case deliveries m (msg_cnt s) (recipients c0 (clients s)) of
      Ok ws \<Rightarrow> \<exists>t. forward_msg_channel cl m s = Ok t \<and> clients t = clients s \<and> wire (os t) = wire (os s) @ ws
    | Fault e \<Rightarrow> e = BufOverflow \<and> forward_msg_channel cl m s = Fault BufOverflow"
  using forward_loop_delivers [OF assms, of "[]" "clients s" "Suc (length (clients s))" m]
    deliveries_Fault [of m "msg_cnt s" "recipients c0 (clients s)"]
  by (auto simp: forward_msg_channel_def split: res.splits)

lemma demo_deliveries:
  "deliveries (notification ''hi'') 10 (recipients (n_data ann) [ann, bob, cid, dan]) =
     Ok [(6, demo_addr 6, ''MSG FROM Server IS hi'' @ [CR, LF])]"
  by code_simp

theorem forward_delivers_witness:
  "\<exists>t. forward_msg_channel (Some 1) (notification ''hi'') demo_server = Ok t \<and>
     clients t = [ann, bob, cid, dan] \<and>
     wire (os t) = [(6, demo_addr 6, ''MSG FROM Server IS hi'' @ [CR, LF])]"
  using forward_delivers [OF demo_wf demo_quiet client_at_ok [OF demo_wf, of ann], of "notification ''hi''"]
    demo_deliveries by (simp add: ann_def calm_os_def)

section \<open>Confirmation and duplicates\<close>

definition confirm_bytes :: "message_id_t \<Rightarrow> bytes" where
  "confirm_bytes i = [type_byte e_confirm, hi_byte i, lo_byte i]"

lemma send_confirm:
  assumes "quiet s"
  shows "send_msg e_udp f a (confirm_msg i) False s =
     Ok (after_send e_udp f a (stamp False s (confirm_msg i)) False None (confirm_bytes i) s)"
  using assms
  by (simp add: send_msg_quiet compose_def compose_udp_def confirm_msg_def stamp_def Let_def sprintf_buf_def
      STRING_MAX_LENGTH_def sent_bytes_def buf_slice_def confirm_bytes_def)

lemma process_duplicate:
  assumes "wf_server s" and "quiet s" and "client_at p s = Ok c" and "c_protocol c = e_udp"
    and "msg_type m \<noteq> e_confirm" and "is_msg_confirmed c (msg_id m)"
  shows "process_msg p m s = Ok (after_send e_udp (c_sockfd c) (c_addr c) (stamp False s (confirm_msg (msg_id m)))
     False None (confirm_bytes (msg_id m)) s)"
  using assms by (simp add: process_msg_def acknowledge_def send_confirm)

text \<open>
  C14. A UDP message whose id is in the client's window of confirmed ids is confirmed again and
  otherwise ignored: no client, no buffered message and no other recipient is affected (no send
  and no allocation fails).
\<close>

theorem duplicate_only_confirmed:
  assumes "wf_server s" and "quiet s" and "client_at p s = Ok c" and "c_protocol c = e_udp"
    and "msg_type m \<noteq> e_confirm" and "is_msg_confirmed c (msg_id m)"
  shows "\<exists>t. process_msg p m s = Ok t \<and> clients t = clients s \<and> msg_out_buf t = msg_out_buf s \<and>
     wire (os t) = wire (os s) @ [(c_sockfd c, c_addr c, confirm_bytes (msg_id m))]"
  using process_duplicate [OF assms] by (simp add: is_kept_def confirm_msg_def)

definition cid_3 :: "client_t node" where
  "cid_3 = cid\<lparr>n_data := confirm_record 3 (n_data cid)\<rparr>"

definition demo_dup :: server where
  "demo_dup = demo_server\<lparr>clients := [ann, bob, cid_3, dan]\<rparr>"

lemma demo_dup_facts:
  "wf_server demo_dup" "quiet demo_dup" "client_at (Some 3) demo_dup = Ok (n_data cid_3)"
  "c_protocol (n_data cid_3) = e_udp" "is_msg_confirmed (n_data cid_3) 3"
proof -
  show "wf_server demo_dup" using demo_wf
    by (simp add: demo_dup_def wf_server_def cid_3_def demo_nodes new_client_def confirm_record_def)
  show "quiet demo_dup" using demo_quiet by (simp add: demo_dup_def quiet_def)
  show "client_at (Some 3) demo_dup = Ok (n_data cid_3)" "c_protocol (n_data cid_3) = e_udp"
    by (simp_all add: demo_dup_def client_at_def ql_at_def cid_3_def demo_nodes)
  show "is_msg_confirmed (n_data cid_3) 3" by code_simp
qed

theorem duplicate_only_confirmed_witness:
  "\<exists>t. process_msg (Some 3) (zero_msg\<lparr>msg_type := e_msg, msg_id := 3\<rparr>) demo_dup = Ok t \<and>
     clients t = clients demo_dup \<and> msg_out_buf t = msg_out_buf demo_dup \<and>
     wire (os t) = wire (os demo_dup) @
       [(c_sockfd (n_data cid_3), c_addr (n_data cid_3), confirm_bytes 3)]"
  using duplicate_only_confirmed [OF demo_dup_facts(1-4), of "zero_msg\<lparr>msg_type := e_msg, msg_id := 3\<rparr>"]
    demo_dup_facts(5) by simp

section \<open>Messages of the server over TCP\<close>

lemma compose_tcp_id: "compose_tcp (m\<lparr>msg_id := i\<rparr>) = compose_tcp m"
  by (simp add: compose_tcp_def data_str_def split: msg_type_t.split)

lemma send_tcp:
  assumes "quiet s" and "compose_tcp m = Ok (None, w)" and "NUL \<notin> set w"
  shows "send_msg e_tcp f a m False s = Ok (after_send e_tcp f a (stamp False s m) False None w s)"
  using assms by (simp add: send_msg_quiet compose_def compose_tcp_id stamp_def sent_bytes_def cstr_0_id)

definition server_err :: "string \<Rightarrow> msg_t" where
  "server_err text = fill (Err ''Server'' text) zero_msg"

lemma send_error_tcp:
  assumes "quiet s" and "grammar 1 (Err ''Server'' text)"
  shows "send_error e_tcp f a text s = Ok (after_send e_tcp f a (stamp False s (server_err text)) False None
     (tcp_wire (Err ''Server'' text)) s)"
proof -
  have "compose_tcp (server_err text) = Ok (None, tcp_wire (Err ''Server'' text))"
    unfolding server_err_def using assms(2) by (intro compose_tcp_fill) simp_all
  from send_tcp [OF assms(1) this] grammar_no_NUL [OF assms(2)] show ?thesis
    by (simp add: send_error_def server_err_def)
qed

section \<open>One client in the queue\<close>

lemma upd_client_eq:
  "wf_server s \<Longrightarrow> n \<in> set (clients s) \<Longrightarrow>
     upd_client (Some (n_ptr n)) f s = Ok (s\<lparr>clients := ql_map (n_ptr n) f (clients s)\<rparr>)"
  by (simp add: upd_client_def ql_upd_def ql_at_mem wf_server_def)

lemma client_at_map:
  "wf_server s \<Longrightarrow> n \<in> set (clients s) \<Longrightarrow>
     client_at (Some (n_ptr n)) (s\<lparr>clients := ql_map (n_ptr n) f (clients s)\<rparr>) = Ok (f (n_data n))"
  by (simp add: client_at_def ql_at_def ql_find_map ql_find_distinct wf_server_def)

lemma upd_client_map:
  "wf_server s \<Longrightarrow> n \<in> set (clients s) \<Longrightarrow>
     upd_client (Some (n_ptr n)) g (s\<lparr>clients := ql_map (n_ptr n) f (clients s)\<rparr>) =
     Ok (s\<lparr>clients := ql_map (n_ptr n) (\<lambda>c. g (f c)) (clients s)\<rparr>)"
  by (simp add: upd_client_def ql_upd_def ql_at_def ql_find_map ql_find_distinct wf_server_def ql_map_map)

lemma wf_server_map:
  assumes "wf_server s" and "\<And>c. c_sockfd (f c) = c_sockfd c \<and> c_protocol (f c) = c_protocol c"
  shows "wf_server (s\<lparr>clients := ql_map a f (clients s)\<rparr>)"
  using assms by (intro wf_server_clients) (auto simp: ql_map_def identity_def)

text \<open>Closing a client that is already in the end state.\<close>

lemma close_ended:
  assumes "wf_server s" and "n \<in> set (clients s)" and "c_protocol (n_data n) = e_tcp"
    and "\<And>c. c_sockfd (f c) = c_sockfd c \<and> c_protocol (f c) = c_protocol c \<and> c_state (f c) = s_en"
  shows "\<exists>t. close_client (Some (n_ptr n)) (s\<lparr>clients := ql_map (n_ptr n) f (clients s)\<rparr>) = Ok t \<and>
     clients t = filter (\<lambda>m. n_ptr m \<noteq> n_ptr n) (clients s) \<and> wire (os t) = wire (os s)"
proof -
  let ?s = "s\<lparr>clients := ql_map (n_ptr n) f (clients s)\<rparr>" and ?n = "n\<lparr>n_data := f (n_data n)\<rparr>"
  have wf: "wf_server ?s" using assms(1,4) by (intro wf_server_map) auto
  have n: "?n \<in> set (clients ?s)" using assms(2) by (auto simp: ql_map_def)
  have "filter (\<lambda>m. n_ptr m \<noteq> n_ptr n) (ql_map (n_ptr n) f q) = filter (\<lambda>m. n_ptr m \<noteq> n_ptr n) q" for q
    by (induction q) (auto simp: ql_map_def)
  with delete_client_ok [OF wf n] client_at_ok [OF wf n] assms(3,4) show ?thesis
    by (auto simp: close_client.simps)
qed

section \<open>Clients that are not authorized\<close>

text \<open>
  C15. A TCP client that has not been authorized and sends JOIN, MSG, ERR or REPLY gets one error
  message and is disconnected, and nobody else receives anything, as long as the server is not stopping
  and no send and no allocation fails.  (BYE is different: it is announced to others.)
\<close>

theorem unauthorized_refused:
  assumes wf: "wf_server s" "quiet s" and n: "n \<in> set (clients s)" and tcp: "c_protocol (n_data n) = e_tcp"
    and st: "c_state (n_data n) \<in> {s_ac, s_au}" and ty: "msg_type m \<in> {e_reply, e_join, e_msg, e_err}"
    and run: "\<not> stop_flag s"
  shows "\<exists>t. process_msg (Some (n_ptr n)) m s = Ok t \<and>
     clients t = filter (\<lambda>k. n_ptr k \<noteq> n_ptr n) (clients s) \<and>
     wire (os t) = wire (os s) @ [(c_sockfd (n_data n), c_addr (n_data n),
       tcp_wire (Err ''Server'' ''Client is not yet authorized.''))]"
proof -
  let ?e = "''Client is not yet authorized.''" and ?p = "Some (n_ptr n)" and ?c = "n_data n"
  let ?u = "after_send e_tcp (c_sockfd ?c) (c_addr ?c) (stamp False s (server_err ?e)) False None
    (tcp_wire (Err ''Server'' ?e)) s"
  have "grammar 1 (Err ''Server'' ?e)" by (simp add: is_graph.simps is_print.simps)
  then have err: "send_error e_tcp (c_sockfd ?c) (c_addr ?c) ?e s = Ok ?u"
    by (rule send_error_tcp [OF wf(2)])
  have u: "wf_server ?u" "n \<in> set (clients ?u)" using wf n by (auto intro!: wf_after_send)
  have chk: "check_state_transition ?p m s = Ok (False, ?u)"
    using client_at_ok [OF wf(1) n] st ty tcp err by (auto simp: check_state_transition_def)
  have "process_msg ?p m s =
      close_client ?p (?u\<lparr>clients := ql_map (n_ptr n) (\<lambda>c. to_end (set_state s_er c)) (clients ?u)\<rparr>)"
    using client_at_ok [OF wf(1) n] tcp st ty run chk upd_client_eq [OF u] client_at_map [OF u]
      upd_client_map [OF u]
    by (auto simp: process_msg_def acknowledge_def is_ending_def check_execute_def set_state_def)
  with close_ended [OF u tcp, of "\<lambda>c. to_end (set_state s_er c)"] show ?thesis
    by (simp add: to_end_def set_state_def)
qed

theorem unauthorized_refused_witness:
  "\<exists>t. process_msg (Some 4) (zero_msg\<lparr>msg_type := e_msg\<rparr>) demo_server = Ok t \<and>
     clients t = [ann, bob, cid] \<and>
     wire (os t) = [(8, demo_addr 8, tcp_wire (Err ''Server'' ''Client is not yet authorized.''))]"
  using unauthorized_refused [OF demo_wf demo_quiet, of dan "zero_msg\<lparr>msg_type := e_msg\<rparr>"]
  by (simp add: demo_nodes new_client_def calm_os_def)

section \<open>Authorization\<close>

lemma reply_data:
  assumes "NUL \<notin> set t"
  shows "reply_result (buf_write 4 t (set_reply_result b (set_reply_ref_id i []))) = b"
    and "cstr 4 (buf_write 4 t (set_reply_result b (set_reply_ref_id i []))) = t"
proof -
  obtain x y where le: "le16 i = [x, y]" by (simp add: le16_def)
  have e: "buf_write 4 t (set_reply_result b (set_reply_ref_id i [])) =
      [if b then CHR 0x01 else NUL, NUL] @ le16 i @ t"
    by (simp add: set_reply_result_def set_reply_ref_id_def buf_write_def eval_nat_numeral le)
  show "reply_result (buf_write 4 t (set_reply_result b (set_reply_ref_id i []))) = b"
    unfolding e by (simp add: reply_result_def buf_at_def)
  have "drop 4 ([if b then CHR 0x01 else NUL, NUL] @ le16 i @ t) = t"
    by (simp add: eval_nat_numeral le)
  then show "cstr 4 (buf_write 4 t (set_reply_result b (set_reply_ref_id i []))) = t"
    unfolding e using cstr_at [OF assms, of 4 _ "[]"] by simp
qed

lemma compose_reply:
  assumes "grammar 1 (Reply b t)"
  shows "compose_tcp (put_str reply_content_off t (zero_msg\<lparr>msg_type := e_reply,
      data := set_reply_result b (set_reply_ref_id i [])\<rparr>)) = Ok (None, tcp_wire (Reply b t))"
proof -
  have "NUL \<notin> set t" using assms by (auto dest: list_all_not_NUL)
  with reply_data [OF this, of b i] assms show ?thesis
    by (simp add: compose_tcp_def data_str_def reply_content_off_def sprintf_buf_def STRING_MAX_LENGTH_def)
qed

definition joined_default :: "msg_t \<Rightarrow> client_t \<Rightarrow> client_t" where
  "joined_default m c = set_channel_id (''default'' @ [NUL])
     (set_display_name (buf_slice 20 20 (data m)) (set_username (buf_slice 0 20 (data m)) c))"

definition auth_reply :: "msg_t \<Rightarrow> msg_t" where
  "auth_reply m = put_str reply_content_off ''Joined default channel.'' (zero_msg\<lparr>msg_type := e_reply,
     data := set_reply_result True (set_reply_ref_id (msg_id m) [])\<rparr>)"

text \<open>What \<open>process_msg\<close> does after the members of the channel were told.\<close>

definition auth_tail :: "ptr \<Rightarrow> msg_t \<Rightarrow> server \<Rightarrow> server res" where
  "auth_tail p m t = andthen (upd_client p (set_state s_op) t) (\<lambda>s3.
     andthen (client_at p s3) (\<lambda>c.
     andthen (send_msg (c_protocol c) (c_sockfd c) (c_addr c) (auth_reply m) False s3) (\<lambda>s4.
     andthen (client_at p s4) (\<lambda>c2. if c_state c2 = s_er
       then andthen (upd_client p to_end s4) (close_client p) else Ok s4))))"

lemma joined_default_same:
  "c_sockfd (joined_default m c) = c_sockfd c \<and> c_protocol (joined_default m c) = c_protocol c"
  "c_addr (joined_default m c) = c_addr c"
  by (simp_all add: joined_default_def) (simp add: set_channel_id_def set_display_name_def set_username_def)

lemma process_auth:
  assumes "wf_server s" and "n \<in> set (clients s)" and "c_protocol (n_data n) = e_tcp"
    and "c_state (n_data n) \<in> {s_ac, s_au}" and "msg_type m = e_auth" and "\<not> stop_flag s"
  shows "process_msg (Some (n_ptr n)) m s = andthen (notify_join (Some (n_ptr n))
     (s\<lparr>clients := ql_map (n_ptr n) (joined_default m) (clients s)\<rparr>)) (auth_tail (Some (n_ptr n)) m)"
  using client_at_ok [OF assms(1,2)] assms(3-) upd_client_eq [OF assms(1,2), of "joined_default m"]
  by (auto simp: process_msg_def acknowledge_def is_ending_def check_execute_def check_state_transition_def
      execute_msg_def exec_auth_def joined_default_def [abs_def] auth_display_name_off_def
      auth_username_off_def andthen_assoc zero_msg_def auth_tail_def [abs_def] auth_reply_def)

lemma auth_tail_ok:
  assumes wf: "wf_server t" "quiet t" and n: "n \<in> set (clients t)" and tcp: "c_protocol (n_data n) = e_tcp"
  shows "\<exists>u. auth_tail (Some (n_ptr n)) m t = Ok u \<and>
     clients u = ql_map (n_ptr n) (set_state s_op) (clients t) \<and>
     wire (os u) = wire (os t) @ [(c_sockfd (n_data n), c_addr (n_data n),
       tcp_wire (Reply True ''Joined default channel.''))]"
proof -
  let ?t = "t\<lparr>clients := ql_map (n_ptr n) (set_state s_op) (clients t)\<rparr>"
  have gr: "grammar 1 (Reply True ''Joined default channel.'')" by (simp add: is_print.simps)
  have "quiet ?t" using wf(2) by (simp add: quiet_def)
  from send_tcp [OF this compose_reply [OF gr] grammar_no_NUL [OF gr]]
    upd_client_eq [OF wf(1) n] client_at_map [OF wf(1) n] tcp
  show ?thesis by (simp add: auth_tail_def auth_reply_def) (simp add: set_state_def)
qed

lemma deliveries_fits: "fits m \<Longrightarrow> \<exists>ws. deliveries m cnt cs = Ok ws"
proof (induction cs arbitrary: cnt)
  case (Cons c cs)
  have "ends {} (compose (c_protocol c) (m\<lparr>msg_id := ucast cnt\<rparr>)) (\<lambda>x. True)"
    using Cons.prems by (intro ends_compose) simp_all
  with Cons.IH [OF Cons.prems, of "cnt + 1"] show ?case
    by (cases "compose (c_protocol c) (m\<lparr>msg_id := ucast cnt\<rparr>)") auto
qed simp

lemma channel_joined_default: "c_channel_id (joined_default m c) = ''default''"
proof -
  let ?w = "''default'' @ [NUL]"
  have "take 8 (drop 40 (buf_slice 0 60 (buf_write 40 ?w b))) = ?w" for b
    by (intro nth_equalityI) (auto simp: nth_buf_slice buf_at_write)
  then have w: "take 8 (drop 40 (client_bytes (joined_default m c))) = ?w"
    by (simp add: client_bytes_def joined_default_def set_channel_id_def)
  show ?thesis unfolding c_channel_id_def
  proof (rule cstr_at)
    show "drop 40 (client_bytes (joined_default m c)) =
        ''default'' @ NUL # drop 8 (drop 40 (client_bytes (joined_default m c)))"
      using append_take_drop_id [of 8 "drop 40 (client_bytes (joined_default m c))"] unfolding w by simp
  qed simp_all
qed

text \<open>
  C16. When a TCP client that is not yet authorized sends AUTH, it gets the names of the message,
  the channel default and the open state; the members of that channel get a notification with
  its new name, and then the client gets a positive reply (the server is not stopping, no send and no
  allocation fails).
\<close>

theorem auth_accepted:
  assumes wf: "wf_server s" "quiet s" and n: "n \<in> set (clients s)" and tcp: "c_protocol (n_data n) = e_tcp"
    and st: "c_state (n_data n) \<in> {s_ac, s_au}" and ty: "msg_type m = e_auth" and run: "\<not> stop_flag s"
  defines "c \<equiv> joined_default m (n_data n)" and "q \<equiv> ql_map (n_ptr n) (joined_default m) (clients s)"
  shows "\<exists>t ws. process_msg (Some (n_ptr n)) m s = Ok t \<and>
     clients t = ql_map (n_ptr n) (set_state s_op) q \<and> c_channel_id c = ''default'' \<and>
     deliveries (notification (''User '' @ c_display_name c @ '' joined default.'')) (msg_cnt s)
       (recipients c q) = Ok ws \<and>
     wire (os t) = wire (os s) @ ws @ [(c_sockfd c, c_addr c, tcp_wire (Reply True ''Joined default channel.''))]"
proof -
  let ?p = "Some (n_ptr n)" and ?s1 = "s\<lparr>clients := q\<rparr>" and ?n1 = "n\<lparr>n_data := c\<rparr>"
  let ?m = "notification (''User '' @ c_display_name c @ '' joined default.'')"
  have s1: "wf_server ?s1" "quiet ?s1" "?n1 \<in> set (clients ?s1)"
    using wf n wf_server_map [OF wf(1), of "joined_default m" "n_ptr n"] joined_default_same
    by (auto simp: quiet_def q_def c_def) (auto simp: ql_map_def)
  have at: "client_at ?p ?s1 = Ok c" using client_at_ok [OF s1(1,3)] by simp
  obtain ws where ws: "deliveries ?m (msg_cnt s) (recipients c q) = Ok ws" using deliveries_fits [of ?m] by auto
  have "notify_join ?p ?s1 = forward_msg_channel ?p ?m ?s1"
    using at by (simp add: notify_join_def c_def channel_joined_default)
  with forward_loop_delivers [OF s1(1,2) at, of "[]" q "Suc (length q)" ?m] ws obtain t where
    t: "notify_join ?p ?s1 = Ok t" "clients t = q" "wire (os t) = wire (os s) @ ws"
    by (auto simp: forward_msg_channel_def)
  have calm: "calm ?s1 t" using ends_OkD [OF forward_calm(2) [OF s1(1,2) at, where F = "{}"] t(1)] .
  from auth_tail_ok [OF calmD(1,2) [OF calm], of ?n1 m] t(2) s1(3) tcp joined_default_same obtain u where
    "auth_tail ?p m t = Ok u" "clients u = ql_map (n_ptr n) (set_state s_op) q"
    "wire (os u) = wire (os t) @ [(c_sockfd c, c_addr c, tcp_wire (Reply True ''Joined default channel.''))]"
    by (auto simp: c_def)
  with process_auth [OF wf(1) n tcp st ty run] t ws show ?thesis
    by (simp add: q_def [symmetric]) (simp add: c_def channel_joined_default)
qed

lemma demo_auth:
  "recipients (joined_default (fill (Auth ''dan'' ''Dan'' ''pw'') zero_msg) (n_data dan))
     (ql_map 4 (joined_default (fill (Auth ''dan'' ''Dan'' ''pw'') zero_msg)) [ann, bob, cid, dan]) =
     [n_data ann, n_data bob]"
  by code_simp

theorem auth_accepted_witness:
  "\<exists>t ws. process_msg (Some 4) (fill (Auth ''dan'' ''Dan'' ''pw'') zero_msg) demo_server = Ok t \<and>
     deliveries (notification ''User Dan joined default.'') 10 [n_data ann, n_data bob] = Ok ws \<and>
     wire (os t) = ws @ [(8, demo_addr 8, tcp_wire (Reply True ''Joined default channel.''))]"
proof -
  let ?m = "fill (Auth ''dan'' ''Dan'' ''pw'') zero_msg"
  have d: "c_display_name (joined_default ?m (n_data dan)) = ''Dan''" by code_simp
  have n: "dan \<in> set (clients demo_server)" "n_ptr dan = 4" "c_protocol (n_data dan) = e_tcp"
    "c_state (n_data dan) \<in> {s_ac, s_au}" "c_sockfd (n_data dan) = 8" "c_addr (n_data dan) = demo_addr 8"
    by (simp_all add: dan_def new_client_def)
  have "msg_type ?m = e_auth" by simp
  from auth_accepted [OF demo_wf demo_quiet n(1,3,4) this] show ?thesis
    using demo_auth d n joined_default_same by (simp add: calm_os_def del: fill.simps) blast
qed

section \<open>Confirmations\<close>

text \<open>
  C23. A confirmation of a message that is not BYE removes the first buffered message with the
  confirmed id and changes nothing else.  The message need not have been sent to the client that
  confirms it.  (The confirmation of a BYE also closes the client.)
\<close>

theorem confirm_removes:
  assumes wf: "wf_server s" and n: "n \<in> set (clients s)" and ty: "msg_type m = e_confirm"
    and k: "ql_get (confirm_ref_id (data m)) (msg_out_buf s) = Some (n_ptr k)" "k \<in> set (msg_out_buf s)"
    and nb: "msg_type (n_data k) \<noteq> e_bye"
  shows "process_msg (Some (n_ptr n)) m s =
     Ok (s\<lparr>msg_out_buf := snd (ql_remove (confirm_ref_id (data m)) (msg_out_buf s))\<rparr>)"
proof -
  have "distinct (ptrs (msg_out_buf s))" using wf by (simp add: wf_server_def)
  from exec_confirm_eq [OF this k] nb client_at_ok [OF wf n] ty show ?thesis
    by (simp add: process_msg_def acknowledge_def is_ending_def check_execute_def check_state_transition_def
        execute_msg_def)
qed

theorem confirm_removes_witness:
  "process_msg (Some 1) (confirm_msg 9) demo_server = Ok (demo_server\<lparr>msg_out_buf := []\<rparr>)"
  using confirm_removes [OF demo_wf, of ann "confirm_msg 9" demo_msg]
  by (simp add: confirm_msg_def ann_def demo_msg_def)

section \<open>UDP clients\<close>

lemma close_udp_level:
  assumes l: "level s0 s" and n: "n \<in> set (clients s0)" "c_protocol (n_data n) = e_udp"
  shows "ends F (close_client (Some (n_ptr n)) s) (level s0)"
proof -
  have "identity n \<in> set (map identity (clients s))" using l n(1) by (simp add: level_def)
  then obtain k where k: "k \<in> set (clients s)" "identity k = identity n" by auto
  then have p: "n_ptr k = n_ptr n" "c_protocol (n_data k) = e_udp" using n(2) by (auto simp: identity_def)
  have "map identity (ql_map (n_ptr n) to_end (clients s)) = map identity (clients s)"
    by (auto simp: ql_map_def identity_def)
  with close_client_safe [OF levelD [OF l] k(1), where F = F] p l show ?thesis
    by (auto simp: closed_clients_def level_def intro: shrinks_trans elim!: ends_wp)
qed

text \<open>
  C33. No message of a UDP client, BYE and the confirmation of a BYE included, removes a client
  from the queue, as long as no send and no allocation fails: only a timeout does.
\<close>

theorem udp_messages_delete_nobody:
  assumes wf: "wf_server s" "quiet s" and n: "n \<in> set (clients s)" "c_protocol (n_data n) = e_udp"
  shows "ends only_overflow (process_msg (Some (n_ptr n)) m s) (\<lambda>t. ptrs (clients t) = ptrs (clients s))"
proof -
  have "ends only_overflow (process_msg (Some (n_ptr n)) m s) (level s)"
    using n by (intro process_msg_rule [OF level_refl [OF wf]] close_udp_level) (auto simp: present_def)
  then show ?thesis by (rule ends_wp) (simp add: level_def ptrs_identity)
qed

theorem udp_messages_delete_nobody_witness:
  "ends only_overflow (process_msg (Some 3) bye_msg demo_server) (\<lambda>t. ptrs (clients t) = [1, 2, 3, 4])"
  using udp_messages_delete_nobody [OF demo_wf demo_quiet, of cid bye_msg] by (simp add: demo_nodes)

section \<open>Shutdown\<close>

text \<open>
  While the server is stopping, a message that is neither CONFIRM nor BYE has no effect
  beyond its confirmation: no client changes its state or names, nothing is buffered and nobody
  else receives anything.
\<close>

lemma stopping_ignores:
  assumes wf: "wf_server s" "quiet s" and n: "n \<in> set (clients s)" and stop: "stop_flag s"
    and m: "\<not> is_ending m"
  shows "\<exists>t. process_msg (Some (n_ptr n)) m s = Ok t \<and> msg_out_buf t = msg_out_buf s \<and>
     map (\<lambda>k. (n_ptr k, c_state (n_data k), c_names (n_data k))) (clients t) =
     map (\<lambda>k. (n_ptr k, c_state (n_data k), c_names (n_data k))) (clients s) \<and>
     wire (os t) = wire (os s) @ (if c_protocol (n_data n) = e_udp
       then [(c_sockfd (n_data n), c_addr (n_data n), confirm_bytes (msg_id m))] else [])"
proof (cases "c_protocol (n_data n)")
  case e_tcp
  with client_at_ok [OF wf(1) n] stop m show ?thesis by (simp add: process_msg_def acknowledge_def)
next
  case e_udp
  let ?c = "n_data n" and ?p = "Some (n_ptr n)"
  let ?t = "after_send e_udp (c_sockfd ?c) (c_addr ?c) (stamp False s (confirm_msg (msg_id m))) False None
    (confirm_bytes (msg_id m)) s"
  have t: "wf_server ?t" "n \<in> set (clients ?t)"
    using wf n e_udp own_fd_free [OF wf(1) n] by (auto intro!: wf_after_send)
  have same: "map (\<lambda>k. (n_ptr k, c_state (n_data k), c_names (n_data k))) (ql_map a (confirm_record i) q) =
      map (\<lambda>k. (n_ptr k, c_state (n_data k), c_names (n_data k))) q" for a i q
    by (auto simp: ql_map_def confirm_record_def)
  have "acknowledge ?p m s = (if is_msg_confirmed ?c (msg_id m) then Ok (True, ?t)
      else Ok (False, ?t\<lparr>clients := ql_map (n_ptr n) (confirm_record (msg_id m)) (clients ?t)\<rparr>))"
    using client_at_ok [OF wf(1) n] e_udp m send_confirm [OF wf(2)] upd_client_eq [OF t]
    by (auto simp: acknowledge_def is_ending_def)
  with stop m same e_udp show ?thesis
    by (auto simp: process_msg_def is_kept_def confirm_msg_def)
qed

end
