(* ===== verification/Failures.thy ===== *)
theory Failures
  imports Delivery
begin

text \<open>
  What goes wrong, stated and proved on the model: a failing send over TCP frees a client twice,
  a client id that is used again deletes the wrong client, the buffer of a timeout overflows when
  a message has no client, and an unconfirmed message is not sent again for nearly an hour.
\<close>

section \<open>A failing send over TCP\<close>

lemma get_client_by_fd_own:
  "distinct (fds q) \<Longrightarrow> n \<in> set q \<Longrightarrow> get_client_by_fd q (c_sockfd (n_data n)) = Some (n_ptr n)"
  by (induction q) (auto simp: fds_def)

lemma send_try_fails:
  assumes "send_fail (os s) = True # fs" and "compose_tcp m = Ok (None, w)"
  shows "\<exists>i m1 t. send_try e_tcp f a m r s = Ok (True, i, m1, t) \<and> clients t = clients s \<and>
     wf_server t = wf_server s \<and> send_fail (os t) = fs"
  using assms compose_tcp_id [of _ m]
  by (auto simp: send_try_def compose_def server_send_def pop_def wf_server_def Let_def)

lemma compose_bye: "compose_tcp bye_msg = Ok (None, tcp_wire Bye)"
  by (simp add: compose_tcp_def bye_msg_def sprintf_buf_def STRING_MAX_LENGTH_def)

text \<open>The farewell to a client whose connection is broken deletes the client.\<close>

lemma bye_fails:
  assumes wf: "wf_server s" and n: "n \<in> set (clients s)" and tcp: "c_protocol (n_data n) = e_tcp"
    and en: "c_state (n_data n) = s_en" and fail: "send_fail (os s) = True # fs"
  shows "\<exists>t. send_msg e_tcp (c_sockfd (n_data n)) a bye_msg False s = Ok t \<and>
     clients t = filter (\<lambda>k. n_ptr k \<noteq> n_ptr n) (clients s)"
proof -
  from send_try_fails [OF fail compose_bye] obtain i m1 t where
    t: "send_try e_tcp (c_sockfd (n_data n)) a bye_msg False s = Ok (True, i, m1, t)" "clients t = clients s"
      "wf_server t" using wf by blast
  have d: "distinct (fds (clients s))" using wf by (simp add: wf_server_def)
  have nt: "n \<in> set (clients t)" using n t(2) by simp
  from delete_client_ok [OF t(3) nt] client_at_ok [OF t(3) nt] en tcp
  show ?thesis
    using t(1,2) get_client_by_fd_own [OF d n] by (auto simp: send_msg.simps close_client.simps)
qed

text \<open>
  C36. When a send to a TCP client fails and so does the farewell that follows, send_msg uses the
  client after it was freed: close_client sends BYE, the failure of that send closes and deletes
  the client, and the outer close_client then reads and deletes it again.
\<close>

theorem tcp_send_failure_use_after_free:
  assumes wf: "wf_server s" and n: "n \<in> set (clients s)" and tcp: "c_protocol (n_data n) = e_tcp"
    and act: "c_state (n_data n) \<noteq> s_en" and fail: "send_fail (os s) = True # True # fs"
    and m: "compose_tcp m = Ok (None, w)"
  shows "send_msg e_tcp (c_sockfd (n_data n)) a m r s = Fault UseAfterFree"
proof -
  let ?p = "Some (n_ptr n)"
  from send_try_fails [OF fail m, of "c_sockfd (n_data n)" a r] obtain i m1 t where
    t: "send_try e_tcp (c_sockfd (n_data n)) a m r s = Ok (True, i, m1, t)" "clients t = clients s"
      "wf_server t" "send_fail (os t) = True # fs" using wf by blast
  let ?u = "t\<lparr>clients := ql_map (n_ptr n) to_end (clients t)\<rparr>" and ?n = "n\<lparr>n_data := to_end (n_data n)\<rparr>"
  have nt: "n \<in> set (clients t)" using n t(2) by simp
  have u: "wf_server ?u" "?n \<in> set (clients ?u)" "send_fail (os ?u) = True # fs"
    using wf_server_map [OF t(3), of to_end "n_ptr n"] nt t(4) by (auto simp: ql_map_def)
  obtain v where v: "send_msg e_tcp (c_sockfd (n_data n)) (c_addr (n_data n)) bye_msg False ?u = Ok v"
    "clients v = filter (\<lambda>k. n_ptr k \<noteq> n_ptr n) (clients ?u)"
    using bye_fails [OF u(1,2) _ _ u(3), of "c_addr (n_data n)"] tcp by (auto simp: to_end_def)
  have gone: "client_at ?p v = Fault UseAfterFree"
    by (auto simp: client_at_def ql_at_def v(2) ptrs_def split: option.split dest: ql_find_SomeD)
  have "close_client ?p t = Fault UseAfterFree"
    using client_at_ok [OF t(3) nt] act upd_client_eq [OF t(3) nt] v(1) tcp gone
    by (simp add: close_client.simps [of ?p t])
  moreover have "get_client_by_fd (clients t) (c_sockfd (n_data n)) = ?p"
    using wf n t(2) by (intro get_client_by_fd_own) (auto simp: wf_server_def)
  ultimately show ?thesis using t(1) by (simp add: send_msg.simps)
qed

theorem tcp_send_failure_use_after_free_witness:
  "send_msg e_tcp 5 (demo_addr 5) bye_msg False
     (demo_server\<lparr>os := calm_os\<lparr>send_fail := [True, True]\<rparr>\<rparr>) = Fault UseAfterFree"
proof -
  have "wf_server (demo_server\<lparr>os := calm_os\<lparr>send_fail := [True, True]\<rparr>\<rparr>)"
    using demo_wf by (simp add: wf_server_def)
  from tcp_send_failure_use_after_free [OF this, of ann "[]" bye_msg] compose_bye show ?thesis
    by (simp add: ann_def)
qed

section \<open>Client ids\<close>

text \<open>
  C37. Client ids have 16 bits and delete_client removes by id: when two clients have the same id,
  deleting the later one frees the earlier one, which stays connected, and keeps the one that
  was to be deleted.
\<close>

theorem delete_client_id_reuse:
  assumes q: "clients s = xs @ k # ys" and n: "n \<in> set ys" and id: "n_id n = n_id k"
    and first: "n_id k \<notin> set (ids xs)" and dc: "distinct (ptrs (clients s))"
    and dm: "distinct (ptrs (msg_out_buf s))" and pl: "poll_ok (poll s)"
  shows "\<exists>t. delete_client (Some (n_ptr n)) s = Ok t \<and> clients t = xs @ ys"
proof -
  let ?f = "c_sockfd (n_data n)"
  obtain b where b: "purge_loop (Suc (length (msg_out_buf s))) ?f (ql_first (msg_out_buf s)) (msg_out_buf s) = Ok b"
    using purge_loop_ok [OF dm, of "[]" "msg_out_buf s" "Suc (length (msg_out_buf s))" ?f] by auto
  obtain found p where p: "del_poll_fd ?f (poll s) = Ok (found, p)" using del_poll_fd_ok [OF pl, of ?f] by blast
  have at: "ql_at (Some (n_ptr n)) (clients s) = Ok n" using q n dc by (intro ql_at_mem) auto
  have "snd (ql_remove (n_id k) (xs @ k # ys)) = xs @ ys" using first
    by (induction xs) (auto simp: case_prod_beta)
  with b p at q id show ?thesis
    by (cases found) (simp_all add: delete_client_def client_at_def Let_def os_close_def)
qed

theorem delete_client_id_reuse_witness:
  "\<exists>t. delete_client (Some 2) (demo_server\<lparr>clients := [ann, bob\<lparr>n_id := 0\<rparr>]\<rparr>) = Ok t \<and>
     clients t = [bob\<lparr>n_id := 0\<rparr>]"
  using delete_client_id_reuse [of "demo_server\<lparr>clients := [ann, bob\<lparr>n_id := 0\<rparr>]\<rparr>" "[]" ann
      "[bob\<lparr>n_id := 0\<rparr>]" "bob\<lparr>n_id := 0\<rparr>"] demo_fds_ok
  by (simp add: ann_def bob_def)

section \<open>Channel names without a terminator\<close>

text \<open>
  A channel name of the full 20 characters, which the README allows, has no terminator in its array:
  what is compared as its name goes on with the bytes of the client's message counter.
\<close>

lemma channel_full:
  assumes "NUL \<notin> set (buf_slice 40 20 (c_names c))"
  obtains r where "c_channel_id c = buf_slice 40 20 (c_names c) @ cstr 0 (char_of (unat (msg_count c) mod 256) # r)"
proof -
  have "drop 40 (buf_slice 0 60 (c_names c)) = buf_slice 40 20 (c_names c)"
    by (intro nth_equalityI) (auto simp: nth_buf_slice)
  then have "drop 40 (client_bytes c) = buf_slice 40 20 (c_names c) @ char_of (unat (msg_count c) mod 256) #
      char_of (unat (msg_count c) div 256) # concat (map le16 (msg_in_confirmed c))"
    by (simp add: client_bytes_def le16_def)
  then have "c_channel_id c = buf_slice 40 20 (c_names c) @ cstr 0 (char_of (unat (msg_count c) mod 256) #
      char_of (unat (msg_count c) div 256) # concat (map le16 (msg_in_confirmed c)))"
    using cstr_drop [of 0 40 "client_bytes c"] cstr_0_append [OF assms] by (simp add: c_channel_id_def)
  then show ?thesis by (rule that)
qed

lemma full_channels_differ:
  assumes "NUL \<notin> set (buf_slice 40 20 (c_names c))" and "buf_slice 40 20 (c_names d) = buf_slice 40 20 (c_names c)"
    and "unat (msg_count d) mod 256 \<noteq> unat (msg_count c) mod 256"
  shows "c_channel_id d \<noteq> c_channel_id c"
proof -
  obtain r where c: "c_channel_id c = buf_slice 40 20 (c_names c) @ cstr 0 (char_of (unat (msg_count c) mod 256) # r)"
    using channel_full [OF assms(1)] .
  obtain r' where d: "c_channel_id d = buf_slice 40 20 (c_names d) @ cstr 0 (char_of (unat (msg_count d) mod 256) # r')"
    using channel_full [of d] assms(1,2) by auto
  have "(of_char (char_of (k mod 256)) :: nat) = k mod 256" for k :: nat by simp
  then have "char_of (unat (msg_count d) mod 256) \<noteq> (char_of (unat (msg_count c) mod 256) :: char)"
    using assms(3) by metis
  moreover have "x \<noteq> y \<Longrightarrow> cstr 0 (x # t) \<noteq> cstr 0 (y # t')" for x y t t' by (auto simp: cstr_def)
  ultimately show ?thesis unfolding c d assms(2) same_append_eq by blast
qed

text \<open>
  The members of such a channel whose counters differ do not hear each other: a message of a client is
  forwarded to nobody, although all the others have the same channel name.
\<close>

lemma full_channel_deaf:
  assumes wf: "wf_server s" "quiet s" and n: "n \<in> set (clients s)"
    and name: "NUL \<notin> set (buf_slice 40 20 (c_names (n_data n)))"
    and same: "\<And>k. k \<in> set (clients s) \<Longrightarrow> buf_slice 40 20 (c_names (n_data k)) = buf_slice 40 20 (c_names (n_data n))"
    and count: "\<And>k. k \<in> set (clients s) \<Longrightarrow> n_ptr k \<noteq> n_ptr n \<Longrightarrow>
      unat (msg_count (n_data k)) mod 256 \<noteq> unat (msg_count (n_data n)) mod 256"
  shows "\<exists>t. forward_msg_channel (Some (n_ptr n)) m s = Ok t \<and> clients t = clients s \<and> wire (os t) = wire (os s)"
proof -
  have "cmp_clients (n_data n) (n_data k) \<or> c_channel_id (n_data k) \<noteq> c_channel_id (n_data n)"
    if k: "k \<in> set (clients s)" for k
  proof (cases "n_ptr k = n_ptr n")
    case True
    with k n wf(1) have "k = n" by (auto simp: wf_server_def ptrs_def distinct_map dest: inj_onD)
    then show ?thesis by (simp add: cmp_clients_def)
  next
    case False
    with full_channels_differ [OF name same [OF k] count [OF k]] show ?thesis by simp
  qed
  then have "recipients (n_data n) (clients s) = []" by (auto simp: recipients_def filter_empty_conv)
  with forward_loop_delivers [OF wf client_at_ok [OF wf(1) n], of "[]" "clients s" "Suc (length (clients s))" m]
  show ?thesis by (auto simp: forward_msg_channel_def)
qed

end
