(* ===== verification/Timeouts.thy ===== *)
theory Timeouts
  imports Failures
begin

text \<open>
  The timers: the retransmission of unconfirmed messages and the shutdown.
\<close>

section \<open>Rounds without a timeout\<close>

lemma poll_timeout_75: "poll_timeout s = 75"
  by (simp add: poll_timeout_def get_next_timeout_def next_timeout_loop_0 POLL_INTERVAL_def Let_def)

definition tick :: "msg_t node \<Rightarrow> msg_t node" where
  "tick n = n\<lparr>n_data := (n_data n)\<lparr>timeout := timeout (n_data n) - 75\<rparr>\<rparr>"

text \<open>Not the message's turn: confirmed, or time is left after this interval.\<close>

definition waits :: "msg_t node \<Rightarrow> bool" where
  "waits n \<longleftrightarrow> is_confirmed (n_data n) \<or> timeout (n_data n) \<noteq> 75"

lemma ptrs_tick [simp]: "ptrs (map tick q) = ptrs q"
  by (simp add: ptrs_def tick_def)

lemma upd_msg_split:
  assumes "distinct (ptrs (msg_out_buf s))" and "msg_out_buf s = xs @ n # ys"
  shows "upd_msg (Some (n_ptr n)) g s = Ok (s\<lparr>msg_out_buf := xs @ n\<lparr>n_data := g (n_data n)\<rparr> # ys\<rparr>)"
proof -
  have "ql_map (n_ptr n) g xs = xs" "ql_map (n_ptr n) g ys = ys"
    using assms by (auto intro!: ql_map_absent)
  then have "ql_map (n_ptr n) g (xs @ n # ys) = xs @ n\<lparr>n_data := g (n_data n)\<rparr> # ys"
    by (simp add: ql_map_def)
  with assms ql_at_mem [of n "msg_out_buf s"] show ?thesis by (simp add: upd_msg_def ql_upd_def)
qed

lemma msg_at_split:
  "distinct (ptrs (msg_out_buf s)) \<Longrightarrow> msg_out_buf s = xs @ n # ys \<Longrightarrow> msg_at (Some (n_ptr n)) s = Ok (n_data n)"
  by (simp add: msg_at_def ql_at_mem)

text \<open>The decrement at the start of the loop body.\<close>

lemma item_ticks:
  assumes "distinct (ptrs (msg_out_buf s))" and "msg_out_buf s = xs @ n # ys"
  defines "t \<equiv> s\<lparr>msg_out_buf := xs @ tick n # ys\<rparr>"
  shows "upd_msg (Some (n_ptr n)) (\<lambda>m. m\<lparr>timeout := timeout m - word_of_int 75\<rparr>) s = Ok t"
    and "msg_at (Some (n_ptr n)) t = Ok (n_data (tick n))"
  using upd_msg_split [OF assms(1,2)] msg_at_split [of t xs "tick n" ys] assms(1,2)
  by (simp_all add: t_def tick_def)

lemma timeout_item_waits:
  assumes "distinct (ptrs (xs @ n # ys))" and "msg_out_buf s = xs @ n # ys" and "waits n"
  shows "timeout_item 75 cap (Some (n_ptr n)) d s = Ok (d, s\<lparr>msg_out_buf := xs @ tick n # ys\<rparr>)"
  using item_ticks [of s xs n ys] assms by (auto simp: timeout_item_def waits_def tick_def)

lemma timeout_loop_waits:
  assumes "distinct (ptrs (xs @ ys))" and "msg_out_buf s = xs @ ys" and "\<forall>n \<in> set ys. waits n"
    and "length ys < k"
  shows "timeout_loop k 75 cap (ql_first ys) d s = Ok (d, s\<lparr>msg_out_buf := xs @ map tick ys\<rparr>)"
  using assms
proof (induction ys arbitrary: k s xs)
  case Nil
  then show ?case by (cases k) (auto simp: timeout_loop.simps)
next
  case (Cons n ys)
  obtain j where k: "k = Suc j" "length ys < j" using Cons.prems(4) by (cases k) auto
  let ?s = "s\<lparr>msg_out_buf := xs @ tick n # ys\<rparr>"
  have p: "n_ptr (tick n) = n_ptr n" by (simp add: tick_def)
  have item: "timeout_item 75 cap (Some (n_ptr n)) d s = Ok (d, ?s)"
    using Cons.prems by (intro timeout_item_waits) auto
  have "ql_next (Some (n_ptr (tick n))) (xs @ tick n # ys) = Ok (ql_first ys)"
    using Cons.prems(1) by (intro ql_next_split) (auto simp: p)
  with item p Cons.IH [of "xs @ [tick n]" ?s j] Cons.prems k show ?case
    by (simp add: timeout_loop.simps)
qed

lemma udp_timeout_waits:
  assumes "distinct (ptrs (msg_out_buf s))" and "\<forall>n \<in> set (msg_out_buf s). waits n"
  shows "do_udp_timeout 75 s = Ok (s\<lparr>msg_out_buf := map tick (msg_out_buf s)\<rparr>)"
  using timeout_loop_waits [of "[]" "msg_out_buf s" s] assms by (simp add: do_udp_timeout_def)

section \<open>When a message is sent again\<close>

primrec idle_rounds :: "nat \<Rightarrow> server \<Rightarrow> server res" where
  "idle_rounds 0 s = Ok s"
| "idle_rounds (Suc k) s = andthen (main_iter Idle s) (idle_rounds k)"

lemma idle_round_waits:
  assumes "\<not> stop_flag s \<or> msg_out_buf s \<noteq> []" and "distinct (ptrs (msg_out_buf s))"
    and "\<forall>n \<in> set (msg_out_buf s). waits n"
  shows "main_iter Idle s = Ok (s\<lparr>poll := set_revents [] (poll s), stop_timeout := STOP_TIMEOUT,
     msg_out_buf := map tick (msg_out_buf s)\<rparr>)"
  using assms udp_timeout_waits [of "s\<lparr>poll := set_revents [] (poll s), stop_timeout := STOP_TIMEOUT\<rparr>"]
  by (auto simp: main_iter_def poll_idle_def poll_timeout_75)

text \<open>
  The timer is a 16-bit unsigned number and is compared with 0, so it does not expire when it
  passes 0 but only when it hits 0: from 250 in steps of 75 after 43694 steps.
\<close>

lemma timer_hits:
  assumes "k < 43694"
  shows "(250 :: 16 word) - 75 * of_nat k \<noteq> 0"
proof
  assume "(250 :: 16 word) - 75 * of_nat k = 0"
  then have "(of_nat (75 * k) :: 16 word) = of_nat 250" by (simp add: algebra_simps)
  then have "unat (of_nat (75 * k) :: 16 word) = unat (of_nat 250 :: 16 word)" by (rule arg_cong)
  then have "75 * k mod 65536 = 75 * 43694 mod 65536" unfolding unat_of_nat by simp
  then have "65536 dvd 75 * 43694 - 75 * k"
    using assms mod_eq_dvd_iff_nat [of "75 * k" "75 * 43694" 65536] by simp
  then have "65536 dvd 75 * (43694 - k)" by (simp add: diff_mult_distrib2)
  moreover have "coprime ((2 :: nat) ^ 16) 75" by (simp only: coprime_power_left_iff) simp
  then have "coprime (65536 :: nat) 75" by simp
  ultimately have "65536 dvd 43694 - k" by (metis coprime_dvd_mult_right_iff)
  with assms show False by (auto dest: dvd_imp_le)
qed

lemma ticks_data:
  "timeout (n_data ((tick ^^ k) n)) = timeout (n_data n) - 75 * of_nat k"
  "is_confirmed (n_data ((tick ^^ k) n)) = is_confirmed (n_data n)" "n_ptr ((tick ^^ k) n) = n_ptr n"
  by (induction k) (simp_all add: tick_def algebra_simps)

lemma idle_rounds_wait:
  assumes "\<not> stop_flag s \<or> msg_out_buf s \<noteq> []" and "distinct (ptrs (msg_out_buf s))"
    and "\<And>j n. j < k \<Longrightarrow> n \<in> set (msg_out_buf s) \<Longrightarrow> timeout (n_data n) - 75 * of_nat j \<noteq> 75"
  shows "\<exists>t. idle_rounds k s = Ok t \<and> wire (os t) = wire (os s) \<and> exited t = exited s \<and>
     msg_out_buf t = map (tick ^^ k) (msg_out_buf s)"
  using assms
proof (induction k arbitrary: s)
  case (Suc k)
  let ?s = "s\<lparr>poll := set_revents [] (poll s), stop_timeout := STOP_TIMEOUT,
     msg_out_buf := map tick (msg_out_buf s)\<rparr>"
  have "\<forall>n \<in> set (msg_out_buf s). waits n" using Suc.prems(3) [of 0] by (simp add: waits_def)
  with Suc.prems(1,2) have "main_iter Idle s = Ok ?s" by (rule idle_round_waits)
  moreover have "timeout (n_data n) - 75 * of_nat j \<noteq> 75" if "j < k" "n \<in> set (map tick (msg_out_buf s))" for j n
    using that Suc.prems(3) [of "Suc j"] by (auto simp: tick_def algebra_simps)
  with Suc.prems have "\<exists>t. idle_rounds k ?s = Ok t \<and> wire (os t) = wire (os ?s) \<and> exited t = exited ?s \<and>
      msg_out_buf t = map (tick ^^ k) (msg_out_buf ?s)" by (intro Suc.IH) auto
  ultimately show ?case by (auto simp: funpow_swap1)
qed simp

text \<open>
  C34. With the default timeout of 250 ms nothing is sent again for 43693 idle rounds of 75 ms,
  about 54 minutes: the unsigned timer passes below 0 without expiring.
\<close>

theorem no_retransmission_for_43693_rounds:
  assumes "\<not> stop_flag s" and "distinct (ptrs (msg_out_buf s))" and "k \<le> 43693"
    and "\<forall>n \<in> set (msg_out_buf s). timeout (n_data n) = 250"
  shows "\<exists>t. idle_rounds k s = Ok t \<and> wire (os t) = wire (os s) \<and>
     (\<forall>n \<in> set (msg_out_buf t). timeout (n_data n) = 250 - 75 * of_nat k)"
proof -
  have "\<exists>t. idle_rounds k s = Ok t \<and> wire (os t) = wire (os s) \<and> exited t = exited s \<and>
      msg_out_buf t = map (tick ^^ k) (msg_out_buf s)"
  proof (rule idle_rounds_wait [OF disjI1 [OF assms(1)] assms(2)])
    fix j n assume "j < k" "n \<in> set (msg_out_buf s)"
    with timer_hits [of "Suc j"] assms(3,4) show "timeout (n_data n) - 75 * of_nat j \<noteq> 75"
      by (auto simp: algebra_simps)
  qed
  with assms(4) show ?thesis by (auto simp: ticks_data)
qed

theorem no_retransmission_for_43693_rounds_witness:
  "\<exists>t. idle_rounds 43693 demo_server = Ok t \<and> wire (os t) = []"
  using no_retransmission_for_43693_rounds [of demo_server 43693] by (auto simp: demo_msg_def calm_os_def)

section \<open>Messages without a client\<close>

text \<open>
  A message without a client, whose timer runs out and whose retransmissions are used up.  Every one of
  them puts a NULL into the array of clients to be deleted.
\<close>

definition orphan :: "server \<Rightarrow> msg_t node \<Rightarrow> bool" where
  "orphan s n \<longleftrightarrow> timeout (n_data n) = 75 \<and> \<not> is_confirmed (n_data n) \<and>
     \<not> retry_count (n_data n) < udp_retransmissions (argv s) \<and> get_client_by_fd (clients s) (m_sockfd (n_data n)) = None"

lemma in_dstr_nulls: "in_dstr f (replicate i None) s = Ok False"
  by (induction i) simp_all

lemma timeout_item_orphan:
  assumes "distinct (ptrs (msg_out_buf s))" and "msg_out_buf s = xs @ n # ys" and "orphan s n"
  shows "timeout_item 75 cap (Some (n_ptr n)) (replicate i None) s =
     (if i < cap then Ok (replicate (Suc i) None, s\<lparr>msg_out_buf := xs @ tick n # ys\<rparr>) else Fault BufOverflow)"
  using item_ticks [OF assms(1,2)] assms(3)
  by (simp add: timeout_item_def orphan_def tick_def in_dstr_nulls replicate_append_same)

lemma timeout_loop_orphans:
  assumes "distinct (ptrs (msg_out_buf s))" and "msg_out_buf s = xs @ ys" and "\<forall>n \<in> set ys. orphan s n"
    and "cap < i + length ys" and "i \<le> cap" and "length ys < k"
  shows "timeout_loop k 75 cap (ql_first ys) (replicate i None) s = Fault BufOverflow"
  using assms
proof (induction ys arbitrary: k s xs i)
  case (Cons n ys)
  obtain j where k: "k = Suc j" "length ys < j" using Cons.prems(6) by (cases k) auto
  let ?t = "s\<lparr>msg_out_buf := xs @ tick n # ys\<rparr>"
  have item: "timeout_item 75 cap (Some (n_ptr n)) (replicate i None) s =
      (if i < cap then Ok (replicate (Suc i) None, ?t) else Fault BufOverflow)"
    using Cons.prems(1-3) by (intro timeout_item_orphan) simp_all
  have d: "distinct (ptrs (msg_out_buf ?t))" using Cons.prems(1,2) by (simp add: tick_def)
  from ql_next_split [OF this, of xs "tick n" ys] have nxt: "ql_next (Some (n_ptr n)) (msg_out_buf ?t) = Ok (ql_first ys)"
    by (simp add: tick_def)
  have "timeout_loop j 75 cap (ql_first ys) (replicate (Suc i) None) ?t = Fault BufOverflow" if "i < cap"
    using Cons.prems d k(2) that by (intro Cons.IH [of _ "xs @ [tick n]"]) (auto simp: orphan_def)
  with item nxt show ?case by (simp add: k(1) timeout_loop.simps del: replicate_Suc)
qed simp

text \<open>
  C38. When all buffered messages are such orphans and there are more of them than clients in the
  queue (one is enough when no client is left), udp_timeout writes behind the end of its array, which
  has one place per client.  Such messages exist: the error about an address in use is sent on a
  descriptor that belongs to no client, and so is the answer to a datagram that is not a message.
\<close>

theorem orphan_timeout_overflow:
  assumes "distinct (ptrs (msg_out_buf s))" and "\<forall>n \<in> set (msg_out_buf s). orphan s n"
    and "length (clients s) < length (msg_out_buf s)"
  shows "main_iter Idle s = Fault BufOverflow"
proof -
  let ?s = "s\<lparr>poll := set_revents [] (poll s), stop_timeout := STOP_TIMEOUT\<rparr>"
  have "do_udp_timeout 75 ?s = Fault BufOverflow"
    using timeout_loop_orphans [of ?s "[]" "msg_out_buf s" "length (clients s)" 0 "Suc (length (msg_out_buf s))"] assms
    by (simp add: do_udp_timeout_def orphan_def)
  moreover have "msg_out_buf s \<noteq> []" using assms(3) by auto
  ultimately show ?thesis by (simp add: main_iter_def poll_idle_def poll_timeout_75)
qed

definition orphan_msg :: "msg_t node" where
  "orphan_msg = demo_msg\<lparr>n_data := (n_data demo_msg)\<lparr>timeout := 75, retry_count := 3, m_sockfd := 9\<rparr>\<rparr>"

text \<open>One client and two orphans.\<close>

theorem orphan_timeout_overflow_witness:
  "main_iter Idle (demo_server\<lparr>clients := [ann], msg_out_buf := [orphan_msg, orphan_msg\<lparr>n_ptr := 6\<rparr>]\<rparr>) =
     Fault BufOverflow"
  by (rule orphan_timeout_overflow)
     (simp_all add: orphan_msg_def orphan_def demo_nodes zero_msg_def default_argv_def)

section \<open>A run\<close>

text \<open>One idle round of the demonstration state.\<close>

definition demo_later :: server where
  "demo_later = demo_server\<lparr>poll := set_revents [] demo_fds, stop_timeout := STOP_TIMEOUT,
     msg_out_buf := [tick demo_msg]\<rparr>"

lemma demo_round: "main_step\<^sup>*\<^sup>* demo_server demo_later"
proof -
  have "main_iter Idle demo_server = Ok demo_later"
    using idle_round_waits [of demo_server] by (simp add: waits_def demo_msg_def demo_later_def)
  then have "main_step demo_server demo_later" by (intro main_step.round) simp_all
  then show ?thesis by (rule r_into_rtranclp)
qed

theorem history_grows_witness:
  "(\<exists>w. wire (os demo_later) = wire (os demo_server) @ w) \<and> argv demo_later = argv demo_server"
  using history_grows [OF demo_round] by blast

end
