(* ===== verification/Farewell.thy ===== *)
theory Farewell
  imports Timeouts
begin

text \<open>
  What the interrupt handler sends and keeps: BYE goes to every client that is not in the end
  state, and each BYE over UDP waits for its confirmation; so does the shutdown.
\<close>

section \<open>Closing one client\<close>

lemma purge_none:
  assumes "distinct (ptrs q)" and "f \<notin> msg_fds q" and "q = xs @ ys" and "length ys < k"
  shows "purge_loop k f (ql_first ys) q = Ok q"
  using assms
proof (induction ys arbitrary: k xs)
  case Nil
  then show ?case by (cases k) (auto simp: purge_loop.simps)
next
  case (Cons m ys)
  obtain j where k: "k = Suc j" "length ys < j" using Cons.prems(4) by (cases k) auto
  have "ql_at (Some (n_ptr m)) q = Ok m" "ql_next (Some (n_ptr m)) q = Ok (ql_first ys)"
    using Cons.prems by (auto intro!: ql_at_mem ql_next_split)
  moreover have "m_sockfd (n_data m) \<noteq> f" using Cons.prems(2,3) by auto
  ultimately show ?case using Cons.IH [of "xs @ [m]" j] Cons.prems(1-3) k by (simp add: purge_loop.simps)
qed

lemma tcp_no_msgs:
  "wf_server s \<Longrightarrow> n \<in> set (clients s) \<Longrightarrow> c_protocol (n_data n) = e_tcp \<Longrightarrow>
     c_sockfd (n_data n) \<notin> msg_fds (msg_out_buf s)"
  by (auto simp: wf_server_def tcp_fds_def)

lemma delete_keeps_msgs:
  assumes "wf_server s" and "client_at p s = Ok c" and "c_protocol c = e_tcp" and "delete_client p s = Ok t"
  shows "msg_out_buf t = msg_out_buf s \<and> msg_cnt t = msg_cnt s \<and> argv t = argv s \<and> wire (os t) = wire (os s)"
proof -
  have "c_sockfd c \<notin> msg_fds (msg_out_buf s)" "distinct (ptrs (msg_out_buf s))"
    using assms(1,3) client_at_node [OF assms(2)] tcp_no_msgs by (auto simp: wf_server_def)
  from purge_none [OF this(2,1), of "[]" "msg_out_buf s"] assms(2,4) show ?thesis
    by (auto simp: delete_client_def Let_def andthen_Ok_iff os_close_def split: if_splits)
qed

text \<open>A message of the server that waits for its confirmation, as \<open>send_msg\<close> keeps it.\<close>

definition waiting_bye :: "argv_t \<Rightarrow> msg_t node \<Rightarrow> client_t \<Rightarrow> bool" where
  "waiting_bye a k c \<longleftrightarrow> msg_type (n_data k) = e_bye \<and> m_sockfd (n_data k) = c_sockfd c \<and>
     m_addr (n_data k) = c_addr c \<and> timeout (n_data k) = udp_timeout a \<and>
     retry_count (n_data k) = 0 \<and> \<not> is_confirmed (n_data k)"

lemma close_says_bye:
  assumes wf: "wf_server s" "quiet s" and n: "n \<in> set (clients s)" and st: "c_state (n_data n) \<noteq> s_en"
  shows "\<exists>t w ks. close_client (Some (n_ptr n)) s = Ok t \<and> deliveries bye_msg (msg_cnt s) [n_data n] = Ok [w] \<and>
     wire (os t) = wire (os s) @ [w] \<and> msg_cnt t = msg_cnt s + 1 \<and> argv t = argv s \<and>
     msg_out_buf t = msg_out_buf s @ ks \<and>
     list_all2 (waiting_bye (argv s)) ks (filter (\<lambda>c. c_protocol c = e_udp) [n_data n]) \<and>
     ids ks = (if c_protocol (n_data n) = e_udp then [ucast (msg_cnt s)] else [])"
proof -
  let ?c = "n_data n" and ?p = "Some (n_ptr n)" and ?m = "bye_msg\<lparr>msg_id := ucast (msg_cnt s)\<rparr>"
  let ?s = "s\<lparr>clients := ql_map (n_ptr n) to_end (clients s)\<rparr>"
  have u: "upd_client ?p to_end s = Ok ?s"
    using wf n by (simp add: upd_client_def ql_upd_def ql_at_mem wf_server_def)
  have ws: "wf_server ?s" "quiet ?s"
    using wf by (auto simp: quiet_def intro!: wf_server_map)
  have n': "n\<lparr>n_data := to_end ?c\<rparr> \<in> set (clients ?s)" using n by (auto simp: ql_map_def)
  have "fits ?m" by simp
  then obtain rc buf k where x: "compose (c_protocol ?c) ?m = Ok (rc, buf, k)"
    unfolding fits_def is_ok_iff by (cases "c_protocol ?c") auto
  let ?t = "after_send (c_protocol ?c) (c_sockfd ?c) (c_addr ?c) ?m False rc (sent_bytes (c_protocol ?c) buf k) ?s"
  have sent: "send_msg (c_protocol ?c) (c_sockfd ?c) (c_addr ?c) bye_msg False ?s = Ok ?t"
    using x by (simp add: send_msg_quiet [OF ws(2)] stamp_def)
  have "c_protocol ?c = e_udp \<Longrightarrow> c_sockfd ?c \<notin> tcp_fds (clients ?s)"
    using own_fd_free [OF ws(1) n'] by simp
  then have wt: "wf_server ?t" by (intro wf_after_send ws)
  have at: "client_at ?p ?t = Ok (to_end ?c)" using client_at_ok [OF wt, of "n\<lparr>n_data := to_end ?c\<rparr>"] n' by simp
  have close: "close_client ?p s = (if c_protocol ?c = e_tcp then delete_client ?p ?t else Ok ?t)"
    using client_at_ok [OF wf(1) n] st u sent at by (simp add: close_client.simps)
  obtain t where "close_client ?p s = Ok t"
    using close_client_safe [OF wf n, of "{}"] by (cases "close_client ?p s") auto
  moreover have "msg_out_buf t = msg_out_buf ?t \<and> msg_cnt t = msg_cnt ?t \<and> argv t = argv ?t \<and> wire (os t) = wire (os ?t)"
    if "close_client ?p s = Ok t"
    using that close delete_keeps_msgs [OF wt at] by (auto split: if_splits)
  ultimately show ?thesis
    using x by (intro exI [of _ t] exI [of _ "(c_sockfd ?c, c_addr ?c, sent_bytes (c_protocol ?c) buf k)"]
        exI [of _ "if c_protocol ?c = e_udp then [kept_node (c_sockfd ?c) (c_addr ?c) ?m ?s] else []"])
       (auto simp: is_kept_def bye_msg_def waiting_bye_def kept_node_def)
qed

section \<open>The interrupt handler\<close>

definition actives :: "client_t queue \<Rightarrow> client_t list" where
  "actives q = filter (\<lambda>c. c_state c \<noteq> s_en) (map n_data q)"

lemma deliveries_snoc:
  "deliveries m cnt ds = Ok ws \<Longrightarrow> deliveries m (cnt + of_nat (length ds)) [c] = Ok [w] \<Longrightarrow>
     deliveries m cnt (ds @ [c]) = Ok (ws @ [w])"
  by (induction ds arbitrary: cnt ws) (auto simp: andthen_Ok_iff algebra_simps)

text \<open>The \<open>k\<close> messages sent after the counter was \<open>cnt\<close>: some of them are kept, with their ids.\<close>

definition kept_ids :: "32 word \<Rightarrow> nat \<Rightarrow> id_t list \<Rightarrow> bool" where
  "kept_ids cnt k is \<longleftrightarrow> (\<exists>js. distinct js \<and> set js \<subseteq> {..<k} \<and> is = map (\<lambda>j. ucast (cnt + of_nat j)) js)"

lemma kept_ids_Nil [simp]: "kept_ids cnt k []"
  by (auto simp: kept_ids_def)

lemma kept_ids_Suc: "kept_ids cnt k is \<Longrightarrow> kept_ids cnt (Suc k) is"
proof -
  assume "kept_ids cnt k is"
  then obtain js where "distinct js" "set js \<subseteq> {..<k}" "is = map (\<lambda>j. ucast (cnt + of_nat j)) js"
    by (auto simp: kept_ids_def)
  then show ?thesis unfolding kept_ids_def by (intro exI [of _ js]) auto
qed

lemma kept_ids_snoc: "kept_ids cnt k is \<Longrightarrow> kept_ids cnt (Suc k) (is @ [ucast (cnt + of_nat k)])"
proof -
  assume "kept_ids cnt k is"
  then obtain js where "distinct js" "set js \<subseteq> {..<k}" "is = map (\<lambda>j. ucast (cnt + of_nat j)) js"
    by (auto simp: kept_ids_def)
  then show ?thesis unfolding kept_ids_def by (intro exI [of _ "js @ [k]"]) auto
qed

text \<open>They differ as long as the ids, which have 16 bits, do not come round.\<close>

lemma kept_ids_distinct:
  assumes "kept_ids cnt k is" and "k \<le> 65536"
  shows "distinct is"
proof -
  have "i = j" if "(ucast (cnt + of_nat i) :: id_t) = ucast (cnt + of_nat j)" "i < 65536" "j < 65536" for i j
  proof -
    have "(ucast (cnt + of_nat i) :: id_t) = ucast cnt + of_nat i" for i
    proof (transfer fixing: i)
      fix cnt :: int
      have "take_bit 16 (take_bit 16 cnt + take_bit 16 (int i)) = take_bit 16 (take_bit 16 (take_bit 32 cnt) + take_bit 16 (int i))"
        by simp
      then show "take_bit LENGTH(16) (take_bit LENGTH(32) (cnt + int i)) = take_bit LENGTH(16) (take_bit LENGTH(32) cnt + int i)"
        by (simp only: take_bit_add) simp
    qed
    with that(1) have "(of_nat i :: id_t) = of_nat j" by simp
    then have "unat (of_nat i :: id_t) = unat (of_nat j :: id_t)" by simp
    with that(2,3) show ?thesis by (simp add: unat_of_nat)
  qed
  with assms show ?thesis by (fastforce simp: kept_ids_def distinct_map inj_on_def subset_iff)
qed

text \<open>
  The handler after it has visited the clients \<open>xs\<close>: the clients \<open>ds\<close> got their BYE, and who is
  still to be visited makes up the rest.  A client for which a message was waiting uses UDP and stays.
\<close>

definition farewell :: "server \<Rightarrow> client_t queue \<Rightarrow> server \<Rightarrow> bool" where
  "farewell s0 xs t \<longleftrightarrow> argv t = argv s0 \<and> (\<forall>n \<in> set xs. c_state (n_data n) = s_en) \<and>
     msg_fds (msg_out_buf s0) \<inter> set (fds (clients s0)) \<subseteq> set (fds (clients t)) \<and>
     (\<exists>ds ws ks. ds @ actives (drop (length xs) (clients t)) = actives (clients s0) \<and>
       deliveries bye_msg (msg_cnt s0) ds = Ok ws \<and> wire (os t) = wire (os s0) @ ws \<and>
       msg_cnt t = msg_cnt s0 + of_nat (length ds) \<and> msg_out_buf t = msg_out_buf s0 @ ks \<and>
       list_all2 (waiting_bye (argv s0)) ks (filter (\<lambda>c. c_protocol c = e_udp) ds) \<and>
       kept_ids (msg_cnt s0) (length ds) (ids ks) \<and> msg_fds ks \<subseteq> set (fds xs))"

lemma farewell_step:
  assumes t: "wf_server t" "quiet t" "clients t = xs @ n # ys" "farewell s0 xs t" "c_state (n_data n) \<noteq> s_en"
  shows "ends F (close_client (Some (n_ptr n)) t)
     (\<lambda>u. wf_server u \<and> quiet u \<and> (\<exists>xs'. clients u = xs' @ ys \<and> farewell s0 xs' u))"
proof -
  let ?c = "n_data n"
  let ?xs = "if c_protocol ?c = e_tcp then xs else xs @ [n\<lparr>n_data := to_end ?c\<rparr>]"
  have n: "n \<in> set (clients t)" using t(3) by simp
  obtain u w ks where u: "close_client (Some (n_ptr n)) t = Ok u" "deliveries bye_msg (msg_cnt t) [?c] = Ok [w]"
    "wire (os u) = wire (os t) @ [w]" "msg_cnt u = msg_cnt t + 1" "argv u = argv t"
    "msg_out_buf u = msg_out_buf t @ ks"
    "list_all2 (waiting_bye (argv t)) ks (filter (\<lambda>c. c_protocol c = e_udp) [?c])"
    "ids ks = (if c_protocol ?c = e_udp then [ucast (msg_cnt t)] else [])"
    using close_says_bye [OF t(1,2) n t(5)] by blast
  have cl: "shrinks t u" "clients u = ?xs @ ys"
    using close_split [OF t(1-3,5), of "{}"] u(1) by auto
  obtain ds ws bs where f: "ds @ actives (n # ys) = actives (clients s0)" "deliveries bye_msg (msg_cnt s0) ds = Ok ws"
    "wire (os t) = wire (os s0) @ ws" "msg_cnt t = msg_cnt s0 + of_nat (length ds)"
    "msg_out_buf t = msg_out_buf s0 @ bs" "argv t = argv s0"
    "list_all2 (waiting_bye (argv s0)) bs (filter (\<lambda>c. c_protocol c = e_udp) ds)"
    "kept_ids (msg_cnt s0) (length ds) (ids bs)" "msg_fds bs \<subseteq> set (fds xs)"
    using t(3,4) by (auto simp: farewell_def)
  have "deliveries bye_msg (msg_cnt s0) (ds @ [?c]) = Ok (ws @ [w])"
    using deliveries_snoc [OF f(2), of ?c w] u(2) f(4) by simp
  moreover have "list_all2 (waiting_bye (argv s0)) (bs @ ks) (filter (\<lambda>c. c_protocol c = e_udp) (ds @ [?c]))"
    unfolding filter_append using f(6,7) u(7) by (intro list_all2_appendI) auto
  moreover have "kept_ids (msg_cnt s0) (length (ds @ [?c])) (ids (bs @ ks))"
    using u(8) f(4,8) by (simp add: kept_ids_Suc kept_ids_snoc)
  moreover have "msg_fds (bs @ ks) \<subseteq> set (fds ?xs)"
    using u(7) f(9) by (cases "c_protocol ?c") (auto simp: list_all2_Cons2 waiting_bye_def)
  moreover have "(ds @ [?c]) @ actives ys = actives (clients s0)" using f(1) t(5) by (simp add: actives_def)
  moreover have "\<forall>n \<in> set ?xs. c_state (n_data n) = s_en" using t(4) by (auto simp: farewell_def ends_to_end)
  moreover have "msg_fds (msg_out_buf s0) \<inter> set (fds (clients s0)) \<subseteq> set (fds (?xs @ ys))"
    using t(3,4) f(5) tcp_no_msgs [OF t(1) n] by (auto simp: farewell_def)
  ultimately have "farewell s0 ?xs u"
    unfolding farewell_def using f(3-6) u(3-6) cl(2)
    by (intro conjI exI [of _ "ds @ [?c]"] exI [of _ "ws @ [w]"] exI [of _ "bs @ ks"]) auto
  with u(1) cl shrinksD show ?thesis by auto
qed

lemma sigint_farewell:
  assumes "wf_server s" and "quiet s"
  shows "ends F (sigint_handler s) (\<lambda>t. farewell s (clients t) t)"
proof -
  let ?s = "s\<lparr>stop_flag := True\<rparr>"
  have "ends F (sigint_loop (Suc (length (clients s))) (ql_first (clients s)) ?s) (\<lambda>t. farewell s (clients t) t)"
  proof (rule sigint_loop_rule [where P = "farewell s" and xs = "[]"])
    show "farewell s [] ?s" by (auto simp: farewell_def)
  next
    fix t n xs ys assume "clients t = xs @ n # ys" "farewell s xs t" "c_state (n_data n) = s_en"
    then show "farewell s (xs @ [n]) t"
      by (fastforce simp: farewell_def actives_def)
  next
    show "wf_server ?s" "quiet ?s" using assms by (simp_all add: wf_server_def quiet_def)
  qed (simp, simp, rule farewell_step)
  then show ?thesis by (simp add: sigint_handler_def)
qed

text \<open>
  C24. The interrupt handler returns, starts the shutdown, sends BYE to exactly the clients that are
  not in the end state, in the order of the queue and each with its own message id, and closes
  them: afterwards every client that is still in the queue is in the end state (no send and no
  allocation fails).
\<close>

theorem interrupt_says_bye:
  assumes "wf_server s" and "quiet s"
  shows "\<exists>t ws. sigint_handler s = Ok t \<and> stop_flag t \<and>
     deliveries bye_msg (msg_cnt s) (actives (clients s)) = Ok ws \<and> wire (os t) = wire (os s) @ ws \<and>
     (\<forall>n \<in> set (clients t). c_state (n_data n) = s_en)"
proof -
  have "ends {} (sigint_handler s) (\<lambda>t. farewell s (clients t) t \<and> stop_flag t)"
    using ends_conj [OF sigint_farewell [OF assms] sigint_handler_safe [OF assms]]
    by (rule ends_wp) (simp add: shrinks_def)
  then show ?thesis by (cases "sigint_handler s") (auto simp: farewell_def actives_def)
qed

theorem interrupt_says_bye_witness:
  "\<exists>t ws. sigint_handler demo_server = Ok t \<and> stop_flag t \<and>
     deliveries bye_msg 10 (actives [ann, bob, cid, dan]) = Ok ws \<and> wire (os t) = ws"
  using interrupt_says_bye [OF demo_wf demo_quiet] by (auto simp: calm_os_def)

section \<open>Waiting for confirmations\<close>

lemma sigint_keeps_bye:
  assumes wf: "wf_server s" "quiet s" and b: "msg_out_buf s = []"
    and n: "n \<in> set (clients s)" "c_protocol (n_data n) = e_udp" "c_state (n_data n) \<noteq> s_en"
  shows "\<exists>t. sigint_handler s = Ok t \<and> wf_server t \<and> exited t = exited s \<and> msg_out_buf t \<noteq> [] \<and>
     (\<forall>k \<in> set (msg_out_buf t). timeout (n_data k) = udp_timeout (argv s) \<and> \<not> is_confirmed (n_data k))"
proof -
  obtain t where t: "sigint_handler s = Ok t" "farewell s (clients t) t" "shrinks (s\<lparr>stop_flag := True\<rparr>) t"
    using ends_conj [OF sigint_farewell [OF wf, of "{}"] sigint_handler_safe [OF wf]]
    by (cases "sigint_handler s") auto
  have "filter (\<lambda>c. c_protocol c = e_udp) (actives (clients s)) \<noteq> []"
    using n by (auto simp: actives_def filter_empty_conv)
  moreover have a: "list_all2 (waiting_bye (argv s)) (msg_out_buf t)
      (filter (\<lambda>c. c_protocol c = e_udp) (actives (clients s)))"
    using t(2) b by (auto simp: farewell_def actives_def)
  ultimately have "msg_out_buf t \<noteq> []" by auto
  moreover have "\<exists>c. waiting_bye (argv s) k c" if "k \<in> set (msg_out_buf t)" for k
    using a that by (auto simp: list_all2_conv_all_nth in_set_conv_nth)
  ultimately show ?thesis using t(1,3) by (auto simp: shrinks_def waiting_bye_def)
qed

text \<open>
  C25. A UDP client that does not confirm its BYE delays the exit: with the default timeout of 250, a
  server that is interrupted for the first time while a UDP client is active and nothing waits for a
  confirmation still runs after 43692 further idle rounds of 75 ms, about 54 minutes (no send or
  allocation fails).
\<close>

theorem unconfirmed_bye_delays_exit:
  assumes wf: "wf_server s" "quiet s" and b: "msg_out_buf s = []" and ex: "exited s = None"
    and n: "n \<in> set (clients s)" "c_protocol (n_data n) = e_udp" "c_state (n_data n) \<noteq> s_en"
    and "udp_timeout (argv s) = 250" and "k \<le> 43692" and "\<not> stop_flag s"
  shows "\<exists>t. andthen (main_iter Interrupted s) (idle_rounds k) = Ok t \<and> exited t = None"
proof -
  obtain t where t: "sigint_handler s = Ok t" "wf_server t" "exited t = None" "msg_out_buf t \<noteq> []"
    "\<forall>k \<in> set (msg_out_buf t). timeout (n_data k) = 250"
    using sigint_keeps_bye [OF wf b n] assms(8) ex by auto
  let ?t = "t\<lparr>stop_timeout := STOP_TIMEOUT\<rparr>" and ?u = "t\<lparr>stop_timeout := STOP_TIMEOUT, msg_out_buf := map tick (msg_out_buf t)\<rparr>"
  have d: "distinct (ptrs (msg_out_buf t))" using t(2) by (simp add: wf_server_def)
  have "do_udp_timeout 75 ?t = Ok ?u"
    using udp_timeout_waits [of ?t] d t(5) by (simp add: waits_def)
  then have "main_iter Interrupted s = Ok ?u"
    using t(1,4) assms(10) by (simp add: main_iter_def poll_idle_def poll_timeout_75)
  moreover have "timeout (n_data m) - 75 * of_nat j \<noteq> 75" if "j < k" "m \<in> set (msg_out_buf ?u)" for j m
    using that timer_hits [of "Suc (Suc j)"] assms(9) t(5) by (auto simp: tick_def algebra_simps)
  then have "\<exists>v. idle_rounds k ?u = Ok v \<and> wire (os v) = wire (os ?u) \<and> exited v = exited ?u \<and>
      msg_out_buf v = map (tick ^^ k) (msg_out_buf ?u)"
    using t(4) d by (intro idle_rounds_wait) auto
  ultimately show ?thesis using t(3) by auto
qed

theorem unconfirmed_bye_delays_exit_witness:
  "\<exists>t. andthen (main_iter Interrupted (demo_server\<lparr>msg_out_buf := []\<rparr>)) (idle_rounds 43692) = Ok t \<and>
     exited t = None"
proof (rule unconfirmed_bye_delays_exit [where n = cid])
  show "wf_server (demo_server\<lparr>msg_out_buf := []\<rparr>)" using demo_wf by (simp add: wf_server_def)
  show "quiet (demo_server\<lparr>msg_out_buf := []\<rparr>)" using demo_quiet by (simp add: quiet_def)
qed (simp_all add: demo_nodes default_argv_def)

end
