(* ===== verification/Shutdown.thy ===== *)
theory Shutdown
  imports Farewell
begin

text \<open>
  The shutdown: when nothing waits for a confirmation the loop counts down and exits.
\<close>

section \<open>Exit\<close>

lemma set_revents_polled:
  assumes "poll_ok p"
  shows "polled (set_revents rs p) = polled p"
proof -
  have "map fd (pl_list (set_revents rs p)) = map fd (pl_list p)"
    by (auto simp: set_revents_def intro: nth_equalityI)
  then have "map fd (take k (drop j (pl_list (set_revents rs p)))) = map fd (take k (drop j (pl_list p)))" for k j
    by (metis drop_map take_map)
  then show ?thesis by (simp add: polled_def set_revents_def)
qed

lemma idle_stopping:
  assumes "stop_flag s" and "msg_out_buf s = []"
  shows "main_iter Idle s = (if stop_timeout s \<le> 0 then stop 0 (s\<lparr>poll := set_revents [] (poll s)\<rparr>)
     else Ok (s\<lparr>poll := set_revents [] (poll s), stop_timeout := stop_timeout s - 75\<rparr>))"
  using assms
  by (simp add: main_iter_def poll_idle_def poll_timeout_75 do_udp_timeout_def timeout_loop.simps ql_first_def)

lemma idle_rounds_stop:
  assumes "stop_flag s" and "msg_out_buf s = []" and "poll_ok (poll s)" and "stop_timeout s \<le> 75 * int k"
  shows "\<exists>j t. j \<le> Suc k \<and> idle_rounds j s = Ok t \<and> exited t = Some 0 \<and> closed (os t) = closed (os s) @
     [get_tcp_socket s, get_udp_socket s] @ filter (\<lambda>f. f \<noteq> 0) (polled (poll s))"
  using assms
proof (induction k arbitrary: s)
  case 0
  let ?s = "s\<lparr>poll := set_revents [] (poll s)\<rparr>"
  have "poll_ok (poll ?s)" using set_revents_ok [OF "0.prems"(3)] by simp
  from stop_closes [OF this, of 0] idle_stopping [OF "0.prems"(1,2)] "0.prems"(4) set_revents_polled [OF "0.prems"(3)]
  show ?case by (intro exI [of _ "Suc 0"]) (auto simp: get_tcp_socket_def get_udp_socket_def)
next
  case (Suc k)
  let ?s = "s\<lparr>poll := set_revents [] (poll s), stop_timeout := stop_timeout s - 75\<rparr>"
  show ?case
  proof (cases "stop_timeout s \<le> 0")
    case True
    with Suc.IH [OF Suc.prems(1-3)] show ?thesis by (auto intro: le_SucI)
  next
    case False
    have "\<exists>j t. j \<le> Suc k \<and> idle_rounds j ?s = Ok t \<and> exited t = Some 0 \<and> closed (os t) = closed (os ?s) @
       [get_tcp_socket ?s, get_udp_socket ?s] @ filter (\<lambda>f. f \<noteq> 0) (polled (poll ?s))"
      using Suc.prems set_revents_ok [OF Suc.prems(3)] by (intro Suc.IH) auto
    then obtain j t where "j \<le> Suc k" "idle_rounds j ?s = Ok t" "exited t = Some 0"
      "closed (os t) = closed (os s) @ [get_tcp_socket s, get_udp_socket s] @ filter (\<lambda>f. f \<noteq> 0) (polled (poll s))"
      using set_revents_polled [OF Suc.prems(3)] by (auto simp: get_tcp_socket_def get_udp_socket_def)
    with False idle_stopping [OF Suc.prems(1,2)] show ?thesis by (intro exI [of _ "Suc j"]) simp
  qed
qed

interpretation timer: state_inv "\<lambda>s. stop_timeout s = k" for k
  by unfold_locales simp_all

lemma sigint_stopping:
  assumes "wf_server s" and "quiet s" and "\<forall>n \<in> set (clients s). c_protocol (n_data n) = e_tcp"
    and "msg_out_buf s = []"
  shows "\<exists>t. sigint_handler s = Ok t \<and> wf_server t \<and> msg_out_buf t = [] \<and> stop_flag t \<and>
     stop_timeout t = stop_timeout s \<and> get_tcp_socket t = get_tcp_socket s \<and> get_udp_socket t = get_udp_socket s"
proof -
  have "ends UNIV (sigint_handler s) (\<lambda>t. stop_timeout t = stop_timeout s)"
    unfolding sigint_handler_def Let_def by (rule timer.sigint_loop_I) simp
  moreover have "ends UNIV (sigint_handler s) tcp_only"
    unfolding sigint_handler_def Let_def
    using assms(3,4) by (intro tcp_only.sigint_loop_I) (simp add: tcp_only_def)
  ultimately show ?thesis
    using sigint_handler_safe [OF assms(1,2), where F = "{}"]
    by (cases "sigint_handler s") (auto simp: shrinks_def tcp_only_def get_tcp_socket_def get_udp_socket_def)
qed

text \<open>
  A server whose clients all use TCP and that has nothing left to send ends after an interrupt.
\<close>

lemma interrupt_exits:
  assumes "wf_server s" and "quiet s" and "\<forall>n \<in> set (clients s). c_protocol (n_data n) = e_tcp"
    and "msg_out_buf s = []" and "stop_timeout s \<le> STOP_TIMEOUT" and "\<not> stop_flag s"
  shows "\<exists>j t. j \<le> 8 \<and> andthen (main_iter Interrupted s) (idle_rounds j) = Ok t \<and> exited t = Some 0 \<and>
     {get_tcp_socket s, get_udp_socket s} \<subseteq> set (closed (os t))"
proof -
  obtain t where t: "sigint_handler s = Ok t" "wf_server t" "msg_out_buf t = []" "stop_flag t"
    "stop_timeout t = stop_timeout s" "get_tcp_socket t = get_tcp_socket s" "get_udp_socket t = get_udp_socket s"
    using sigint_stopping [OF assms(1-4)] by blast
  have p: "poll_ok (poll t)" using t(2) by (simp add: wf_server_def)
  let ?u = "t\<lparr>stop_timeout := stop_timeout t - 75\<rparr>"
  have r: "main_iter Interrupted s = (if stop_timeout t \<le> 0 then stop 0 t else Ok ?u)"
    using t assms(6) by (simp add: main_iter_def poll_idle_def poll_timeout_75 do_udp_timeout_def timeout_loop.simps
        ql_first_def)
  show ?thesis
  proof (cases "stop_timeout t \<le> 0")
    case True
    with r stop_closes [OF p, of 0] t(6,7) show ?thesis by (intro exI [of _ 0]) auto
  next
    case False
    have "stop_timeout ?u \<le> 75 * int 7" using t(5) assms(5) by (simp add: STOP_TIMEOUT_def)
    from idle_rounds_stop [of ?u, OF _ _ _ this] t(3,4,6,7) p r False show ?thesis
      by (auto simp: get_tcp_socket_def get_udp_socket_def)
  qed
qed

end
