(* ===== verification/Last_Rounds.thy ===== *)
theory Last_Rounds
  imports Shutdown
begin

text \<open>
  The shutdown ends even when no UDP client answers: the retransmissions of a BYE are used up one
  day, its client is deleted together with its messages, and then the loop counts down.
\<close>

section \<open>How long a message can wait\<close>

text \<open>
  The number of intervals of 75 ms until a 16-bit timer hits 0.  As 75 is odd, it has an inverse
  modulo 65536, namely 51555.
\<close>

definition steps :: "16 word \<Rightarrow> nat" where
  "steps w = Suc (unat ((w - 75) * 51555))"

lemma steps_le: "steps w \<le> 65536"
proof -
  have "unat ((w - 75) * 51555) < 2 ^ LENGTH(16)" by (rule unsigned_less)
  then show ?thesis by (simp add: steps_def)
qed

lemma inverse_75: "(51555 :: 16 word) * 75 = 1"
  by simp

lemma steps_last: "steps w = 1 \<longleftrightarrow> w = 75"
proof
  assume "steps w = 1"
  then have "(w - 75) * (51555 * 75) = 0" unfolding mult.assoc [symmetric] by (simp add: steps_def unat_eq_0)
  then show "w = 75" unfolding inverse_75 by simp
qed (simp add: steps_def)

lemma steps_tick:
  assumes "w \<noteq> 75"
  shows "Suc (steps (w - 75)) = steps w"
proof -
  let ?x = "(w - 75) * 51555"
  have e: "(w - 75 - 75) * 51555 = ?x - 1"
    unfolding left_diff_distrib [of "w - 75"] mult.commute [of 75] inverse_75 ..
  have "?x \<noteq> 0" using assms steps_last [of w] by (auto simp: steps_def)
  moreover have "Suc (unat (x - 1)) = unat x" if "x \<noteq> 0" for x :: "16 word"
    using that by (simp add: unat_minus_one unat_gt_0)
  ultimately have "Suc (unat (?x - 1)) = unat ?x" by blast
  then show ?thesis unfolding steps_def e by simp
qed

text \<open>The retransmissions that are left for a message, and for all buffered messages.\<close>

definition unsent :: "argv_t \<Rightarrow> msg_t node \<Rightarrow> nat" where
  "unsent a n = unat (udp_retransmissions a) - unat (retry_count (n_data n))"

definition budget :: "argv_t \<Rightarrow> msg_t queue \<Rightarrow> nat" where
  "budget a b = (\<Sum>n \<leftarrow> b. unsent a n)"

lemma unsent_le: "unsent a n \<le> unat (udp_retransmissions a)"
  by (simp add: unsent_def)

lemma budget_append [simp]: "budget a (b @ b') = budget a b + budget a b'"
  by (simp add: budget_def)

lemma budget_le: "budget a b \<le> unat (udp_retransmissions a) * length b"
  by (induction b) (simp_all add: budget_def unsent_le add_mono)

lemma budget_subseq: "subseq b b' \<Longrightarrow> budget a b \<le> budget a b'"
  by (induction rule: list_emb.induct) (auto simp: budget_def)

text \<open>
  The rank of a message is an upper bound for the rounds it can still wait: the retransmissions
  that are left take at most 65536 rounds each.  A message of rank 1 is given up in this round.
\<close>

definition rank :: "argv_t \<Rightarrow> msg_t node \<Rightarrow> nat" where
  "rank a n = (unat (udp_retransmissions a) - unat (retry_count (n_data n))) * 65536 + steps (timeout (n_data n))"

definition lost :: "argv_t \<Rightarrow> msg_t node \<Rightarrow> bool" where
  "lost a n \<longleftrightarrow> timeout (n_data n) = 75 \<and> \<not> retry_count (n_data n) < udp_retransmissions a"

lemma rank_pos [simp]: "rank a n \<noteq> 0"
  by (simp add: rank_def steps_def)

text \<open>What a round does to a message that is not given up.\<close>

definition resent :: "argv_t \<Rightarrow> msg_t node \<Rightarrow> msg_t node" where
  "resent a n = n\<lparr>n_data := (n_data n)\<lparr>retry_count := retry_count (n_data n) + 1, timeout := udp_timeout a\<rparr>\<rparr>"

definition turn :: "argv_t \<Rightarrow> msg_t node \<Rightarrow> msg_t node" where
  "turn a n = (if timeout (n_data n) = 75 \<and> retry_count (n_data n) < udp_retransmissions a then resent a n else tick n)"

text \<open>
  What a round sends for a message: its packet again when its timer has run out and its
  retransmissions are not used up, and nothing otherwise.
\<close>

definition packet :: "msg_t node \<Rightarrow> int \<times> sockaddr_in \<times> bytes" where
  "packet n = (m_sockfd (n_data n), m_addr (n_data n),
     case compose e_udp (n_data n) of Ok (rc, buf, k) \<Rightarrow> sent_bytes e_udp buf k | Fault e \<Rightarrow> [])"

definition again :: "argv_t \<Rightarrow> msg_t node \<Rightarrow> (int \<times> sockaddr_in \<times> bytes) list" where
  "again a n = (if timeout (n_data n) = 75 \<and> retry_count (n_data n) < udp_retransmissions a then [packet n] else [])"

lemma turn_simps [simp]:
  "n_ptr (turn a n) = n_ptr n" "n_id (turn a n) = n_id n" "m_sockfd (n_data (turn a n)) = m_sockfd (n_data n)"
  "compose pr (n_data (turn a n)) = compose pr (n_data n)" "is_confirmed (n_data (turn a n)) = is_confirmed (n_data n)"
  by (simp_all add: turn_def resent_def tick_def)

text \<open>Every retransmission is counted, and the counter does not wrap.\<close>

lemma less_counter:
  assumes "r < (u :: 8 word)"
  shows "unat (r + 1) = Suc (unat r)" and "unat r < unat u"
proof -
  show "unat r < unat u" using assms by (simp add: word_less_nat_alt)
  moreover have "unat u < 2 ^ LENGTH(8)" by (rule unsigned_less)
  ultimately show "unat (r + 1) = Suc (unat r)" by (simp add: unat_word_ariths)
qed

lemma turn_unsent: "unsent a (turn a n) + length (again a n) = unsent a n"
  using less_counter [of "retry_count (n_data n)" "udp_retransmissions a"]
  by (auto simp: unsent_def turn_def again_def resent_def tick_def)

lemma budget_turn: "budget a (map (turn a) b) + length (concat (map (again a) b)) = budget a b"
proof (induction b)
  case (Cons n b)
  with turn_unsent [of a n] show ?case by (simp add: budget_def)
qed (simp add: budget_def)

lemma turn_rank:
  assumes "\<not> lost a n"
  shows "rank a (turn a n) < rank a n"
proof (cases "timeout (n_data n) = 75")
  case True
  let ?r = "retry_count (n_data n)"
  have r: "?r < udp_retransmissions a" using assms True by (simp add: lost_def)
  with less_counter [OF r] have "(unat (udp_retransmissions a) - unat (?r + 1)) * 65536 + 65536 =
     (unat (udp_retransmissions a) - unat ?r) * 65536"
    by (simp add: Suc_diff_Suc [symmetric])
  with True r steps_le [of "udp_timeout a"] show ?thesis by (simp add: rank_def turn_def resent_def steps_def [of 75])
next
  case False
  with steps_tick [OF False] show ?thesis by (simp add: rank_def turn_def tick_def)
qed

section \<open>One message\<close>

lemma calm_swap:
  assumes "wf_server s" and "quiet s" and "msg_out_buf s = xs @ n # ys"
    and "n_ptr n' = n_ptr n" and "m_sockfd (n_data n') = m_sockfd (n_data n)"
  shows "calm s (s\<lparr>msg_out_buf := xs @ n' # ys\<rparr>)"
  using assms by (auto simp: calm_def wf_server_def quiet_def)

text \<open>The clients to be deleted: one entry for each, and no empty one.\<close>

definition doomed :: "ptr list \<Rightarrow> client_t queue \<Rightarrow> bool" where
  "doomed d q \<longleftrightarrow> distinct d \<and> set d \<subseteq> Some ` set (ptrs q)"

lemma doomed_room:
  assumes "doomed d q" and "distinct (ptrs q)" and "n \<in> set q" and "Some (n_ptr n) \<notin> set d"
  shows "doomed (d @ [Some (n_ptr n)]) q" and "length d < length q"
proof -
  show e: "doomed (d @ [Some (n_ptr n)]) q" using assms by (auto simp: doomed_def ptrs_def)
  have "card (set (d @ [Some (n_ptr n)])) \<le> card (Some ` set (ptrs q))"
    using e by (intro card_mono) (simp_all add: doomed_def)
  also have "\<dots> = length q" using assms(2) by (simp add: card_image distinct_card) (simp add: ptrs_def)
  finally show "length d < length q" using e distinct_card [of "d @ [Some (n_ptr n)]"] by (simp add: doomed_def)
qed

text \<open>A message that waits for a client in the queue and that can be sent again.\<close>

definition pending :: "client_t queue \<Rightarrow> msg_t node \<Rightarrow> bool" where
  "pending q n \<longleftrightarrow> \<not> is_confirmed (n_data n) \<and> is_ok (compose e_udp (n_data n)) \<and> m_sockfd (n_data n) \<in> set (fds q)"

lemma pending_turn [simp]: "pending q (turn a n) = pending q n"
  by (simp add: pending_def)

lemma pending_client:
  assumes "pending q n"
  obtains c where "c \<in> set q" "c_sockfd (n_data c) = m_sockfd (n_data n)"
    "get_client_by_fd q (m_sockfd (n_data n)) = Some (n_ptr c)"
proof (cases "get_client_by_fd q (m_sockfd (n_data n))")
  case None
  with assms show ?thesis using get_client_by_fd_Some(1) [of q "m_sockfd (n_data n)"] by (auto simp: pending_def fds_def)
next
  case (Some a)
  with get_client_by_fd_Some(2) [OF Some] that show ?thesis by auto
qed

lemma in_doomed:
  assumes "wf_server s" and "doomed d (clients s)" and "c \<in> set (clients s)"
  shows "in_dstr (c_sockfd (n_data c)) d s = Ok (Some (n_ptr c) \<in> set d)"
proof -
  have "m = c" if "m \<in> set (clients s)" "c_sockfd (n_data m) = c_sockfd (n_data c)" for m
    using that assms(1,3) by (auto simp: wf_server_def fds_def distinct_map dest: inj_onD)
  moreover have "\<forall>p \<in> set d. p = None \<or> (\<exists>n \<in> set (clients s). p = Some (n_ptr n))"
    using assms(2) by (auto simp: doomed_def ptrs_def)
  ultimately show ?thesis using assms(3) in_dstr_eq [OF assms(1)] by auto
qed

text \<open>The retransmission, after the timer of the message has been decreased.\<close>

lemma item_resent:
  assumes "wf_server s" and "quiet s" and b: "msg_out_buf s = xs @ tick n # ys" and p: "pending (clients s) n"
  defines "m \<equiv> n_data (tick n)"
  obtains t where "send_msg e_udp (m_sockfd m) (m_addr m) m True s = Ok t"
    "upd_msg (Some (n_ptr n)) (\<lambda>m. m\<lparr>retry_count := retry_count m + 1, timeout := udp_timeout (argv t)\<rparr>) t =
       Ok (t\<lparr>msg_out_buf := xs @ resent (argv s) n # ys\<rparr>)"
    "calm s (t\<lparr>msg_out_buf := xs @ resent (argv s) n # ys\<rparr>)" "msg_cnt t = msg_cnt s"
    "wire (os t) = wire (os s) @ [packet n]"
proof -
  obtain rc buf k where x: "compose e_udp m = Ok (rc, buf, k)"
    using p by (auto simp: pending_def tick_def m_def is_ok_iff)
  define t where "t = after_send e_udp (m_sockfd m) (m_addr m) m True rc (sent_bytes e_udp buf k) s"
  have "m_sockfd m \<notin> tcp_fds (clients s)" using assms(1) b by (auto simp: wf_server_def m_def)
  then have t: "send_msg e_udp (m_sockfd m) (m_addr m) m True s = Ok t" "calm s t" "msg_out_buf t = xs @ tick n # ys"
      "msg_cnt t = msg_cnt s" "wire (os t) = wire (os s) @ [packet n]"
    using x wf_after_send [OF assms(1), of e_udp "m_sockfd m"] assms(2) b
    by (simp_all add: send_msg_quiet t_def stamp_def is_kept_def calm_def packet_def) (simp_all add: tick_def m_def)
  let ?t = "t\<lparr>msg_out_buf := xs @ resent (argv s) n # ys\<rparr>"
  have w: "wf_server t" "quiet t" "argv t = argv s" using t(2) by (simp_all add: calm_def)
  have "calm t ?t" using w t(3) by (intro calm_swap [where n = "tick n"]) (simp_all add: resent_def tick_def)
  then have "calm s ?t" using calm_trans [OF t(2)] by simp
  with that [OF t(1) _ _ t(4,5)] upd_msg_split [OF _ t(3)] w show ?thesis by (simp add: wf_server_def resent_def tick_def)
qed

lemma timeout_item_turn:
  assumes wf: "wf_server s" "quiet s" and b: "msg_out_buf s = xs @ n # ys" and p: "pending (clients s) n"
    and d: "doomed d (clients s)"
  shows "ends {} (timeout_item 75 (length (clients s)) (Some (n_ptr n)) d s) (\<lambda>(d1, t).
     calm s t \<and> msg_cnt t = msg_cnt s \<and> wire (os t) = wire (os s) @ again (argv s) n \<and>
     msg_out_buf t = xs @ turn (argv s) n # ys \<and> doomed d1 (clients s) \<and> set d \<subseteq> set d1 \<and>
     (if lost (argv s) n then get_client_by_fd (clients s) (m_sockfd (n_data n)) \<in> set d1 else d1 = d))"
proof -
  let ?m = "n_data n" and ?s = "s\<lparr>msg_out_buf := xs @ tick n # ys\<rparr>"
  have c: "calm s ?s" using wf b by (rule calm_swap) (simp_all add: tick_def)
  have "distinct (ptrs (msg_out_buf s))" using wf(1) by (simp add: wf_server_def)
  note tick = item_ticks [OF this b]
  consider (wait) "timeout ?m \<noteq> 75" | (send) "timeout ?m = 75" "retry_count ?m < udp_retransmissions (argv s)"
    | (give) "timeout ?m = 75" "\<not> retry_count ?m < udp_retransmissions (argv s)" by blast
  then show ?thesis
  proof cases
    case wait
    then show ?thesis using tick c d p
      by (simp add: timeout_item_def turn_def again_def lost_def pending_def tick_def)
  next
    case send
    obtain t where t: "send_msg e_udp (m_sockfd ?m) (m_addr ?m) (?m\<lparr>timeout := 0\<rparr>) True ?s = Ok t"
      "upd_msg (Some (n_ptr n)) (\<lambda>m. m\<lparr>retry_count := retry_count m + 1, timeout := udp_timeout (argv t)\<rparr>) t =
       Ok (t\<lparr>msg_out_buf := xs @ resent (argv s) n # ys\<rparr>)"
      "calm ?s (t\<lparr>msg_out_buf := xs @ resent (argv s) n # ys\<rparr>)" "msg_cnt t = msg_cnt s"
      "wire (os t) = wire (os s) @ [packet n]"
      using item_resent [OF calmD(1,2) [OF c], of xs n ys] p send(1) by (auto simp: tick_def)
    with send tick d p calm_trans [OF c t(3)] show ?thesis
      by (simp add: timeout_item_def turn_def again_def lost_def pending_def tick_def)
  next
    case give
    obtain k where k: "k \<in> set (clients s)" "c_sockfd (n_data k) = m_sockfd ?m"
      "get_client_by_fd (clients s) (m_sockfd ?m) = Some (n_ptr k)" using pending_client [OF p] .
    have "in_dstr (m_sockfd ?m) d ?s = Ok (Some (n_ptr k) \<in> set d)"
      using in_doomed [OF calmD(1) [OF c], of d k] d k by simp
    with give k doomed_room [OF d _ k(1)] wf(1) show ?thesis using tick c d p
      by (auto simp: timeout_item_def turn_def again_def lost_def pending_def tick_def wf_server_def)
  qed
qed

lemma timeout_loop_turn:
  assumes "wf_server s" and "quiet s" and "msg_out_buf s = xs @ ys" and "\<forall>n \<in> set ys. pending (clients s) n"
    and "doomed d (clients s)" and "length ys < k"
  shows "ends {} (timeout_loop k 75 (length (clients s)) (ql_first ys) d s) (\<lambda>(d1, t).
     calm s t \<and> msg_cnt t = msg_cnt s \<and> wire (os t) = wire (os s) @ concat (map (again (argv s)) ys) \<and>
     msg_out_buf t = xs @ map (turn (argv s)) ys \<and> doomed d1 (clients s) \<and> set d \<subseteq> set d1 \<and>
     (\<forall>n \<in> set ys. lost (argv s) n \<longrightarrow> get_client_by_fd (clients s) (m_sockfd (n_data n)) \<in> set d1) \<and>
     ((\<forall>n \<in> set ys. \<not> lost (argv s) n) \<longrightarrow> d1 = d))"
  using assms
proof (induction ys arbitrary: k s xs d)
  case Nil
  then show ?case by (cases k) (auto simp: timeout_loop.simps calm_refl)
next
  case (Cons n ys)
  obtain j where k: "k = Suc j" "length ys < j" using Cons.prems(6) by (cases k) auto
  have "pending (clients s) n" using Cons.prems(4) by simp
  from timeout_item_turn [OF Cons.prems(1-3) this Cons.prems(5)]
  obtain d1 t where t: "timeout_item 75 (length (clients s)) (Some (n_ptr n)) d s = Ok (d1, t)" "calm s t"
      "msg_out_buf t = xs @ turn (argv s) n # ys" "doomed d1 (clients s)" "set d \<subseteq> set d1" "msg_cnt t = msg_cnt s"
      "if lost (argv s) n then get_client_by_fd (clients s) (m_sockfd (n_data n)) \<in> set d1 else d1 = d"
      "wire (os t) = wire (os s) @ again (argv s) n"
    by (cases "timeout_item 75 (length (clients s)) (Some (n_ptr n)) d s") auto
  have w: "wf_server t" "quiet t" "clients t = clients s" "argv t = argv s" using t(2) by (simp_all add: calm_def)
  have nxt: "ql_next (Some (n_ptr n)) (msg_out_buf t) = Ok (ql_first ys)"
    using ql_next_split [OF _ t(3)] w(1) by (simp add: wf_server_def)
  have "ends {} (timeout_loop j 75 (length (clients t)) (ql_first ys) d1 t) (\<lambda>(d2, u).
      calm t u \<and> msg_cnt u = msg_cnt t \<and> wire (os u) = wire (os t) @ concat (map (again (argv t)) ys) \<and>
      msg_out_buf u = (xs @ [turn (argv s) n]) @ map (turn (argv t)) ys \<and> doomed d2 (clients t) \<and>
      set d1 \<subseteq> set d2 \<and>
      (\<forall>n \<in> set ys. lost (argv t) n \<longrightarrow> get_client_by_fd (clients t) (m_sockfd (n_data n)) \<in> set d2) \<and>
      ((\<forall>n \<in> set ys. \<not> lost (argv t) n) \<longrightarrow> d2 = d1))"
    using w t(3,4) Cons.prems(4) k(2) by (intro Cons.IH) auto
  then have "ends {} (timeout_loop j 75 (length (clients s)) (ql_first ys) d1 t) (\<lambda>(d2, u).
      calm s u \<and> msg_cnt u = msg_cnt s \<and> wire (os u) = wire (os s) @ concat (map (again (argv s)) (n # ys)) \<and>
      msg_out_buf u = xs @ map (turn (argv s)) (n # ys) \<and> doomed d2 (clients s) \<and> set d \<subseteq> set d2 \<and>
      (\<forall>n \<in> set (n # ys). lost (argv s) n \<longrightarrow> get_client_by_fd (clients s) (m_sockfd (n_data n)) \<in> set d2) \<and>
      ((\<forall>n \<in> set (n # ys). \<not> lost (argv s) n) \<longrightarrow> d2 = d))"
    unfolding w(3,4) by (rule ends_wp) (use calm_trans [OF t(2)] t(5-8) in \<open>auto split: if_splits\<close>)
  then show ?case using t(1) nxt by (simp add: k(1) timeout_loop.simps)
qed

lemma timeout_all_turn:
  assumes "wf_server s" and "quiet s" and "\<forall>n \<in> set (msg_out_buf s). pending (clients s) n"
  obtains d t where "timeout_loop (Suc (length (msg_out_buf s))) 75 (length (clients s)) (ql_first (msg_out_buf s)) [] s = Ok (d, t)"
    "calm s t" "msg_out_buf t = map (turn (argv s)) (msg_out_buf s)" "doomed d (clients s)"
    "\<forall>n \<in> set (msg_out_buf s). lost (argv s) n \<longrightarrow> get_client_by_fd (clients s) (m_sockfd (n_data n)) \<in> set d"
    "msg_cnt t = msg_cnt s" "wire (os t) = wire (os s) @ concat (map (again (argv s)) (msg_out_buf s))"
    "(\<forall>n \<in> set (msg_out_buf s). \<not> lost (argv s) n) \<longrightarrow> d = []"
  using timeout_loop_turn [of s "[]" "msg_out_buf s" "[]" "Suc (length (msg_out_buf s))"] assms
  by (cases "timeout_loop (Suc (length (msg_out_buf s))) 75 (length (clients s)) (ql_first (msg_out_buf s)) [] s")
     (auto simp: doomed_def)

text \<open>
  C26. A round in which nothing arrives (no send or allocation fails, every buffered message belongs to
  a client of the queue, and none has used up its retransmissions): every message whose timer runs out
  in this round is sent again once, byte for byte and to the same address, this is counted and its
  timer is set again; the timers of the others run on by 75; nothing else is sent, and no client changes.
\<close>

theorem idle_round_resends:
  assumes wf: "wf_server s" "quiet s" and b: "\<forall>n \<in> set (msg_out_buf s). pending (clients s) n \<and> \<not> lost (argv s) n"
    and run: "\<not> (stop_flag s \<and> msg_out_buf s = [])"
  shows "\<exists>t. main_iter Idle s = Ok t \<and> clients t = clients s \<and>
     msg_out_buf t = map (turn (argv s)) (msg_out_buf s) \<and>
     wire (os t) = wire (os s) @ concat (map (again (argv s)) (msg_out_buf s))"
proof -
  let ?s = "s\<lparr>poll := set_revents [] (poll s), stop_timeout := STOP_TIMEOUT\<rparr>"
  have s: "wf_server ?s" "quiet ?s" using wf wf_server_poll [OF wf(1), of "[]"] by (auto simp: quiet_def)
  then obtain d t where t: "timeout_loop (Suc (length (msg_out_buf ?s))) 75 (length (clients ?s)) (ql_first (msg_out_buf ?s)) [] ?s = Ok (d, t)"
      "calm ?s t" "msg_out_buf t = map (turn (argv ?s)) (msg_out_buf ?s)"
      "wire (os t) = wire (os ?s) @ concat (map (again (argv ?s)) (msg_out_buf ?s))"
      "(\<forall>n \<in> set (msg_out_buf ?s). \<not> lost (argv ?s) n) \<longrightarrow> d = []"
    by (rule timeout_all_turn) (use b in auto)
  then have "do_udp_timeout 75 ?s = Ok t" using b by (simp add: do_udp_timeout_def)
  then have "main_iter Idle s = Ok t" using run by (auto simp: main_iter_def poll_idle_def poll_timeout_75)
  with t(2-4) show ?thesis by (simp add: calm_def)
qed

text \<open>The demonstration message one interval before its timer runs out.\<close>

definition demo_due :: server where
  "demo_due = demo_server\<lparr>msg_out_buf := [demo_msg\<lparr>n_data := (n_data demo_msg)\<lparr>timeout := 75\<rparr>\<rparr>]\<rparr>"

lemma demo_due_ok: "wf_server demo_due" "quiet demo_due" "clients demo_due = [ann, bob, cid, dan]"
  "argv demo_due = default_argv" "\<not> stop_flag demo_due"
  "msg_out_buf demo_due = [demo_msg\<lparr>n_data := (n_data demo_msg)\<lparr>timeout := 75\<rparr>\<rparr>]"
  using demo_wf demo_quiet by (simp_all add: demo_due_def wf_server_def quiet_def)

lemma demo_due_packet:
  "is_ok (compose e_udp (n_data demo_msg\<lparr>timeout := 75\<rparr>))"
  "packet (demo_msg\<lparr>n_data := (n_data demo_msg)\<lparr>timeout := 75\<rparr>\<rparr>) =
     (7, demo_addr 7, [CHR 0x04, NUL, CHR 0x09, NUL, NUL])"
  by code_simp+

theorem idle_round_resends_witness:
  "\<exists>t. main_iter Idle demo_due = Ok t \<and> wire (os t) = [(7, demo_addr 7, [CHR 0x04, NUL, CHR 0x09, NUL, NUL])] \<and>
     map (\<lambda>n. (retry_count (n_data n), timeout (n_data n))) (msg_out_buf t) = [(1, 250)]"
proof -
  let ?m = "demo_msg\<lparr>n_data := (n_data demo_msg)\<lparr>timeout := 75\<rparr>\<rparr>"
  have m: "pending [ann, bob, cid, dan] ?m" "\<not> lost default_argv ?m"
    using demo_due_packet(1) by (simp_all add: pending_def lost_def demo_nodes zero_msg_def default_argv_def fds_def)
  have "again default_argv ?m = [packet ?m]" "turn default_argv ?m = resent default_argv ?m"
    using m(2) by (auto simp: again_def turn_def lost_def)
  with idle_round_resends [OF demo_due_ok(1,2)] m demo_due_packet(2) show ?thesis
    by (auto simp: demo_due_ok) (auto simp: demo_due_def resent_def default_argv_def calm_os_def demo_msg_def zero_msg_def)
qed

section \<open>Deleting the clients that do not answer\<close>

lemma purge_filter:
  assumes "distinct (ptrs q)" and "distinct (ids q)" and "q = xs @ ys" and "\<forall>m \<in> set xs. m_sockfd (n_data m) \<noteq> f"
    and "length ys < k"
  shows "purge_loop k f (ql_first ys) q = Ok (filter (\<lambda>m. m_sockfd (n_data m) \<noteq> f) q)"
  using assms
proof (induction ys arbitrary: k q xs)
  case Nil
  then show ?case by (cases k) (auto simp: purge_loop.simps filter_id_conv)
next
  case (Cons m ys)
  obtain j where k: "k = Suc j" "length ys < j" using Cons.prems(5) by (cases k) auto
  have at: "ql_at (Some (n_ptr m)) q = Ok m" "ql_next (Some (n_ptr m)) q = Ok (ql_first ys)"
    using Cons.prems by (auto intro!: ql_at_mem ql_next_split)
  have "n_id m \<notin> set (ids xs)" "n_id m \<notin> set (ids ys)" using Cons.prems(2) unfolding Cons.prems(3) by auto
  then have "filter (\<lambda>n. n_id n \<noteq> n_id m) xs = xs" "filter (\<lambda>n. n_id n \<noteq> n_id m) ys = ys"
    by (auto simp: filter_id_conv ids_def image_iff)
  then have "snd (ql_remove (n_id m) q) = xs @ ys"
    using ql_remove_filter [OF Cons.prems(2), of "n_id m"] Cons.prems(3) by simp
  moreover have "purge_loop j f (ql_first ys) (xs @ ys) = Ok (filter (\<lambda>m. m_sockfd (n_data m) \<noteq> f) (xs @ ys))"
    using Cons.prems k(2) by (intro Cons.IH) auto
  moreover have "purge_loop j f (ql_first ys) q = Ok (filter (\<lambda>m. m_sockfd (n_data m) \<noteq> f) q)"
    if "m_sockfd (n_data m) \<noteq> f"
    using Cons.prems k(2) that by (intro Cons.IH [of q "xs @ [m]"]) auto
  ultimately show ?case using at Cons.prems(3)
    by (cases "m_sockfd (n_data m) = f") (simp_all add: k(1) purge_loop.simps)
qed

lemma delete_client_msgs:
  assumes "wf_server s" and "n \<in> set (clients s)" and "distinct (ids (msg_out_buf s))"
    and "delete_client (Some (n_ptr n)) s = Ok t"
  shows "msg_out_buf t = filter (\<lambda>m. m_sockfd (n_data m) \<noteq> c_sockfd (n_data n)) (msg_out_buf s) \<and>
     msg_cnt t = msg_cnt s \<and> wire (os t) = wire (os s)"
proof -
  have "distinct (ptrs (msg_out_buf s))" using assms(1) by (simp add: wf_server_def)
  from purge_filter [OF this assms(3), of "[]" "msg_out_buf s"] assms(4) client_at_ok [OF assms(1,2)] show ?thesis
    by (auto simp: delete_client_def Let_def andthen_Ok_iff os_close_def split: if_splits)
qed

lemma fds_without:
  "wf_server s \<Longrightarrow> n \<in> set (clients s) \<Longrightarrow>
     set (fds (filter (\<lambda>m. n_ptr m \<noteq> n_ptr n) (clients s))) = set (fds (clients s)) - {c_sockfd (n_data n)}"
  by (auto simp: wf_server_def fds_def ptrs_def distinct_map dest: inj_onD)

lemma destroy_loop_ended:
  assumes "wf_server s" and "quiet s" and "\<forall>c \<in> set (clients s). c_state (n_data c) = s_en"
    and "distinct (ids (msg_out_buf s))" and "msg_fds (msg_out_buf s) \<subseteq> set (fds (clients s))"
    and "doomed d (clients s)"
  shows "\<exists>t. destroy_loop d s = Ok t \<and> shrinks s t \<and>
     clients t = filter (\<lambda>c. Some (n_ptr c) \<notin> set d) (clients s) \<and> subseq (msg_out_buf t) (msg_out_buf s) \<and> wire (os t) = wire (os s) \<and>
     distinct (ids (msg_out_buf t)) \<and> msg_fds (msg_out_buf t) \<subseteq> set (fds (clients t))"
  using assms
proof (induction d arbitrary: s)
  case Nil
  then show ?case by (simp add: level_shrinks level_refl)
next
  case (Cons p d)
  obtain n where n: "n \<in> set (clients s)" "p = Some (n_ptr n)" using Cons.prems(6) by (auto simp: doomed_def ptrs_def)
  obtain t where t: "delete_client p s = Ok t" "shrinks s t" "clients t = filter (\<lambda>m. n_ptr m \<noteq> n_ptr n) (clients s)"
    using delete_client_safe [OF Cons.prems(1,2) n(1)] n(2) by auto
  have m: "msg_out_buf t = filter (\<lambda>m. m_sockfd (n_data m) \<noteq> c_sockfd (n_data n)) (msg_out_buf s)"
    "wire (os t) = wire (os s)"
    using delete_client_msgs [OF Cons.prems(1) n(1) Cons.prems(4)] t(1) n(2) by simp_all
  then have sub: "subseq (msg_out_buf t) (msg_out_buf s)" by simp
  have "msg_fds (msg_out_buf t) \<subseteq> set (fds (clients t))"
    using Cons.prems(5) fds_without [OF Cons.prems(1) n(1)] by (auto simp: m t(3) msg_fds_def)
  moreover have "distinct (ids (msg_out_buf t))" using Cons.prems(4) by (simp add: m ids_def distinct_map_filter)
  moreover have "set (ptrs (clients t)) = set (ptrs (clients s)) - {n_ptr n}" by (auto simp: t(3) ptrs_def)
  then have "doomed d (clients t)" using Cons.prems(6) n(2) by (auto simp: doomed_def image_set_diff)
  ultimately have "\<exists>u. destroy_loop d t = Ok u \<and> shrinks t u \<and>
     clients u = filter (\<lambda>c. Some (n_ptr c) \<notin> set d) (clients t) \<and> subseq (msg_out_buf u) (msg_out_buf t) \<and> wire (os u) = wire (os t) \<and>
     distinct (ids (msg_out_buf u)) \<and> msg_fds (msg_out_buf u) \<subseteq> set (fds (clients u))"
    using shrinksD [OF t(2)] Cons.prems(3) t(3) by (intro Cons.IH) auto
  moreover have "destroy_loop (p # d) s = destroy_loop d t"
    using client_at_ok [OF Cons.prems(1) n(1)] n t(1) Cons.prems(3) by simp
  moreover have "filter (\<lambda>c. Some (n_ptr c) \<notin> set d) (clients t) = filter (\<lambda>c. Some (n_ptr c) \<notin> set (p # d)) (clients s)"
    using n(2) by (auto simp: t(3) intro: filter_cong)
  ultimately show ?case using shrinks_trans [OF t(2)] m(2) subseq_order.trans [OF _ sub] by auto
qed

section \<open>Rounds after the interrupt\<close>

text \<open>
  All clients are in the end state, each unconfirmed message belongs to one of them, and none of
  these messages can wait for more than \<open>k\<close> rounds.
\<close>

definition lingering :: "nat \<Rightarrow> server \<Rightarrow> bool" where
  "lingering k s \<longleftrightarrow> wf_server s \<and> quiet s \<and> stop_flag s \<and> (\<forall>c \<in> set (clients s). c_state (n_data c) = s_en) \<and>
     distinct (ids (msg_out_buf s)) \<and> (\<forall>n \<in> set (msg_out_buf s). pending (clients s) n \<and> rank (argv s) n \<le> k)"

lemma deleted_fd:
  assumes "wf_server s" and "get_client_by_fd (clients s) f \<in> set d" 
  shows "f \<notin> set (fds (filter (\<lambda>c. Some (n_ptr c) \<notin> set d) (clients s)))"
proof
  assume "f \<in> set (fds (filter (\<lambda>c. Some (n_ptr c) \<notin> set d) (clients s)))"
  then obtain c where c: "c \<in> set (clients s)" "c_sockfd (n_data c) = f" "Some (n_ptr c) \<notin> set d"
    by (auto simp: fds_def)
  then have "f \<in> set (fds (clients s))" by (auto simp: fds_def)
  then obtain a where a: "get_client_by_fd (clients s) f = Some a" using get_client_by_fd_Some(1) by blast
  from get_client_by_fd_Some(2) [OF a] c(1,2) assms(1) have "a = n_ptr c"
    by (auto simp: wf_server_def fds_def distinct_map dest: inj_onD)
  with a c(3) assms(2) show False by simp
qed

text \<open>What was sent, and what may still be sent again.\<close>

definition debt :: "server \<Rightarrow> nat" where
  "debt s = length (wire (os s)) + budget (argv s) (msg_out_buf s)"

lemma timeout_lingers:
  assumes "lingering (Suc k) s"
  shows "\<exists>u. do_udp_timeout 75 s = Ok u \<and> shrinks s u \<and> lingering k u \<and> debt u \<le> debt s"
proof -
  note l = assms [unfolded lingering_def]
  obtain d t where t: "timeout_loop (Suc (length (msg_out_buf s))) 75 (length (clients s)) (ql_first (msg_out_buf s)) [] s = Ok (d, t)"
      "calm s t" "msg_out_buf t = map (turn (argv s)) (msg_out_buf s)" "doomed d (clients s)"
      "\<forall>n \<in> set (msg_out_buf s). lost (argv s) n \<longrightarrow> get_client_by_fd (clients s) (m_sockfd (n_data n)) \<in> set d"
      "wire (os t) = wire (os s) @ concat (map (again (argv s)) (msg_out_buf s))"
    by (rule timeout_all_turn [of s]) (use l in auto)
  have w: "wf_server t" "quiet t" "clients t = clients s" "stop_flag t" "argv t = argv s"
    using t(2) l by (simp_all add: calm_def)
  have "\<exists>u. destroy_loop d t = Ok u \<and> shrinks t u \<and>
     clients u = filter (\<lambda>c. Some (n_ptr c) \<notin> set d) (clients t) \<and> subseq (msg_out_buf u) (msg_out_buf t) \<and> wire (os u) = wire (os t) \<and>
     distinct (ids (msg_out_buf u)) \<and> msg_fds (msg_out_buf u) \<subseteq> set (fds (clients u))"
  proof (rule destroy_loop_ended [OF w(1,2)])
    show "msg_fds (msg_out_buf t) \<subseteq> set (fds (clients t))" using l by (auto simp: t(3) w(3) msg_fds_def pending_def)
    show "distinct (ids (msg_out_buf t))" using l by (simp add: t(3) ids_def comp_def)
  qed (use l t(4) w(3) in simp_all)
  then obtain u where u: "destroy_loop d t = Ok u" "shrinks t u"
     "clients u = filter (\<lambda>c. Some (n_ptr c) \<notin> set d) (clients s)" "subseq (msg_out_buf u) (msg_out_buf t)"
     "distinct (ids (msg_out_buf u))" "msg_fds (msg_out_buf u) \<subseteq> set (fds (clients u))"
     "wire (os u) = wire (os t)"
    using w(3) by auto
  have "argv u = argv s" using u(2) w(5) by (simp add: shrinks_def)
  with budget_subseq [OF u(4), of "argv s"] budget_turn [of "argv s" "msg_out_buf s"]
  have "debt u \<le> debt s" by (simp add: debt_def u(7) t(3,6))
  moreover
have "pending (clients u) n \<and> rank (argv u) n \<le> k" if n: "n \<in> set (msg_out_buf u)" for n
  proof -
    obtain m where m: "m \<in> set (msg_out_buf s)" "n = turn (argv s) m"
      using list_emb_set [OF u(4) n] by (auto simp: t(3))
    have f: "m_sockfd (n_data m) \<in> set (fds (clients u))" using n u(6) m(2) by (auto simp: msg_fds_def)
    then have "\<not> lost (argv s) m" using deleted_fd [of s "m_sockfd (n_data m)" d] t(5) m(1) l u(3) by auto
    from turn_rank [OF this] f m l u(2) w(5) show ?thesis by (auto simp: pending_def shrinks_def)
  qed
  moreover have s: "shrinks s u" using shrinks_trans [OF level_shrinks [OF calm_level [OF t(2)]] u(2)] .
  moreover have "do_udp_timeout 75 s = Ok u" using t(1) u(1) by (simp add: do_udp_timeout_def)
  ultimately show ?thesis using u(3,5) l shrinksD [OF s] by (auto simp: lingering_def shrinks_def)
qed

lemma lingering_update:
  "lingering k s \<Longrightarrow> poll_ok p \<Longrightarrow> lingering k (s\<lparr>poll := p, stop_timeout := n\<rparr>)"
  by (auto simp: lingering_def wf_server_def quiet_def)

text \<open>\<open>s\<close> has become \<open>u\<close>: the program has exited, or the messages wait for \<open>k\<close> more rounds at most.\<close>

definition shut :: "server \<Rightarrow> server \<Rightarrow> bool" where
  "shut s u \<longleftrightarrow> exited u = Some 0 \<and> {get_tcp_socket s, get_udp_socket s} \<subseteq> set (closed (os u))"

definition winding_down :: "nat \<Rightarrow> server \<Rightarrow> server \<Rightarrow> bool" where
  "winding_down k s u \<longleftrightarrow> shut s u \<or> lingering k u \<and> stop_timeout u \<le> STOP_TIMEOUT \<and>
     get_tcp_socket u = get_tcp_socket s \<and> get_udp_socket u = get_udp_socket s"

lemma emptied_exits:
  assumes "lingering k s" and "stop_timeout s \<le> STOP_TIMEOUT" and "msg_out_buf s = []"
  shows "\<exists>j t. j \<le> 8 \<and> idle_rounds j s = Ok t \<and> shut s t"
proof -
  have "stop_timeout s \<le> 75 * int 7" using assms(2) by (simp add: STOP_TIMEOUT_def)
  with idle_rounds_stop [of s 7] assms(1,3) obtain j t where "j \<le> 8" "idle_rounds j s = Ok t" "exited t = Some 0"
    "closed (os t) = closed (os s) @ [get_tcp_socket s, get_udp_socket s] @ filter (\<lambda>f. f \<noteq> 0) (polled (poll s))"
    by (auto simp: lingering_def wf_server_def)
  then show ?thesis by (intro exI [of _ j] exI [of _ t]) (simp add: shut_def)
qed

lemma lingering_idle:
  assumes l: "lingering (Suc k) s" and st: "stop_timeout s \<le> STOP_TIMEOUT"
  shows "\<exists>u. poll_idle 75 s = Ok u \<and> winding_down k s u"
proof (cases "msg_out_buf s = [] \<and> stop_timeout s \<le> 0")
  case True
  have "poll_ok (poll s)" "stop_flag s" using l by (simp_all add: lingering_def wf_server_def)
  with stop_closes [of s 0] True show ?thesis by (auto simp: poll_idle_def winding_down_def shut_def)
next
  case False
  let ?n = "if msg_out_buf s = [] then stop_timeout s - 75 else STOP_TIMEOUT"
  let ?s = "s\<lparr>stop_timeout := ?n\<rparr>"
  have "poll_idle 75 s = do_udp_timeout 75 ?s"
    using False l by (auto simp: poll_idle_def lingering_def)
  moreover have "lingering (Suc k) ?s"
    using lingering_update [OF l, of "poll s" ?n] l by (simp add: lingering_def wf_server_def)
  from timeout_lingers [OF this] obtain u where u: "do_udp_timeout 75 ?s = Ok u" "shrinks ?s u" "lingering k u" by blast
  moreover have "ends UNIV (do_udp_timeout 75 ?s) (\<lambda>t. stop_timeout t = ?n)" by (rule timer.udp_timeout_I) simp
  with u(1) st have "stop_timeout u \<le> STOP_TIMEOUT" by (auto split: if_splits)
  ultimately show ?thesis by (auto simp: shrinks_def winding_down_def get_tcp_socket_def get_udp_socket_def)
qed

lemma winding_down_exits: "winding_down k s u \<Longrightarrow> \<exists>j t. j \<le> k + 8 \<and> idle_rounds j u = Ok t \<and> shut s t"
proof (induction k arbitrary: u)
  case 0
  show ?case
  proof (cases "shut s u")
    case False
    with "0.prems" have u: "lingering 0 u" "stop_timeout u \<le> STOP_TIMEOUT" "shut u t \<Longrightarrow> shut s t" for t
      by (auto simp: winding_down_def shut_def)
    then have "msg_out_buf u = []" by (cases "msg_out_buf u") (auto simp: lingering_def)
    with emptied_exits [OF u(1,2)] u(3) show ?thesis by auto
  qed (auto intro: exI [of _ 0])
next
  case (Suc k)
  show ?case
  proof (cases "shut s u")
    case False
    let ?u = "u\<lparr>poll := set_revents [] (poll u)\<rparr>"
    have u: "lingering (Suc k) u" "stop_timeout u \<le> STOP_TIMEOUT" "get_tcp_socket u = get_tcp_socket s"
      "get_udp_socket u = get_udp_socket s" using False Suc.prems by (auto simp: winding_down_def)
    then have "lingering (Suc k) ?u"
      using lingering_update [OF u(1), of "set_revents [] (poll u)" "stop_timeout u"]
      by (simp add: lingering_def wf_server_def set_revents_ok)
    from lingering_idle [OF this] u(2-4) obtain v where v: "main_iter Idle u = Ok v" "winding_down k s v"
      by (auto simp: main_iter_def poll_timeout_75 winding_down_def shut_def get_tcp_socket_def get_udp_socket_def)
    from Suc.IH [OF v(2)] obtain j t where "j \<le> k + 8" "idle_rounds j v = Ok t" "shut s t" by blast
    with v(1) show ?thesis by (intro exI [of _ "Suc j"]) simp
  qed (auto intro: exI [of _ 0])
qed

section \<open>The interrupt\<close>

lemma few_clients:
  assumes "wf_server s"
  shows "length (clients s) \<le> 65536"
proof -
  have "unat i < 2 ^ LENGTH(16)" for i :: id_t by (rule unsigned_less)
  then have "unat ` set (ids (clients s)) \<subseteq> {..<65536}" by auto
  then have "card (unat ` set (ids (clients s))) \<le> 65536" using card_mono [OF finite_lessThan] by fastforce
  moreover have "card (unat ` set (ids (clients s))) = card (set (ids (clients s)))"
    by (intro card_image) (simp add: inj_on_def word_unat_eq_iff)
  moreover have "card (set (ids (clients s))) = length (ids (clients s))"
    using assms by (intro distinct_card) (simp add: wf_server_def)
  ultimately show ?thesis by (simp add: ids_def)
qed

text \<open>
  The ids of the unconfirmed messages are distinct, and none of them is given to one of the coming
  BYEs (the ids have 16 bits, so they come round).
\<close>

definition fresh_ids :: "server \<Rightarrow> bool" where
  "fresh_ids s \<longleftrightarrow> distinct (ids (msg_out_buf s)) \<and>
     (\<forall>j < length (clients s). ucast (msg_cnt s + of_nat j) \<notin> set (ids (msg_out_buf s)))"

lemma fresh_ids_kept:
  assumes "fresh_ids s" and "kept_ids (msg_cnt s) k (ids ks)" and "k \<le> length (clients s)" and "k \<le> 65536"
  shows "distinct (ids (msg_out_buf s @ ks))"
  using assms(1-3) kept_ids_distinct [OF assms(2,4)]
  by (auto simp: fresh_ids_def kept_ids_def) (meson lessThan_iff less_le_trans subset_iff)

lemma bye_composes: "msg_type m = e_bye \<Longrightarrow> is_ok (compose e_udp m)"
  using fits_iff [of m] by (simp add: fits_def)

lemma waiting_bye_pending:
  "waiting_bye a n c \<Longrightarrow> m_sockfd (n_data n) \<in> set (fds q) \<Longrightarrow> pending q n"
  by (simp add: waiting_bye_def pending_def bye_composes)

lemma rank_le: "rank a n \<le> (unat (udp_retransmissions a) + 1) * 65536"
  using steps_le [of "timeout (n_data n)"] by (simp add: rank_def)

lemma interrupt_lingers:
  assumes wf: "wf_server s" "quiet s" and b: "\<forall>n \<in> set (msg_out_buf s). pending (clients s) n" "fresh_ids s"
    and st: "stop_timeout s \<le> STOP_TIMEOUT"
  shows "\<exists>t. sigint_handler s = Ok t \<and> lingering ((unat (udp_retransmissions (argv s)) + 1) * 65536) t \<and>
     stop_timeout t \<le> STOP_TIMEOUT \<and> get_tcp_socket t = get_tcp_socket s \<and> get_udp_socket t = get_udp_socket s"
proof -
  obtain t where t: "sigint_handler s = Ok t" "farewell s (clients t) t" "shrinks (s\<lparr>stop_flag := True\<rparr>) t"
    using ends_conj [OF sigint_farewell [OF wf, of "{}"] sigint_handler_safe [OF wf]]
    by (cases "sigint_handler s") auto
  from t(2) obtain ks where f: "argv t = argv s" "\<forall>n \<in> set (clients t). c_state (n_data n) = s_en"
    "msg_out_buf t = msg_out_buf s @ ks"
    "list_all2 (waiting_bye (argv s)) ks (filter (\<lambda>c. c_protocol c = e_udp) (actives (clients s)))"
    "kept_ids (msg_cnt s) (length (actives (clients s))) (ids ks)" "msg_fds ks \<subseteq> set (fds (clients t))"
    "msg_fds (msg_out_buf s) \<inter> set (fds (clients s)) \<subseteq> set (fds (clients t))"
    by (auto simp: farewell_def actives_def)
  have "length (actives (clients s)) \<le> length (clients s)" by (metis actives_def length_filter_le length_map)
  with few_clients [OF wf(1)] have "distinct (ids (msg_out_buf t))"
    unfolding f(3) by (intro fresh_ids_kept [OF b(2) f(5)]) auto
  moreover have "pending (clients t) n" if "n \<in> set (msg_out_buf s)" for n
    using b(1) that f(7) by (auto simp: pending_def msg_fds_def)
  moreover have "pending (clients t) n" if n: "n \<in> set ks" for n
  proof -
    obtain c where "waiting_bye (argv s) n c" using f(4) n by (auto simp: list_all2_conv_all_nth in_set_conv_nth)
    then show ?thesis by (rule waiting_bye_pending) (use n f(6) in \<open>auto simp: msg_fds_def\<close>)
  qed
  moreover have "ends UNIV (sigint_handler s) (\<lambda>t. stop_timeout t = stop_timeout s)"
    unfolding sigint_handler_def Let_def by (rule timer.sigint_loop_I) simp
  ultimately show ?thesis using t(1,3) f(1-3) st rank_le [of "argv s"]
    by (auto simp: lingering_def shrinks_def get_tcp_socket_def get_udp_socket_def)
qed

section \<open>What is sent after the interrupt\<close>

text \<open>
  A server that is stopping, whose packets sent and retransmissions left add up to at most \<open>k\<close>; also
  when it has exited.
\<close>

definition frugal :: "nat \<Rightarrow> server \<Rightarrow> bool" where
  "frugal k s \<longleftrightarrow> stop_flag s \<and> debt s \<le> k \<and> (msg_out_buf s = [] \<or> (\<exists>j. lingering j s))"

lemma stop_sends_nothing:
  assumes "stop code s = Ok t"
  shows "wire (os t) = wire (os s) \<and> msg_out_buf t = [] \<and> stop_flag t = stop_flag s"
proof -
  have "close_fds js u = Ok v \<Longrightarrow> wire (os v) = wire (os u) \<and> msg_out_buf v = msg_out_buf u \<and> stop_flag v = stop_flag u"
    for js u v
    by (induction js arbitrary: u) (fastforce simp: andthen_Ok_iff os_close_def split: if_splits)+
  from this [of _ "server_close (s\<lparr>clients := [], msg_out_buf := []\<rparr>)"] assms show ?thesis
    by (fastforce simp: stop_def Let_def andthen_Ok_iff server_close_def os_close_def)
qed

lemma frugal_empty:
  "msg_out_buf s = [] \<Longrightarrow> frugal k s \<longleftrightarrow> stop_flag s \<and> length (wire (os s)) \<le> k"
  by (simp add: frugal_def debt_def budget_def)

lemma frugal_idle:
  assumes f: "frugal k s" and r: "poll_idle 75 s = Ok t"
  shows "frugal k t"
proof (cases "msg_out_buf s = []")
  case True
  with f r show ?thesis
    by (auto simp: poll_idle_def frugal_def debt_def budget_def do_udp_timeout_def timeout_loop.simps ql_first_def
        dest!: stop_sends_nothing split: if_splits)
next
  case False
  with f obtain j where j: "lingering j s" "stop_flag s" "debt s \<le> k" by (auto simp: frugal_def)
  let ?s = "s\<lparr>stop_timeout := STOP_TIMEOUT\<rparr>"
  have "lingering (Suc j) s" using j(1) by (auto simp: lingering_def)
  then have "lingering (Suc j) ?s"
    using lingering_update [of "Suc j" s "poll s" STOP_TIMEOUT] by (simp add: lingering_def wf_server_def)
  from timeout_lingers [OF this] False r obtain u where "t = u" "shrinks ?s u" "lingering j u" "debt u \<le> debt ?s"
    by (auto simp: poll_idle_def)
  with j(2,3) show ?thesis by (auto simp: frugal_def shrinks_def debt_def)
qed

lemma frugal_polls: "frugal k s \<Longrightarrow> frugal k (s\<lparr>poll := set_revents [] (poll s)\<rparr>)"
  using lingering_update [of _ s "set_revents [] (poll s)" "stop_timeout s"]
  by (auto simp: frugal_def debt_def lingering_def wf_server_def set_revents_ok)

lemma frugal_rounds: "frugal k s \<Longrightarrow> idle_rounds j s = Ok t \<Longrightarrow> frugal k t"
proof (induction j arbitrary: s)
  case (Suc j)
  then obtain u where u: "main_iter Idle s = Ok u" "idle_rounds j u = Ok t" by (auto simp: andthen_Ok_iff)
  have "frugal k u"
    using frugal_idle [OF frugal_polls [OF Suc.prems(1)]] u(1) by (simp add: main_iter_def poll_timeout_75)
  with u(2) show ?case by (rule Suc.IH [rotated])
qed simp

text \<open>The interrupt itself sends one BYE to each client that is not in the end state.\<close>

lemma interrupt_frugal:
  assumes wf: "wf_server s" "quiet s" and b: "\<forall>n \<in> set (msg_out_buf s). pending (clients s) n" "fresh_ids s"
    and st: "stop_timeout s \<le> STOP_TIMEOUT" and t: "sigint_handler s = Ok t"
  shows "frugal (debt s + (unat (udp_retransmissions (argv s)) + 1) * length (clients s)) t"
proof -
  let ?R = "unat (udp_retransmissions (argv s))"
  obtain k where k: "lingering k t" using interrupt_lingers [OF wf b st] t by auto
  have "farewell s (clients t) t" using sigint_farewell [OF wf, of UNIV] t by simp
  then obtain ks ws where f: "argv t = argv s" "wire (os t) = wire (os s) @ ws" "msg_out_buf t = msg_out_buf s @ ks"
    "deliveries bye_msg (msg_cnt s) (actives (clients s)) = Ok ws"
    "list_all2 (waiting_bye (argv s)) ks (filter (\<lambda>c. c_protocol c = e_udp) (actives (clients s)))"
    by (auto simp: farewell_def actives_def)
  have a: "length (actives (clients s)) \<le> length (clients s)" by (metis actives_def length_filter_le length_map)
  have "length ks \<le> length (clients s)"
    using list_all2_lengthD [OF f(5)] a length_filter_le le_trans by metis
  then have "budget (argv s) ks \<le> ?R * length (clients s)"
    using budget_le [of "argv s" ks] mult_le_mono2 le_trans by blast
  moreover have "length ws \<le> length (clients s)" using deliveries_length [OF f(4)] a by simp
  ultimately have "debt t \<le> debt s + (?R + 1) * length (clients s)" by (simp add: debt_def f(1-3))
  with k show ?thesis by (auto simp: frugal_def lingering_def)
qed

lemma interrupt_sends_little:
  assumes wf: "wf_server s" "quiet s" and b: "\<forall>n \<in> set (msg_out_buf s). pending (clients s) n" "fresh_ids s"
    and st: "stop_timeout s \<le> STOP_TIMEOUT" "\<not> stop_flag s"
    and t: "andthen (main_iter Interrupted s) (idle_rounds j) = Ok t"
  shows "length (wire (os t)) \<le> debt s + (unat (udp_retransmissions (argv s)) + 1) * length (clients s)"
proof -
  let ?k = "debt s + (unat (udp_retransmissions (argv s)) + 1) * length (clients s)"
  obtain u v where u: "sigint_handler s = Ok u" "poll_idle 75 u = Ok v" "idle_rounds j v = Ok t"
    using t st(2) by (auto simp: main_iter_def poll_timeout_75 andthen_Ok_iff)
  have "frugal ?k t"
    by (rule frugal_rounds [OF frugal_idle [OF interrupt_frugal [OF wf b st(1) u(1)] u(2)] u(3)])
  then show ?thesis by (simp add: frugal_def debt_def)
qed

text \<open>
  An interrupt ends the program, even when no UDP client ever answers: in every state in which
  the unconfirmed messages belong to clients of the queue and their ids are not about to be reused,
  the program exits with code 0 and closes its welcome sockets after at most 65536 idle rounds per
  transmission and 7 more.
\<close>

lemma interrupt_terminates:
  assumes "wf_server s" and "quiet s" and "\<forall>n \<in> set (msg_out_buf s). pending (clients s) n" and "fresh_ids s"
    and "stop_timeout s \<le> STOP_TIMEOUT" and "\<not> stop_flag s"
  shows "\<exists>j t. j \<le> (unat (udp_retransmissions (argv s)) + 1) * 65536 + 7 \<and>
     andthen (main_iter Interrupted s) (idle_rounds j) = Ok t \<and> exited t = Some 0 \<and>
     {get_tcp_socket s, get_udp_socket s} \<subseteq> set (closed (os t))"
proof -
  obtain k where k: "(unat (udp_retransmissions (argv s)) + 1) * 65536 = Suc k"
    by (cases "(unat (udp_retransmissions (argv s)) + 1) * 65536") auto
  obtain t where t: "sigint_handler s = Ok t" "lingering (Suc k) t" "stop_timeout t \<le> STOP_TIMEOUT"
    "get_tcp_socket t = get_tcp_socket s" "get_udp_socket t = get_udp_socket s"
    using interrupt_lingers [OF assms(1-5)] unfolding k by blast
  from lingering_idle [OF t(2,3)] t assms(6) obtain u where u: "main_iter Interrupted s = Ok u" "winding_down k s u"
    by (auto simp: main_iter_def poll_timeout_75 winding_down_def shut_def)
  from winding_down_exits [OF u(2)] obtain j v where "j \<le> k + 8" "idle_rounds j u = Ok v" "shut s v" by blast
  with u(1) show ?thesis unfolding k by (intro exI [of _ j] exI [of _ v]) (simp add: shut_def)
qed

end
