(* ===== verification/Journey.thy ===== *)
theory Journey
  imports Delivery
begin

text \<open>
  Messages on their way through the server: from the bytes that arrive on the socket of one client
  over parser, handler and composer to the bytes that leave on the sockets of the others; which
  input is handled without any fault, and which input that the README allows is not.
\<close>

section \<open>Input that cannot overflow a buffer\<close>

lemma parse_msg_data:
  assumes "parse pr b n zero_msg = Ok (None, m)" and "msg_type m = e_msg"
  shows "length (data m) \<le> 1421"
proof (cases pr)
  case e_tcp
  with assms(1) have "parse_tcp_text (cstr 0 b) zero_msg = (None, m)"
    by (auto simp: parse_def parse_tcp_def split: if_splits)
  from parse_tcp_sound [OF this] obtain a where "grammar 1 a" "m = fill a zero_msg" by blast
  with assms(2) show ?thesis by (cases a) (auto simp: data_offsets)
next
  case e_udp
  with assms(1) have "parse_udp b n zero_msg = (None, m)" by (simp add: parse_def)
  with assms(2) show ?thesis
    by (auto simp: parse_udp_def udp_fail_def Let_def case_prod_beta is_message_content_iff is_display_name_iff
        data_offsets split: if_splits)
qed

text \<open>
  A packet is well named when it leaves room for a terminator and, if it parses to MSG, the
  display name in the message is shorter than its array.
\<close>

definition well_named :: "transport_protocol_t \<Rightarrow> bytes \<Rightarrow> bool" where
  "well_named pr bs \<longleftrightarrow> length bs < STRING_MAX_LENGTH \<and>
     (case parse pr bs (length bs) zero_msg of
        Ok (None, m) \<Rightarrow> msg_type m = e_msg \<longrightarrow> length (data_str msg_display_name_off m) < 20
      | _ \<Rightarrow> True)"

lemma well_named_ok:
  assumes "well_named pr bs"
  shows "packet_ok {} pr bs"
proof -
  have l: "length bs < STRING_MAX_LENGTH" using assms by (simp add: well_named_def)
  then obtain rc m where p: "parse pr bs (length bs) zero_msg = Ok (rc, m)"
    by (cases "parse pr bs (length bs) zero_msg") (auto simp: parse_def parse_tcp_def split: if_splits)
  have "fits m" if "rc = None" "msg_type m = e_msg"
    using parse_msg_data [of pr bs "length bs" m] p that assms cstr_length_le [of 20 "data m"]
    by (auto simp: well_named_def fits_iff data_str_def data_offsets)
  with p l show ?thesis by (simp add: packet_ok_def)
qed

text \<open>
  C11. Whatever well-named packets a client sends (shorter than the buffer, and the display name of a
  MSG shorter than its array), garbage included, handling its socket returns normally and the invariant
  still holds, as long as no send and no allocation fails.
\<close>

theorem client_input_total:
  assumes "wf_server s" and "quiet s" and "n \<in> set (clients s)"
    and "\<forall>x \<in> set (inbox (os s) (c_sockfd (n_data n))). well_named (c_protocol (n_data n)) (fst x)"
  shows "\<exists>t. process_msg_sock (c_sockfd (n_data n)) s = Ok t \<and> wf_server t"
proof -
  let ?f = "c_sockfd (n_data n)"
  have "k = n" if "k \<in> set (clients s)" "c_sockfd (n_data k) = ?f" for k
    using that assms(1,3) by (auto simp: wf_server_def fds_def distinct_map dest: inj_onD)
  then have "ends {} (process_msg_sock ?f s) (drains s)"
    using assms(4) by (intro process_msg_sock_safe assms(1,2)) (auto intro: well_named_ok)
  then show ?thesis by (cases "process_msg_sock ?f s") (auto simp: drains_unfold)
qed

definition demo_input :: server where
  "demo_input = demo_server\<lparr>os := calm_os\<lparr>inbox := (\<lambda>f. if f = 5
     then [(tcp_wire (Msg ''ann'' ''hello''), demo_addr 5), (''garbage'', demo_addr 5), ([], demo_addr 5)] else [])\<rparr>\<rparr>"

lemma demo_input_ok: "wf_server demo_input" "quiet demo_input" "clients demo_input = [ann, bob, cid, dan]"
  using demo_wf by (simp_all add: demo_input_def wf_server_def quiet_def calm_os_def)

lemma demo_packets:
  "well_named e_tcp (tcp_wire (Msg ''ann'' ''hello''))" "well_named e_tcp ''garbage''" "well_named e_tcp []"
  by code_simp+

theorem client_input_total_witness:
  "\<exists>t. process_msg_sock 5 demo_input = Ok t \<and> wf_server t"
  using client_input_total [OF demo_input_ok(1,2), of ann] demo_packets
  by (auto simp: demo_input_ok ann_def demo_input_def)


section \<open>From one socket to the others\<close>

text \<open>The others in the channel of a client, and what each gets of its message.\<close>

definition audience :: "client_t node \<Rightarrow> client_t queue \<Rightarrow> client_t list" where
  "audience n q = map n_data (filter (\<lambda>k. n_ptr k \<noteq> n_ptr n \<and> c_state (n_data k) \<noteq> s_en \<and>
     c_channel_id (n_data k) = c_channel_id (n_data n)) q)"

fun relayed :: "string \<Rightarrow> string \<Rightarrow> 32 word \<Rightarrow> client_t list \<Rightarrow> (int \<times> sockaddr_in \<times> bytes) list" where
  "relayed d t i [] = []"
| "relayed d t i (c # cs) = (c_sockfd c, c_addr c,
     if c_protocol c = e_tcp then tcp_wire (Msg d t) else udp_wire (ucast i) 0 (Msg d t)) #
     relayed d t (i + 1) cs"

lemma deliveries_fill:
  assumes "grammar 1 (Msg d t)" and "length d < 20"
  shows "deliveries (fill (Msg d t) zero_msg) cnt cs = Ok (relayed d t cnt cs)"
proof (induction cs arbitrary: cnt)
  case (Cons c cs)
  let ?m = "fill (Msg d t) zero_msg\<lparr>msg_id := ucast cnt\<rparr>"
  have "compose_tcp ?m = Ok (None, tcp_wire (Msg d t))"
    unfolding compose_tcp_id by (rule compose_tcp_fill) (use assms in simp_all)
  moreover have "?m = udp_fill (ucast cnt) 0 (Msg d t) zero_msg" by (simp add: put_str_def)
  then have "compose_udp ?m = Ok (None, udp_wire (ucast cnt) 0 (Msg d t), length (udp_wire (ucast cnt) 0 (Msg d t)))"
    using compose_udp_fill [OF assms(1), of 0 "ucast cnt"] assms(2) by simp
  ultimately show ?case
    using Cons.IH grammar_no_NUL [OF assms(1)]
    by (cases "c_protocol c")
       (simp_all add: compose_def sent_bytes_def cstr_0_id del: fill.simps tcp_wire.simps udp_wire.simps)
qed simp

lemma channel_set_display_name:
  assumes "length bs = 20"
  shows "c_channel_id (set_display_name bs c) = c_channel_id c"
proof -
  have "drop 40 (buf_slice 0 60 (buf_write 20 bs b)) = drop 40 (buf_slice 0 60 b)" for b
    using assms by (intro nth_equalityI) (auto simp: nth_buf_slice buf_at_write)
  then show ?thesis
    by (simp add: c_channel_id_def client_bytes_def set_display_name_def cstr_def)
qed

lemma recipients_audience:
  assumes "distinct (fds q)" and "distinct (ptrs q)" and "n \<in> set q" and "length bs = 20"
  defines "g \<equiv> set_display_name bs"
  shows "recipients (g (n_data n)) (ql_map (n_ptr n) g q) = audience n q"
proof -
  have self: "k = n" if "k \<in> set q" "n_ptr k = n_ptr n \<or> c_sockfd (n_data k) = c_sockfd (n_data n)" for k
    using that assms(1-3) by (auto simp: fds_def ptrs_def distinct_map dest: inj_onD)
  have g: "c_sockfd (g c) = c_sockfd c" "c_state (g c) = c_state c" "c_channel_id (g c) = c_channel_id c" for c
    using channel_set_display_name [OF assms(4)] by (simp_all add: g_def) (simp add: set_display_name_def)
  have "filter (\<lambda>c. c_state c \<noteq> s_en \<and> \<not> cmp_clients (g (n_data n)) c \<and> c_channel_id c = c_channel_id (g (n_data n)))
      (map n_data (ql_map (n_ptr n) g r)) = audience n r" if "set r \<subseteq> set q" for r
    using that
  proof (induction r)
    case (Cons k r)
    then have IH: "filter (\<lambda>c. c_state c \<noteq> s_en \<and> \<not> cmp_clients (g (n_data n)) c \<and>
        c_channel_id c = c_channel_id (g (n_data n))) (map n_data (ql_map (n_ptr n) g r)) = audience n r"
      and k: "k \<in> set q" by auto
    show ?case
    proof (cases "n_ptr k = n_ptr n")
      case True
      with self [OF k] have "k = n" by simp
      moreover have "cmp_clients (g (n_data n)) (g (n_data n))" by (simp add: cmp_clients_def)
      ultimately show ?thesis using IH by (simp add: ql_map_def audience_def)
    next
      case False
      with self [OF k] have "\<not> cmp_clients (g (n_data n)) (n_data k)" by (auto simp: cmp_clients_def g(1))
      with False IH show ?thesis by (simp add: ql_map_def audience_def g(3))
    qed
  qed (simp add: ql_map_def audience_def)
  then show ?thesis by (simp add: recipients_def)
qed


text \<open>One round of \<open>process_msg_sock\<close> for a TCP client whose packet parses.\<close>

definition got :: "int \<Rightarrow> client_t \<Rightarrow> msg_t \<Rightarrow> server \<Rightarrow> server" where
  "got f c m s = os_log (LogRecv (c_addr c) (msg_type m)) (received f s)"

lemma got_simps [simp]:
  "wf_server (got f c m s) = wf_server s" "quiet (got f c m s) = quiet s" "clients (got f c m s) = clients s"
  "stop_flag (got f c m s) = stop_flag s" "msg_cnt (got f c m s) = msg_cnt s"
  "wire (os (got f c m s)) = wire (os s)" "inbox (os (got f c m s)) f = tl (inbox (os s) f)"
  by (simp_all add: got_def os_log_def received_def wf_server_def quiet_def)

lemma ql_map_same: "(\<And>k. k \<in> set q \<Longrightarrow> n_ptr k = a \<Longrightarrow> f (n_data k) = n_data k) \<Longrightarrow> ql_map a f q = q"
  by (induction q) (auto simp: ql_map_def)

lemma ql_map_member: "k \<in> set q \<Longrightarrow> n_ptr k = a \<Longrightarrow> k\<lparr>n_data := f (n_data k)\<rparr> \<in> set (ql_map a f q)"
  by (force simp: ql_map_def)

lemma store_own_addr:
  assumes "wf_server s" and "n \<in> set (clients s)"
  shows "store_addr (ClientAddr (Some (n_ptr n))) (c_addr (n_data n)) s = Ok s"
proof -
  have "ql_map (n_ptr n) (\<lambda>c. c\<lparr>c_addr := c_addr (n_data n)\<rparr>) (clients s) = clients s"
    using assms by (intro ql_map_same) (auto simp: wf_server_def ptrs_def distinct_map dest: inj_onD)
  then show ?thesis using upd_client_eq [OF assms] by (simp add: store_addr_def)
qed

lemma sock_loop_tcp:
  assumes wf: "wf_server s" and n: "n \<in> set (clients s)" and tcp: "c_protocol (n_data n) = e_tcp"
    and inb: "inbox (os s) (c_sockfd (n_data n)) = (bs, a) # rest"
    and bs: "bs \<noteq> []" "length bs < STRING_MAX_LENGTH" "parse_tcp bs zero_msg = Ok (None, m)"
  shows "sock_loop (Suc k) (c_sockfd (n_data n)) (Some (n_ptr n)) s =
     andthen (process_msg (Some (n_ptr n)) m (got (c_sockfd (n_data n)) (n_data n) m s))
       (sock_loop k (c_sockfd (n_data n)) (Some (n_ptr n)))"
proof -
  let ?f = "c_sockfd (n_data n)" and ?r = "received (c_sockfd (n_data n)) s"
  have "get_client_by_fd (clients s) ?f \<noteq> None" using n get_client_by_fd_Some(1) by (force simp: fds_def)
  moreover have "server_read_sock e_tcp ?f (c_addr (n_data n)) s = (Some (length bs), bs, c_addr (n_data n), ?r)"
    using inb bs(2) by (simp add: server_read_sock_def received_def)
  moreover have "store_addr (ClientAddr (Some (n_ptr n))) (c_addr (n_data n)) ?r = Ok ?r"
    using wf n by (intro store_own_addr) simp_all
  ultimately show ?thesis
    using client_at_ok [OF wf n] tcp bs by (auto simp: sock_loop.simps read_msg_def parse_def got_def)
qed

text \<open>An idle socket ends the loop.\<close>

lemma sock_loop_idle:
  assumes "wf_server s" and "n \<in> set (clients s)"
    and "inbox (os s) (c_sockfd (n_data n)) = []"
  shows "sock_loop (Suc k) (c_sockfd (n_data n)) (Some (n_ptr n)) s = Ok s"
proof -
  have "get_client_by_fd (clients s) (c_sockfd (n_data n)) \<noteq> None"
    using assms(2) get_client_by_fd_Some(1) by (force simp: fds_def)
  then show ?thesis
    using client_at_ok [OF assms(1,2)] assms(3) store_own_addr [OF assms(1,2)]
    by (simp add: sock_loop.simps read_msg_def server_read_sock_def)
qed

lemma process_sock_loop:
  assumes "wf_server s" and "n \<in> set (clients s)"
  shows "process_msg_sock (c_sockfd (n_data n)) s =
     sock_loop (Suc (length (inbox (os s) (c_sockfd (n_data n))))) (c_sockfd (n_data n)) (Some (n_ptr n)) s"
proof -
  obtain x where x: "get_client_by_fd (clients s) (c_sockfd (n_data n)) = Some x"
    using assms(2) get_client_by_fd_Some(1) [of "clients s" "c_sockfd (n_data n)"] by (auto simp: fds_def)
  then obtain k where "k \<in> set (clients s)" "n_ptr k = x" "c_sockfd (n_data k) = c_sockfd (n_data n)"
    using get_client_by_fd_Some(2) by blast
  with assms have "x = n_ptr n" by (auto simp: wf_server_def fds_def distinct_map dest: inj_onD)
  with x show ?thesis by (simp add: process_msg_sock_def)
qed

text \<open>MSG of a client in the open state: new display name, forward, open state.\<close>

definition renamed :: "msg_t \<Rightarrow> client_t \<Rightarrow> client_t" where
  "renamed m = set_display_name (buf_slice 0 20 (data m))"

definition msg_tail :: "ptr \<Rightarrow> server \<Rightarrow> server res" where
  "msg_tail p t = andthen (upd_client p (set_state s_op) t) (\<lambda>s3.
     andthen (client_at p s3) (\<lambda>c2. if c_state c2 = s_er
       then andthen (upd_client p to_end s3) (close_client p) else Ok s3))"

lemma process_MSG:
  assumes "wf_server s" and "n \<in> set (clients s)" and "c_state (n_data n) = s_op" and "\<not> stop_flag s"
    and "msg_type m = e_msg" and ack: "acknowledge (Some (n_ptr n)) m s0 = Ok (False, s)"
  shows "process_msg (Some (n_ptr n)) m s0 = andthen (forward_msg_channel (Some (n_ptr n)) m
     (s\<lparr>clients := ql_map (n_ptr n) (renamed m) (clients s)\<rparr>)) (msg_tail (Some (n_ptr n)))"
proof -
  have out: "m\<lparr>msg_type := e_msg\<rparr> = m" using assms(5) by (cases m) simp
  have "exec_msg (Some (n_ptr n)) m s = andthen (forward_msg_channel (Some (n_ptr n)) m
      (s\<lparr>clients := ql_map (n_ptr n) (renamed m) (clients s)\<rparr>)) (\<lambda>s2.
        andthen (upd_client (Some (n_ptr n)) (set_state s_op) s2) (\<lambda>s3. Ok (m, s3)))"
    using upd_client_eq [OF assms(1,2)]
    unfolding exec_msg_def out Let_def renamed_def by (simp add: msg_display_name_off_def)
  then show ?thesis
    using client_at_ok [OF assms(1,2)] assms(3-)
    by (simp add: process_msg_def ack is_ending_def check_execute_def check_state_transition_def
        execute_msg_def andthen_assoc msg_tail_def [abs_def])
qed

lemma acknowledge_tcp:
  "wf_server s \<Longrightarrow> n \<in> set (clients s) \<Longrightarrow> c_protocol (n_data n) = e_tcp \<Longrightarrow>
     acknowledge (Some (n_ptr n)) m s = Ok (False, s)"
  by (simp add: acknowledge_def client_at_ok)

lemma msg_tail_ok:
  assumes "wf_server t" and "n \<in> set (clients t)"
  shows "msg_tail (Some (n_ptr n)) t = Ok (t\<lparr>clients := ql_map (n_ptr n) (set_state s_op) (clients t)\<rparr>)"
  using upd_client_eq [OF assms] client_at_map [OF assms]
  by (simp add: msg_tail_def) (simp add: set_state_def)


text \<open>What forwarding leaves, for a message that fits everywhere and for one that does not.\<close>

lemma forward_renamed:
  fixes m :: msg_t
  assumes wf: "wf_server s" "quiet s" and n: "n \<in> set (clients s)"
  defines "s1 \<equiv> s\<lparr>clients := ql_map (n_ptr n) (renamed m) (clients s)\<rparr>"
  shows "case deliveries m (msg_cnt s) (audience n (clients s)) of
      Ok ws \<Rightarrow> \<exists>t. forward_msg_channel (Some (n_ptr n)) m s1 = Ok t \<and> calm s1 t \<and> wire (os t) = wire (os s) @ ws
    | Fault e \<Rightarrow> forward_msg_channel (Some (n_ptr n)) m s1 = Fault e"
proof -
  have s1: "wf_server s1" "quiet s1" "client_at (Some (n_ptr n)) s1 = Ok (renamed m (n_data n))"
    using wf n wf_server_map [OF wf(1), of "renamed m"] client_at_map [OF wf(1) n]
    by (simp_all add: s1_def renamed_def quiet_def)
  have r: "recipients (renamed m (n_data n)) (clients s1) = audience n (clients s)"
    using wf(1) n by (simp add: s1_def renamed_def recipients_audience wf_server_def)
  show ?thesis
    using forward_loop_delivers [OF s1, of "[]" "clients s1" "Suc (length (clients s1))" m]
      ends_OkD [OF forward_calm(1) [OF s1, of only_overflow m]]
    by (auto simp: forward_msg_channel_def r split: res.splits) (auto simp: s1_def)
qed


lemma relay:
  fixes m :: msg_t
  assumes wf: "wf_server s" "quiet s" and n: "n \<in> set (clients s)"
    and ws: "deliveries m (msg_cnt s) (audience n (clients s)) = Ok ws"
    and inb: "inbox (os s) (c_sockfd (n_data n)) = []"
  shows "\<exists>u. andthen (forward_msg_channel (Some (n_ptr n)) m
       (s\<lparr>clients := ql_map (n_ptr n) (renamed m) (clients s)\<rparr>)) (\<lambda>s2.
       andthen (msg_tail (Some (n_ptr n)) s2) (sock_loop (Suc 0) (c_sockfd (n_data n)) (Some (n_ptr n)))) = Ok u \<and>
     wire (os u) = wire (os s) @ ws"
proof -
  let ?f = "c_sockfd (n_data n)" and ?p = "Some (n_ptr n)" and ?s1 = "s\<lparr>clients := ql_map (n_ptr n) (renamed m) (clients s)\<rparr>"
  from forward_renamed [OF wf n, of m] ws obtain u where
    u: "forward_msg_channel ?p m ?s1 = Ok u" "calm ?s1 u" "wire (os u) = wire (os s) @ ws" by auto
  let ?n1 = "n\<lparr>n_data := renamed m (n_data n)\<rparr>" and ?v = "u\<lparr>clients := ql_map (n_ptr n) (set_state s_op) (clients u)\<rparr>"
  let ?n2 = "?n1\<lparr>n_data := set_state s_op (n_data ?n1)\<rparr>"
  have n1: "?n1 \<in> set (clients u)" using ql_map_member [OF n] calmD(3) [OF u(2)] by simp
  have v: "wf_server ?v" "?n2 \<in> set (clients ?v)"
    using wf_server_map [OF calmD(1) [OF u(2)], of "set_state s_op" "n_ptr n"]
      ql_map_member [OF n1, of "n_ptr n" "set_state s_op"] by simp_all
  have "inbox (os ?v) ?f = []" "c_sockfd (n_data ?n2) = ?f" using u(2) inb by (simp_all add: calm_def renamed_def)
  with sock_loop_idle [OF v, of 0] have "sock_loop (Suc 0) ?f ?p ?v = Ok ?v" by simp
  with u(1,3) msg_tail_ok [OF calmD(1) [OF u(2)] n1] show ?thesis by simp
qed

lemma sock_loop_MSG:
  assumes wf: "wf_server s" "quiet s" and n: "n \<in> set (clients s)" and tcp: "c_protocol (n_data n) = e_tcp"
    and st: "c_state (n_data n) = s_op" and run: "\<not> stop_flag s" and g: "grammar 1 (Msg d t)"
    and inb: "inbox (os s) (c_sockfd (n_data n)) = (tcp_wire (Msg d t), a) # rest"
  defines "m \<equiv> fill (Msg d t) zero_msg" and "p \<equiv> Some (n_ptr n)"
  defines "s1 \<equiv> (got (c_sockfd (n_data n)) (n_data n) m s)\<lparr>clients := ql_map (n_ptr n) (renamed m) (clients s)\<rparr>"
  shows "process_msg_sock (c_sockfd (n_data n)) s = andthen (forward_msg_channel p m s1) (\<lambda>s2.
     andthen (msg_tail p s2) (sock_loop (Suc (length rest)) (c_sockfd (n_data n)) p))"
proof -
  let ?f = "c_sockfd (n_data n)"
  let ?g = "got ?f (n_data n) m s"
  have "tcp_wire (Msg d t) \<noteq> []" by simp
  moreover have "msg_type m = e_msg" by (simp add: m_def)
  ultimately show ?thesis
    using sock_loop_tcp [OF wf(1) n tcp inb _ tcp_wire_length [OF g] parse_tcp_wire [OF g], of "Suc (length rest)"]
      process_sock_loop [OF wf(1) n] inb process_MSG [of ?g n m] acknowledge_tcp [of ?g n m] wf n tcp st run
    by (simp add: p_def s1_def andthen_assoc m_def del: tcp_wire.simps fill.simps)
qed

text \<open>
  C9. When a TCP client in the open state sends one MSG line of the README's grammar, with the literals
  in capitals and a display name of fewer than 20 characters, exactly the other active clients of its
  channel get it: over TCP the same line, over UDP the same message under the next id (the server is
  not stopping, and no send and no allocation fails).
\<close>

theorem message_relayed:
  assumes wf: "wf_server s" "quiet s" and n: "n \<in> set (clients s)" and tcp: "c_protocol (n_data n) = e_tcp"
    and st: "c_state (n_data n) = s_op" and run: "\<not> stop_flag s"
    and g: "grammar 0 (Msg d t)" "length d < 20"
    and inb: "inbox (os s) (c_sockfd (n_data n)) = [(tcp_wire (Msg d t), a)]"
  shows "\<exists>u. process_msg_sock (c_sockfd (n_data n)) s = Ok u \<and>
     wire (os u) = wire (os s) @ relayed d t (msg_cnt s) (audience n (clients s))"
proof -
  let ?m = "fill (Msg d t) zero_msg"
  have g1: "grammar 1 (Msg d t)" using g(1) by simp
  from relay [of "got (c_sockfd (n_data n)) (n_data n) ?m s" n ?m] wf n inb deliveries_fill [OF g1 g(2)]
    sock_loop_MSG [OF wf n tcp st run g1 inb]
  show ?thesis by (simp del: fill.simps tcp_wire.simps)
qed

text \<open>
  The same over UDP: the packet is confirmed to the address it came from, which becomes the
  address of the client.
\<close>

lemma deliveries_id: "deliveries (m\<lparr>msg_id := i\<rparr>) cnt cs = deliveries m cnt cs"
  by (induction cs arbitrary: cnt) simp_all

definition heard :: "sockaddr_in \<Rightarrow> message_id_t \<Rightarrow> client_t \<Rightarrow> client_t" where
  "heard a i c = confirm_record i (c\<lparr>c_addr := a\<rparr>)"

lemma confirmed_loop_addr: "confirmed_loop (c\<lparr>c_addr := a\<rparr>) i k = confirmed_loop c i k"
proof (induction c i k rule: confirmed_loop.induct)
  case (1 c i k)
  then show ?case
    unfolding confirmed_loop.simps [of "c\<lparr>c_addr := a\<rparr>" i k] confirmed_loop.simps [of c i k] by auto
qed

lemma confirmed_addr: "is_msg_confirmed (c\<lparr>c_addr := a\<rparr>) i = is_msg_confirmed c i"
  by (simp add: is_msg_confirmed_def confirmed_loop_addr)

lemma heard_same: "c_sockfd (heard a i c) = c_sockfd c" "c_state (heard a i c) = c_state c"
  by (simp_all add: heard_def confirm_record_def)

lemma channel_heard:
  assumes "length (c_channel_id c) < 20"
  shows "c_channel_id (heard a i c) = c_channel_id c"
proof -
  let ?b = "drop 40 (buf_slice 0 60 (c_names c))"
  have l: "length ?b = 20" by simp
  have "\<exists>x \<in> set ?b. x = NUL"
  proof (rule ccontr)
    assume "\<not> ?thesis"
    then have "takeWhile (\<lambda>x. x \<noteq> NUL) (?b @ r) = ?b @ takeWhile (\<lambda>x. x \<noteq> NUL) r" for r
      by (intro takeWhile_append2) auto
    with assms l show False by (simp add: c_channel_id_def client_bytes_def cstr_def)
  qed
  then have "takeWhile (\<lambda>x. x \<noteq> NUL) (?b @ r) = takeWhile (\<lambda>x. x \<noteq> NUL) ?b" for r by auto
  then show ?thesis
    by (simp add: c_channel_id_def client_bytes_def cstr_def heard_def confirm_record_def)
qed

text \<open>The state after the packet was read, and after it was confirmed.\<close>

definition got_udp :: "client_t node \<Rightarrow> sockaddr_in \<Rightarrow> msg_t \<Rightarrow> server \<Rightarrow> server" where
  "got_udp n a m s = os_log (LogRecv a (msg_type m)) ((received (c_sockfd (n_data n)) s)
     \<lparr>clients := ql_map (n_ptr n) (\<lambda>c. c\<lparr>c_addr := a\<rparr>) (clients s)\<rparr>)"

lemma got_udp_simps:
  assumes "wf_server s"
  shows "wf_server (got_udp n a m s)" "quiet (got_udp n a m s) = quiet s"
    "clients (got_udp n a m s) = ql_map (n_ptr n) (\<lambda>c. c\<lparr>c_addr := a\<rparr>) (clients s)"
    "stop_flag (got_udp n a m s) = stop_flag s" "msg_cnt (got_udp n a m s) = msg_cnt s"
    "wire (os (got_udp n a m s)) = wire (os s)"
    "inbox (os (got_udp n a m s)) (c_sockfd (n_data n)) = tl (inbox (os s) (c_sockfd (n_data n)))"
proof -
  have "wf_server (s\<lparr>clients := ql_map (n_ptr n) (\<lambda>c. c\<lparr>c_addr := a\<rparr>) (clients s)\<rparr>)"
    using assms by (intro wf_server_map) simp_all
  then show "wf_server (got_udp n a m s)"
    by (simp add: got_udp_def os_log_def received_def wf_server_def)
qed (simp_all add: got_udp_def os_log_def received_def quiet_def)

lemma sock_loop_udp:
  assumes wf: "wf_server s" and n: "n \<in> set (clients s)" and udp: "c_protocol (n_data n) = e_udp"
    and inb: "inbox (os s) (c_sockfd (n_data n)) = (bs, a) # rest"
    and bs: "length bs < STRING_MAX_LENGTH" "parse_udp bs (length bs) zero_msg = (None, m)"
  shows "sock_loop (Suc k) (c_sockfd (n_data n)) (Some (n_ptr n)) s =
     andthen (process_msg (Some (n_ptr n)) m (got_udp n a m s)) (sock_loop k (c_sockfd (n_data n)) (Some (n_ptr n)))"
proof -
  let ?f = "c_sockfd (n_data n)" and ?r = "received (c_sockfd (n_data n)) s"
  have "get_client_by_fd (clients s) ?f \<noteq> None" using n get_client_by_fd_Some(1) by (force simp: fds_def)
  moreover have "server_read_sock e_udp ?f (c_addr (n_data n)) s = (Some (length bs), bs, a, ?r)"
    using inb bs(1) by (simp add: server_read_sock_def received_def)
  moreover have "store_addr (ClientAddr (Some (n_ptr n))) a ?r =
      Ok (?r\<lparr>clients := ql_map (n_ptr n) (\<lambda>c. c\<lparr>c_addr := a\<rparr>) (clients s)\<rparr>)"
    using upd_client_eq [of ?r n] wf n by (simp add: store_addr_def)
  ultimately show ?thesis
    using client_at_ok [OF wf n] udp bs by (auto simp: sock_loop.simps read_msg_def parse_def got_udp_def)
qed

text \<open>Confirming a packet that is no duplicate.\<close>

definition confirmed :: "client_t node \<Rightarrow> msg_t \<Rightarrow> server \<Rightarrow> server" where
  "confirmed n m s = (after_send e_udp (c_sockfd (n_data n)) (c_addr (n_data n))
     (stamp False s (confirm_msg (msg_id m))) False None (confirm_bytes (msg_id m)) s)
     \<lparr>clients := ql_map (n_ptr n) (confirm_record (msg_id m)) (clients s)\<rparr>"

lemma confirmed_simps:
  assumes "wf_server s" and "quiet s" and "n \<in> set (clients s)" and "c_protocol (n_data n) = e_udp"
  shows "wf_server (confirmed n m s)" "quiet (confirmed n m s)" "stop_flag (confirmed n m s) = stop_flag s"
    "clients (confirmed n m s) = ql_map (n_ptr n) (confirm_record (msg_id m)) (clients s)"
    "msg_cnt (confirmed n m s) = msg_cnt s + 1" "inbox (os (confirmed n m s)) = inbox (os s)"
    "wire (os (confirmed n m s)) =
       wire (os s) @ [(c_sockfd (n_data n), c_addr (n_data n), confirm_bytes (msg_id m))]"
proof -
  let ?t = "after_send e_udp (c_sockfd (n_data n)) (c_addr (n_data n)) (stamp False s (confirm_msg (msg_id m)))
    False None (confirm_bytes (msg_id m)) s"
  have "wf_server ?t" using own_fd_free [OF assms(1,3)] assms(1,4) by (intro wf_after_send) auto
  from wf_server_map [OF this, of "confirm_record (msg_id m)" "n_ptr n"]
  show "wf_server (confirmed n m s)" by (simp add: confirmed_def)
  have "quiet ?t" using assms(2) by simp
  then show "quiet (confirmed n m s)" by (simp add: confirmed_def quiet_def)
qed (simp_all add: confirmed_def)

lemma acknowledge_udp:
  assumes "wf_server s" and "quiet s" and "n \<in> set (clients s)" and "c_protocol (n_data n) = e_udp"
    and "msg_type m \<noteq> e_confirm" and "\<not> is_msg_confirmed (n_data n) (msg_id m)"
  shows "acknowledge (Some (n_ptr n)) m s = Ok (False, confirmed n m s)"
proof -
  let ?t = "after_send e_udp (c_sockfd (n_data n)) (c_addr (n_data n)) (stamp False s (confirm_msg (msg_id m)))
    False None (confirm_bytes (msg_id m)) s"
  have "wf_server ?t" using own_fd_free [OF assms(1,3)] assms(1,4) by (intro wf_after_send) auto
  from upd_client_eq [OF this, of n] client_at_ok [OF assms(1,3)] assms(2-) show ?thesis
    by (simp add: acknowledge_def send_confirm confirmed_def)
qed

lemma udp_acknowledged:
  assumes wf: "wf_server s" "quiet s" and n: "n \<in> set (clients s)" "c_protocol (n_data n) = e_udp"
    and m: "msg_type m \<noteq> e_confirm" "\<not> is_msg_confirmed (n_data n) (msg_id m)"
  shows "\<exists>t. acknowledge (Some (n_ptr n)) m (got_udp n a m s) = Ok (False, t) \<and> wf_server t \<and> quiet t \<and>
     stop_flag t = stop_flag s \<and> msg_cnt t = msg_cnt s + 1 \<and>
     clients t = ql_map (n_ptr n) (heard a (msg_id m)) (clients s) \<and>
     inbox (os t) (c_sockfd (n_data n)) = tl (inbox (os s) (c_sockfd (n_data n))) \<and>
     wire (os t) = wire (os s) @ [(c_sockfd (n_data n), a, confirm_bytes (msg_id m))]"
proof -
  let ?a = "n\<lparr>n_data := (n_data n)\<lparr>c_addr := a\<rparr>\<rparr>" and ?s1 = "got_udp n a m s"
  have s1: "wf_server ?s1" "quiet ?s1" "?a \<in> set (clients ?s1)" "c_protocol (n_data ?a) = e_udp"
    using got_udp_simps [OF wf(1)] wf(2) ql_map_member [OF n(1), of "n_ptr n" "\<lambda>c. c\<lparr>c_addr := a\<rparr>"] n(2)
    by simp_all
  have "acknowledge (Some (n_ptr n)) m ?s1 = Ok (False, confirmed ?a m ?s1)"
    using acknowledge_udp [OF s1 m(1)] m(2) by (simp add: confirmed_addr)
  with confirmed_simps [OF s1, of m] got_udp_simps [OF wf(1), of n a m] show ?thesis
    by (simp add: ql_map_map heard_def [abs_def])
qed

lemma audience_map:
  assumes "distinct (ptrs q)" and "c_channel_id c = c_channel_id (n_data n)"
  shows "audience (n\<lparr>n_data := c\<rparr>) (ql_map (n_ptr n) f q) = audience n q"
  unfolding audience_def ql_map_def using assms(2) by (induction q) auto

text \<open>
  C10. When a UDP client in the open state sends one MSG packet of the grammar, with a display name of
  fewer than 20 characters, and its id as the server decodes it is no duplicate, then a confirmation
  with the id as decoded (the same id only below 128) goes to its address, and exactly the other active
  clients of the channel get the message (the name of the channel is shorter than its array, the server
  is not stopping, and no send and no allocation fails).
\<close>

theorem udp_message_relayed:
  assumes wf: "wf_server s" "quiet s" and n: "n \<in> set (clients s)" and udp: "c_protocol (n_data n) = e_udp"
    and st: "c_state (n_data n) = s_op" and run: "\<not> stop_flag s"
    and g: "grammar 0 (Msg d t)" "length d < 20" and ch: "length (c_channel_id (n_data n)) < 20"
    and new: "\<not> is_msg_confirmed (n_data n) (dec_id i)"
    and inb: "inbox (os s) (c_sockfd (n_data n)) = [(udp_wire i 0 (Msg d t), a)]"
  shows "\<exists>u. process_msg_sock (c_sockfd (n_data n)) s = Ok u \<and> wire (os u) = wire (os s) @
     (c_sockfd (n_data n), a, confirm_bytes (dec_id i)) # relayed d t (msg_cnt s + 1) (audience n (clients s))"
proof -
  let ?f = "c_sockfd (n_data n)" and ?p = "Some (n_ptr n)"
  define m where "m = udp_fill (dec_id i) (dec_id 0) (Msg d t) zero_msg"
  have m: "m = (fill (Msg d t) zero_msg)\<lparr>msg_id := dec_id i\<rparr>" "msg_type m = e_msg" "msg_id m = dec_id i"
    by (simp_all add: m_def put_str_def)
  have g1: "grammar 1 (Msg d t)" using g(1) by simp
  let ?b = "n\<lparr>n_data := heard a (dec_id i) (n_data n)\<rparr>"
  obtain s2 where s2: "acknowledge ?p m (got_udp n a m s) = Ok (False, s2)" "wf_server s2" "quiet s2"
    "\<not> stop_flag s2" "msg_cnt s2 = msg_cnt s + 1" "inbox (os s2) ?f = []"
    "clients s2 = ql_map (n_ptr n) (heard a (dec_id i)) (clients s)"
    "wire (os s2) = wire (os s) @ [(?f, a, confirm_bytes (dec_id i))]"
    using udp_acknowledged [OF wf n udp, of m a] m(2,3) new run inb by auto
  have b: "?b \<in> set (clients s2)" "c_sockfd (n_data ?b) = ?f" "c_state (n_data ?b) = s_op"
    using ql_map_member [OF n, of "n_ptr n" "heard a (dec_id i)"] st by (simp_all add: s2(7) heard_same)
  have "audience ?b (clients s2) = audience n (clients s)"
    unfolding s2(7) using wf(1) channel_heard [OF ch] by (intro audience_map) (simp_all add: wf_server_def)
  then have "deliveries m (msg_cnt s2) (audience ?b (clients s2)) =
      Ok (relayed d t (msg_cnt s + 1) (audience n (clients s)))"
    using deliveries_fill [OF g1 g(2)] unfolding m(1) deliveries_id by (simp add: s2(5))
  from relay [OF s2(2,3) b(1) this] b(2) s2(6) obtain u where
    u: "andthen (forward_msg_channel ?p m (s2\<lparr>clients := ql_map (n_ptr n) (renamed m) (clients s2)\<rparr>))
        (\<lambda>s2. andthen (msg_tail ?p s2) (sock_loop (Suc 0) ?f ?p)) = Ok u"
      "wire (os u) = wire (os s2) @ relayed d t (msg_cnt s + 1) (audience n (clients s))" by auto
  have "length (udp_wire i 0 (Msg d t)) < STRING_MAX_LENGTH" using g1 by (simp add: STRING_MAX_LENGTH_def)
  then have "process_msg_sock ?f s = Ok u"
    using process_sock_loop [OF wf(1) n] inb u(1) parse_udp_wire [OF g1, of i 0 zero_msg]
      sock_loop_udp [OF wf(1) n udp inb, of m "Suc 0"] process_MSG [OF s2(2) b(1,3) s2(4) m(2)] s2(1)
    by (simp add: andthen_assoc m_def [symmetric] del: udp_fill.simps udp_wire.simps)
  with u(2) s2(8) show ?thesis by simp
qed

lemma full_name_overflow:
  assumes "NUL \<notin> set d" and "length d = 20" and "NUL \<notin> set t" and "1012 \<le> length t" and "cs \<noteq> []"
  shows "deliveries (fill (Msg d t) zero_msg) cnt cs = Fault BufOverflow"
proof -
  obtain c cs' where cs: "cs = c # cs'" using assms(5) by (cases cs) auto
  let ?m = "fill (Msg d t) zero_msg\<lparr>msg_id := ucast cnt\<rparr>"
  have "data_str msg_display_name_off ?m = d @ t" "data_str msg_content_off ?m = t" "msg_type ?m = e_msg"
    using full_name_fields [OF assms(1-3)] by (simp_all add: data_str_def)
  then have "compose (c_protocol c) ?m = Fault BufOverflow"
    using assms(2,4)
    by (simp add: compose_def compose_tcp_def compose_udp_def Let_def sprintf_buf_def STRING_MAX_LENGTH_def
        del: fill.simps)
  then show ?thesis by (simp add: cs del: fill.simps)
qed

text \<open>
  C35. A MSG that the README's grammar allows, with a display name of 20 characters and a content
  of 1012 or more, overflows the send buffer as soon as there is another member of the channel.
\<close>

theorem conforming_message_overflows:
  assumes wf: "wf_server s" "quiet s" and n: "n \<in> set (clients s)" and tcp: "c_protocol (n_data n) = e_tcp"
    and st: "c_state (n_data n) = s_op" and run: "\<not> stop_flag s"
    and g: "grammar 0 (Msg d t)" "length d = 20" "1012 \<le> length t"
    and inb: "inbox (os s) (c_sockfd (n_data n)) = (tcp_wire (Msg d t), a) # rest"
    and mem: "audience n (clients s) \<noteq> []"
  shows "process_msg_sock (c_sockfd (n_data n)) s = Fault BufOverflow"
proof -
  let ?m = "fill (Msg d t) zero_msg"
  have g1: "grammar 1 (Msg d t)" using g(1) by simp
  have "NUL \<notin> set d" "NUL \<notin> set t" using g(1) by (auto dest: list_all_not_NUL)
  with full_name_overflow [OF _ g(2) _ g(3) mem, of "msg_cnt s"]
    forward_renamed [of "got (c_sockfd (n_data n)) (n_data n) ?m s" n ?m] wf n
    sock_loop_MSG [OF wf n tcp st run g1 inb]
  show ?thesis by (simp del: fill.simps tcp_wire.simps)
qed

definition demo_sends :: "string \<Rightarrow> string \<Rightarrow> server" where
  "demo_sends d t = demo_server\<lparr>os := calm_os\<lparr>inbox :=
     (\<lambda>f. if f = 5 then [(tcp_wire (Msg d t), demo_addr 5)] else [])\<rparr>\<rparr>"

lemma demo_sends_simps [simp]:
  "wf_server (demo_sends d t)" "quiet (demo_sends d t)" "clients (demo_sends d t) = [ann, bob, cid, dan]"
  "\<not> stop_flag (demo_sends d t)" "msg_cnt (demo_sends d t) = 10" "wire (os (demo_sends d t)) = []"
  "inbox (os (demo_sends d t)) 5 = [(tcp_wire (Msg d t), demo_addr 5)]"
  using demo_wf by (simp_all add: demo_sends_def wf_server_def quiet_def calm_os_def ann_def del: tcp_wire.simps)

lemma ann_bob_simps [simp]: "c_sockfd (n_data ann) = 5" "c_protocol (n_data ann) = e_tcp" "c_state (n_data ann) = s_op"
  "c_sockfd (n_data bob) = 6" "c_protocol (n_data bob) = e_tcp" "c_addr (n_data bob) = demo_addr 6"
  by (simp_all add: ann_def bob_def)

lemma demo_audience: "audience ann [ann, bob, cid, dan] = [n_data bob]"
  by code_simp

theorem message_relayed_witness:
  "\<exists>u. process_msg_sock 5 (demo_sends ''ann'' ''hello'') = Ok u \<and>
     wire (os u) = [(6, demo_addr 6, tcp_wire (Msg ''ann'' ''hello''))]"
  using message_relayed [of "demo_sends ''ann'' ''hello''" ann "''ann''" "''hello''" "demo_addr 5"]
  by (simp add: demo_audience is_graph.simps is_print.simps del: tcp_wire.simps)

theorem conforming_message_overflows_witness:
  "process_msg_sock 5 (demo_sends (replicate 20 (CHR ''a'')) (replicate 1400 (CHR ''x''))) = Fault BufOverflow"
  using conforming_message_overflows [of "demo_sends (replicate 20 (CHR ''a'')) (replicate 1400 (CHR ''x''))" ann
      "replicate 20 (CHR ''a'')" "replicate 1400 (CHR ''x'')" "demo_addr 5" "[]"]
  by (simp add: demo_audience is_graph.simps is_print.simps list_all_iff del: tcp_wire.simps)

definition demo_udp :: server where
  "demo_udp = demo_server\<lparr>clients := [ann, bob\<lparr>n_data := demo_client 6 e_tcp ''bob'' ''music''\<rparr>, cid, dan],
     os := calm_os\<lparr>inbox := (\<lambda>f. if f = 7 then [(udp_wire 3 0 (Msg ''cid'' ''hello''), demo_addr 9)] else [])\<rparr>\<rparr>"

theorem udp_message_relayed_witness:
  "\<exists>u. process_msg_sock 7 demo_udp = Ok u \<and> wire (os u) = [(7, demo_addr 9, confirm_bytes (dec_id 3)),
     (6, demo_addr 6, tcp_wire (Msg ''cid'' ''hello''))]"
proof -
  have s: "wf_server demo_udp" "quiet demo_udp" "\<not> stop_flag demo_udp" "wire (os demo_udp) = []"
    "msg_cnt demo_udp = 10" "inbox (os demo_udp) 7 = [(udp_wire 3 0 (Msg ''cid'' ''hello''), demo_addr 9)]"
    using demo_wf by (simp_all add: demo_udp_def wf_server_def quiet_def calm_os_def demo_nodes new_client_def
        del: udp_wire.simps)
  have c: "cid \<in> set (clients demo_udp)" "c_sockfd (n_data cid) = 7" "c_protocol (n_data cid) = e_udp"
    "c_state (n_data cid) = s_op" by (simp_all add: demo_udp_def cid_def)
  have e: "length (c_channel_id (n_data cid)) < 20" "\<not> is_msg_confirmed (n_data cid) (dec_id 3)"
    "audience cid (clients demo_udp) = [demo_client 6 e_tcp ''bob'' ''music'']" by code_simp+
  from udp_message_relayed [OF s(1,2) c(1,3,4) s(3) _ _ e(1,2), of "''cid''" "''hello''" "demo_addr 9"] s(4-6) c(2) e(3)
  show ?thesis by (simp add: is_graph.simps is_print.simps del: udp_wire.simps tcp_wire.simps)
qed

end
