(* ===== verification/Tcp_Run.thy ===== *)
theory Tcp_Run
  imports Shutdown Journey
begin

text \<open>
  Whole runs of a server that only TCP clients use: no fault of any kind, and the exit after an
  interrupt.
\<close>

section \<open>Runs without UDP\<close>

text \<open>
  No datagram waits on the UDP welcome socket, and every packet is well named; packets may be
  garbage, and connections may end at any point.
\<close>

definition tcp_input :: "server \<Rightarrow> bool" where
  "tcp_input s \<longleftrightarrow> inbox (os s) (get_udp_socket s) = [] \<and>
     (\<forall>f. \<forall>x \<in> set (inbox (os s) f). well_named e_tcp (fst x))"

inductive tcp_run :: "string list \<Rightarrow> server \<Rightarrow> bool" for args where
  start: "main_init args sys = Ok s \<Longrightarrow> tcp_run args s"
| env: "tcp_run args s \<Longrightarrow> exited s = None \<Longrightarrow> env_change (os s) sys \<Longrightarrow> tcp_run args (s\<lparr>os := sys\<rparr>)"
| round: "tcp_run args s \<Longrightarrow> exited s = None \<Longrightarrow> benign s \<Longrightarrow> tcp_input s \<Longrightarrow>
    main_iter ev s = Ok s' \<Longrightarrow> tcp_run args s'"

lemma tcp_run_benign: "tcp_run args s \<Longrightarrow> benign_run args s"
  by (induction rule: tcp_run.induct) (auto intro: benign_run.intros)

lemma tcp_input_ok: "tcp_input s \<Longrightarrow> tcp_only s \<Longrightarrow> input_ok {} False s"
  by (auto simp: tcp_input_def input_ok_def protocols_def intro: well_named_ok)

lemma tcp_run_only: "tcp_run args s \<Longrightarrow> exited s = None \<Longrightarrow> tcp_only s"
proof (induction rule: tcp_run.induct)
  case (start sys s)
  then show ?case using main_init_state by (simp add: tcp_only_def)
next
  case (env s sys)
  then show ?case by (simp add: tcp_only_def)
next
  case (round s ev s')
  then have "input_ok {} False s'"
    using ends_OkD [OF input.main_iter_I [OF tcp_input_ok]] by blast
  then show ?case by (simp add: input_ok_def)
qed

lemma tcp_round:
  assumes "tcp_run args s" and "exited s = None" and "benign s" and "tcp_input s"
  shows "ends {} (main_iter ev s) (\<lambda>t. sound t \<and> input_ok {} False t)"
proof -
  have i: "input_ok {} False s" by (rule tcp_input_ok [OF assms(4) tcp_run_only [OF assms(1,2)]])
  have "wf_server s" using benign_run_sound [OF tcp_run_benign [OF assms(1)]] assms(2) by (simp add: sound_def)
  then have "ends {} (main_iter ev s) sound"
    using assms(3) i by (intro main_iter_safe) (auto simp: benign_def)
  then show ?thesis by (rule ends_conj_UNIV [OF _ input.main_iter_I [OF i]])
qed

text \<open>
  C1. A server that is used by TCP clients only never faults as long as its rounds are benign (no send
  and no allocation fails, the kernel hands out fresh descriptors, fewer than 65535 clients have
  connected), no datagram waits on the UDP welcome socket and the packets are well named (shorter than
  the buffer, and the display name of a MSG shorter than its array): in every state of such a run,
  whatever the next event is and whatever such packets the clients sent, garbage included, the round
  returns; afterwards the program has exited, or the invariant holds and nothing waits for a
  retransmission.
\<close>

theorem tcp_run_total:
  assumes "tcp_run args s" and "exited s = None" and "benign s" and "tcp_input s"
  shows "\<exists>t. main_iter ev s = Ok t \<and> tcp_run args t \<and>
     (exited t \<noteq> None \<or> wf_server t \<and> tcp_only t \<and> msg_out_buf t = [])"
proof -
  obtain t where t: "main_iter ev s = Ok t" "sound t" "input_ok {} False t"
    using tcp_round [OF assms, of ev] by (cases "main_iter ev s") auto
  moreover have "tcp_run args t" by (rule tcp_run.round [OF assms t(1)])
  ultimately show ?thesis by (auto simp: sound_def input_ok_def tcp_only_def)
qed

section \<open>Interrupting the run\<close>

interpretation timer_bound: state_inv "\<lambda>s. stop_timeout s \<le> STOP_TIMEOUT"
  by unfold_locales simp_all

lemma main_iter_timer: 
  assumes "stop_timeout s \<le> STOP_TIMEOUT"
  shows "ends UNIV (main_iter ev s) (\<lambda>t. stop_timeout t \<le> STOP_TIMEOUT)"
proof -
  have stop: "stop_timeout u \<le> STOP_TIMEOUT" if "stop 0 t = Ok u" "stop_timeout t \<le> STOP_TIMEOUT" for t u
  proof -
    have "ends UNIV (close_fds js (server_close (t\<lparr>clients := [], msg_out_buf := []\<rparr>)))
        (\<lambda>u. stop_timeout u \<le> STOP_TIMEOUT)" for js
      using that(2) by (intro timer_bound.close_fds_I) (simp add: server_close_def os_close_def)
    with that(1) show ?thesis by (auto simp: stop_def Let_def andthen_Ok_iff ends_UNIV)
  qed
  have idle: "ends UNIV (poll_idle 75 t) (\<lambda>t. stop_timeout t \<le> STOP_TIMEOUT)"
    if "stop_timeout t \<le> STOP_TIMEOUT" for t
    using that stop by (auto simp: poll_idle_def intro!: timer_bound.udp_timeout_I) (auto simp: ends_UNIV)
  show ?thesis
    using assms by (cases ev) (auto simp: main_iter_def Let_def poll_timeout_75 sigint_handler_def
        intro!: timer_bound.poll_ready_I idle ends_wp [OF timer_bound.sigint_loop_I])
qed

lemma benign_run_timer: "benign_run args s \<Longrightarrow> exited s = None \<Longrightarrow> stop_timeout s \<le> STOP_TIMEOUT"
proof (induction rule: benign_run.induct)
  case (start sys s)
  then show ?case using main_init_state by simp
next
  case (round s ev s')
  then show ?case using ends_OkD [OF main_iter_timer] by blast
qed simp

text \<open>
  C7. When a server that is used by TCP clients only, after a run of benign rounds with well-named
  packets, is interrupted for the first time while no send and no allocation fails, it ends: within
  eight further idle rounds the program exits with code 0, and the welcome sockets are closed.
\<close>

theorem tcp_server_exits:
  assumes "tcp_run args s" and "exited s = None" and "quiet s" and "\<not> stop_flag s"
  shows "\<exists>j t. j \<le> 8 \<and> andthen (main_iter Interrupted s) (idle_rounds j) = Ok t \<and> exited t = Some 0 \<and>
     {get_tcp_socket s, get_udp_socket s} \<subseteq> set (closed (os t))"
proof (rule interrupt_exits)
  show "wf_server s" using benign_run_sound [OF tcp_run_benign [OF assms(1)]] assms(2) by (simp add: sound_def)
  show "\<forall>n \<in> set (clients s). c_protocol (n_data n) = e_tcp" "msg_out_buf s = []"
    using tcp_run_only [OF assms(1,2)] by (simp_all add: tcp_only_def)
qed (use benign_run_timer tcp_run_benign assms in auto)

section \<open>A run\<close>

text \<open>A start in which \<open>socket\<close> returns 3 and 4, and a client that connects and sends garbage.\<close>

definition tcp_os :: os_t where
  "tcp_os = calm_os\<lparr>new_socks := [3, 4], new_conns := [(5, demo_addr 5)],
     inbox := (\<lambda>f. if f = 5 then [(''garbage'', demo_addr 5)] else [])\<rparr>"

lemma tcp_started:
  obtains s where "main_init [] tcp_os = Ok s" "exited s = None" "benign s" "tcp_input s" "\<not> stop_flag s"
proof -
  have "ends {} (main_init [] tcp_os) (\<lambda>s. exited s = None \<and> benign s \<and> tcp_input s \<and> \<not> stop_flag s)"
    using demo_packets(2)
    by (simp add: main_init_def parse_argv_def default_argv_def init_server_def tcp_os_def calm_os_def
        os_alloc_def pop_def make_queue_def server_open_def os_socket_def os_call_def Let_def
        benign_def quiet_def fresh_fds_def fresh_fd_def tcp_input_def get_udp_socket_def)
  then show ?thesis using that by (cases "main_init [] tcp_os") auto
qed

theorem tcp_run_total_witness:
  "\<exists>s t. main_init [] tcp_os = Ok s \<and> main_iter (Ready [True]) s = Ok t \<and> tcp_run [] t"
proof -
  obtain s where s: "main_init [] tcp_os = Ok s" "exited s = None" "benign s" "tcp_input s"
    by (rule tcp_started)
  with tcp_run_total [OF tcp_run.start [OF s(1)] s(2-4), of "Ready [True]"] show ?thesis by blast
qed

theorem tcp_server_exits_witness:
  "\<exists>s j t. main_init [] tcp_os = Ok s \<and> j \<le> 8 \<and>
     andthen (main_iter Interrupted s) (idle_rounds j) = Ok t \<and> exited t = Some 0"
proof -
  obtain s where s: "main_init [] tcp_os = Ok s" "exited s = None" "benign s" "\<not> stop_flag s" by (rule tcp_started)
  with tcp_server_exits [OF tcp_run.start [OF s(1)] s(2)] show ?thesis by (auto simp: benign_def)
qed

end
