(* ===== verification/Owned.thy ===== *)
theory Owned
  imports Last_Rounds Tcp_Run
begin

text \<open>
  Unconfirmed messages and their clients.  As long as fewer than 65536 messages were sent, the
  messages that wait have different ids, and each of them waits for a client of the queue.
\<close>

section \<open>The invariant\<close>

definition accounts :: "server \<Rightarrow> bool" where
  "accounts s \<longleftrightarrow> unat (msg_cnt s) \<le> length (wire (os s)) \<and> distinct (ids (msg_out_buf s)) \<and>
     (\<forall>i \<in> set (ids (msg_out_buf s)). unat i < unat (msg_cnt s)) \<and>
     (\<forall>n \<in> set (msg_out_buf s). pending (clients s) n)"

definition ledger :: "server \<Rightarrow> bool" where
  "ledger s \<longleftrightarrow> length (wire (os s)) < 65536 \<longrightarrow> accounts s"

definition owned :: "server \<Rightarrow> bool" where
  "owned s \<longleftrightarrow> wf_server s \<and> quiet s \<and> ledger s"

lemma ledger_step:
  assumes "ledger s" and "length (wire (os s)) \<le> length (wire (os t))" and "accounts s \<Longrightarrow> length (wire (os s)) < 65536 \<Longrightarrow> accounts t"
  shows "ledger t"
  using assms by (simp add: ledger_def)

lemma ledger_same:
  assumes "ledger s" and "wire (os t) = wire (os s)" and "msg_cnt t = msg_cnt s" and "msg_out_buf t = msg_out_buf s"
    and "fds (clients t) = fds (clients s)"
  shows "ledger t"
  using assms by (simp add: ledger_def accounts_def pending_def)

lemma ownedD: "owned s \<Longrightarrow> wf_server s" "owned s \<Longrightarrow> quiet s" "owned s \<Longrightarrow> ledger s"
  by (simp_all add: owned_def)

section \<open>Sending\<close>

lemma accounts_send:
  assumes a: "accounts s" "length (wire (os s)) < 65536" and c: "c_sockfd c \<in> set (fds (clients s))"
    and x: "compose (c_protocol c) m = Ok (rc, b, k)"
  shows "accounts (after_send (c_protocol c) (c_sockfd c) ad m False rc bs s)"
proof -
  have l: "unat (msg_cnt s) \<le> length (wire (os s))" "unat (msg_cnt s) < 65536" using a by (simp_all add: accounts_def)
  then have n: "unat (msg_cnt s + 1) = Suc (unat (msg_cnt s))" by (simp add: unat_word_ariths)
  have i: "unat (ucast (msg_cnt s) :: id_t) = unat (msg_cnt s)"
    using l(2) by (simp add: unsigned_ucast_eq take_bit_nat_eq_self_iff)
  have "ucast (msg_cnt s) \<notin> set (ids (msg_out_buf s))" using a(1) i by (auto simp: accounts_def)
  moreover have "pending (clients s) (kept_node (c_sockfd c) ad m s)" if "is_kept (c_protocol c) m False"
    using that x c by (auto simp: pending_def kept_node_def is_kept_def is_ok_iff)
  ultimately show ?thesis using a(1) l n i
    by (auto simp: accounts_def kept_node_def less_SucI)
qed

lemma send_owned:
  assumes s: "owned s" and c: "client_at p s = Ok c"
  shows "ends UNIV (send_msg (c_protocol c) (c_sockfd c) (c_addr c) m False s) owned"
proof -
  obtain n where n: "n \<in> set (clients s)" "c = n_data n" using client_at_node [OF c] by blast
  have f: "c_sockfd c \<in> set (fds (clients s))" using n by (simp add: fds_def)
  have w: "wf_server (after_send (c_protocol c) (c_sockfd c) (c_addr c) x False rc bs s)" for x rc bs
    using own_fd_free [OF ownedD(1) [OF s] n(1)] n(2) by (intro wf_after_send ownedD(1) [OF s]) simp
  have "ledger (after_send (c_protocol c) (c_sockfd c) (c_addr c) x False rc bs s)"
    if "compose (c_protocol c) x = Ok (rc, b, k)" for x rc b k bs
    using ledger_step [OF ownedD(3) [OF s]] accounts_send [OF _ _ f that] by simp
  with w quiet_after_send [OF ownedD(2) [OF s]] show ?thesis
    by (auto simp: send_msg_quiet [OF ownedD(2) [OF s]] ends_UNIV andthen_Ok_iff owned_def)
qed

section \<open>Clients\<close>

lemma update_owned:
  assumes s: "owned s" and f: "keeps_socket f"
  shows "ends UNIV (upd_client p f s) owned"
proof -
  have "owned t" if t: "upd_client p f s = Ok t" for t
  proof -
    obtain a where a: "p = Some a" "t = s\<lparr>clients := ql_map a f (clients s)\<rparr>"
      using t by (auto simp: upd_client_def ql_upd_def andthen_Ok_iff ql_at_Ok_iff dest: ql_find_SomeD)
    have "map identity (ql_map a f (clients s)) = map identity (clients s)"
      using f by (auto simp: ql_map_def identity_def keeps_socket_def)
    then have "wf_server t" using wf_server_clients [OF ownedD(1) [OF s]] a(2) by simp
    moreover have "fds (clients t) = fds (clients s)"
      using f a(2) by (simp add: fds_def ql_map_def keeps_socket_def)
    ultimately show ?thesis using s a(2) by (auto simp: owned_def quiet_def elim: ledger_same)
  qed
  then show ?thesis by (simp add: ends_UNIV)
qed

lemma delete_owned:
  assumes s: "owned s"
  shows "ends UNIV (delete_client p s) owned"
proof -
  have "owned t" if t: "delete_client p s = Ok t" for t
  proof -
    obtain c where "client_at p s = Ok c" using t by (auto simp: delete_client_def andthen_Ok_iff)
    then obtain n where n: "n \<in> set (clients s)" "p = Some (n_ptr n)" using client_at_node by blast
    have d: "wf_server t" "quiet t" "wire (os t) = wire (os s)" "clients t = filter (\<lambda>m. n_ptr m \<noteq> n_ptr n) (clients s)"
      using delete_client_ok [OF ownedD(1) [OF s] n(1)] t n(2) ownedD(2) [OF s] by (auto simp: shrinks_def)
    have "accounts t" if "accounts s"
      using that delete_client_msgs [OF ownedD(1) [OF s] n(1)] t n(2) d(3,4) fds_without [OF ownedD(1) [OF s] n(1)]
      by (auto simp: accounts_def ids_def distinct_map_filter pending_def)
    with d ledger_step [OF ownedD(3) [OF s], of t] show ?thesis by (simp add: owned_def)
  qed
  then show ?thesis by (simp add: ends_UNIV)
qed

lemma close_owned:
  assumes s: "owned s"
  shows "ends UNIV (close_client p s) owned"
proof -
  have "ends UNIV (upd_client p to_end s) (\<lambda>t. ends UNIV (send_msg (c_protocol c) (c_sockfd c) (c_addr c) bye_msg False t) owned)"
    if c: "client_at p s = Ok c" for c
  proof (rule ends_mono [OF update_owned [OF s]])
    fix t assume "upd_client p to_end s = Ok t" "owned t"
    from send_owned [OF this(2) upd_client_at [OF this(1) c], of bye_msg]
    show "ends UNIV (send_msg (c_protocol c) (c_sockfd c) (c_addr c) bye_msg False t) owned" by (simp add: to_end_def)
  qed (simp_all add: keeps_socket_def)
  then show ?thesis
    using s by (subst close_client.simps) (auto intro!: reads_wp delete_owned elim!: ends_wp)
qed

lemma confirm_owned:
  assumes s: "owned s"
  shows "ends UNIV (exec_confirm p m s) owned"
proof (cases "ql_get (confirm_ref_id (data m)) (msg_out_buf s)")
  case None
  with s show ?thesis by (simp add: exec_confirm_def)
next
  case (Some a)
  let ?b = "snd (ql_remove (confirm_ref_id (data m)) (msg_out_buf s))" and ?t = "s\<lparr>msg_out_buf := snd (ql_remove (confirm_ref_id (data m)) (msg_out_buf s))\<rparr>"
  have d: "distinct (ptrs (msg_out_buf s))" using ownedD(1) [OF s] by (simp add: wf_server_def)
  have "level s ?t"
    using remove_msg_level [OF level_refl [OF ownedD(1,2)] set_ql_remove distinct_ql_remove [OF d]] s by blast
  moreover have "accounts ?t" if "accounts s"
    using that set_ql_remove [of "confirm_ref_id (data m)" "msg_out_buf s"]
    by (auto simp: accounts_def ql_remove_filter ids_def distinct_map_filter)
  ultimately have t: "owned ?t" using ledger_step [OF ownedD(3) [OF s], of ?t] by (auto simp: owned_def dest: levelD)
  from ql_get_SomeD [OF Some] obtain k where "k \<in> set (msg_out_buf s)" "n_ptr k = a" by auto
  with exec_confirm_eq [OF d _ this(1), of m p] Some close_owned [OF t] t show ?thesis by simp
qed

interpretation owned: client_inv owned
  by unfold_locales (blast intro: send_owned close_owned delete_owned update_owned confirm_owned)+

lemma owned_same:
  assumes "owned s" and "wf_server t" and "quiet t" and "wire (os t) = wire (os s)" and "msg_cnt t = msg_cnt s"
    and "msg_out_buf t = msg_out_buf s" and "fds (clients t) = fds (clients s)"
  shows "owned t"
  using assms ledger_same [OF ownedD(3) [OF assms(1)]] by (simp add: owned_def)

interpretation owned: socket_inv owned
proof unfold_locales
  fix s assume s: "owned s"
  note [simp] = ownedD [OF s]
  show "ends UNIV (process_msg cl m s) owned" for cl m by (rule owned.process_msg_I [OF s])
  show "ends UNIV (upd_client p (\<lambda>c. c\<lparr>c_addr := x\<rparr>) s) owned" for p x
    by (rule update_owned [OF s]) (simp add: keeps_socket_def)
  show "owned (snd (snd (snd (server_read_sock pr f a s))))" for pr f a
    using read_sock_received [of pr f a s] by (auto intro!: owned_same [OF s]) (simp_all add: received_def)
  show "owned (set_errno e s)" "owned (os_close f s)" "owned (os_log l s)" for e f l
    using ownedD(1,2) [OF s] by (auto simp: set_errno_def os_close_def os_log_def wf_server_def quiet_def intro!: owned_same [OF s])
  show "owned (s\<lparr>poll := pl\<rparr>)" if "del_poll_fd f (poll s) = Ok (b, pl)" for f b pl
    using that del_poll_fd_ok [of "poll s" f] ownedD(1,2) [OF s]
    by (auto simp: wf_server_def quiet_def intro!: owned_same [OF s])
qed

section \<open>Timeouts\<close>

lemma later_wire: "later s t \<Longrightarrow> length (wire (os s)) \<le> length (wire (os t))"
  by (auto simp: later_def os_grows_def)

lemma later_refl: "later s s"
  by (auto simp: later_def os_grows_def)

lemma owned_spent: "65536 \<le> length (wire (os s)) \<Longrightarrow> later s t \<Longrightarrow> wf_server t \<Longrightarrow> quiet t \<Longrightarrow> owned t"
  using later_wire [of s t] by (simp add: owned_def ledger_def)

lemma ids_turn [simp]: "ids (map (turn a) q) = ids q"
  by (simp add: ids_def)

text \<open>With the invariant no entry is written behind the end of the array of clients to be deleted.\<close>

lemma timeout_owned:
  assumes s: "owned s"
  shows "ends UNIV (do_udp_timeout 75 s) owned"
    and "length (wire (os s)) < 65536 \<Longrightarrow> ends F (do_udp_timeout 75 s) (shrinks s)"
proof -
  let ?loop = "timeout_loop (Suc (length (msg_out_buf s))) 75 (length (clients s)) (ql_first (msg_out_buf s)) [] s"
  have few: "ends UNIV (do_udp_timeout 75 s) owned \<and> ends F (do_udp_timeout 75 s) (shrinks s)"
    if l: "length (wire (os s)) < 65536"
  proof -
    have a: "accounts s" using s l by (simp add: owned_def ledger_def)
    obtain d t where t: "?loop = Ok (d, t)" "calm s t" "msg_out_buf t = map (turn (argv s)) (msg_out_buf s)" "msg_cnt t = msg_cnt s"
      by (rule timeout_all_turn [OF ownedD(1,2) [OF s]]) (use a in \<open>auto simp: accounts_def\<close>)
    have "later s t" using ends_OkD [OF history.timeout_loop_I [OF later_refl] t(1)] by simp
    with a t(2-4) have "accounts t" by (auto simp: accounts_def calm_def dest: later_wire)
    with t(2) have "owned t" by (simp add: owned_def calm_def ledger_def)
    then have "ends UNIV (destroy_loop d t) owned" by (rule owned.destroy_loop_I)
    moreover have "dstr_ok [] (clients s)" by (simp add: dstr_ok_def)
    from timeout_loop_safe [OF ownedD(1,2) [OF s] this, of "[]" "msg_out_buf s" "Suc (length (msg_out_buf s))" 75 "length (clients s)"]
    have "dstr_ok d (clients t)" by (simp add: t(1))
    with level_shrinks [OF calm_level [OF t(2)]] have "ends F (destroy_loop d t) (shrinks s)" by (rule destroy_loop_safe)
    ultimately show ?thesis using t(1) by (simp add: do_udp_timeout_def)
  qed
  then show "length (wire (os s)) < 65536 \<Longrightarrow> ends F (do_udp_timeout 75 s) (shrinks s)" by blast
  show "ends UNIV (do_udp_timeout 75 s) owned"
  proof (cases "length (wire (os s)) < 65536")
    case False
    then have spent: "65536 \<le> length (wire (os s))" by simp
    have "ends UNIV (do_udp_timeout 75 s) (\<lambda>t. shrinks s t \<and> later s t)"
      using ends_conj_UNIV [OF ends_weaken [OF udp_timeout_safe [OF ownedD(1,2) [OF s]]] history.udp_timeout_I [OF later_refl]] by simp
    then show ?thesis by (rule ends_wp) (use owned_spent [OF spent] shrinksD in blast)
  qed (use few in blast)
qed

end
