(* ===== verification/Mixed_Run.thy ===== *)
theory Mixed_Run
  imports Owned
begin

text \<open>
  Whole runs of a server with TCP and UDP clients, without any fault, up to the exit.
\<close>

section \<open>New clients\<close>

text \<open>
  The datagrams on the welcome socket are messages, and come from addresses that no client and no
  coming connection has.
\<close>

definition greets :: "sockaddr_in set \<Rightarrow> server \<Rightarrow> bool" where
  "greets A s \<longleftrightarrow> (\<forall>x \<in> set (inbox (os s) (get_udp_socket s)).
     (\<exists>m. parse e_udp (take STRING_MAX_LENGTH (fst x)) (length (take STRING_MAX_LENGTH (fst x))) zero_msg = Ok (None, m)) \<and>
     (\<forall>a \<in> A \<union> (\<lambda>n. c_addr (n_data n)) ` set (clients s). \<not> is_equal_addr a (snd x)))"

lemma greets_mono: "greets A s \<Longrightarrow> B \<subseteq> A \<Longrightarrow> greets B s"
  by (auto simp: greets_def)

lemma no_such_addr: "(\<forall>n \<in> set q. \<not> is_equal_addr (c_addr (n_data n)) a) \<Longrightarrow> get_client_by_addr q a = None"
  by (induction q) auto

lemma register_owned:
  assumes s: "owned s" and f: "0 < f" "f \<notin> set (fds (clients s))" "f \<noteq> sockfd_udp_welcome s"
    and m: "pr = e_tcp \<Longrightarrow> f \<notin> msg_fds (msg_out_buf s)" and cnt: "unat (client_cnt s) < 65536"
  shows "\<exists>x t. register_client pr f a s = Ok (Some x, t) \<and> owned t \<and> inbox (os t) = inbox (os s) \<and>
     sockfd_udp_welcome t = sockfd_udp_welcome s \<and> map n_data (clients t) = map n_data (clients s) @ [new_client f pr a]"
proof -
  obtain x t where t: "register_client pr f a s = Ok (Some x, t)" "joined s t" "inbox (os t) = inbox (os s)"
    "fds (clients t) = fds (clients s) @ [f]" "msg_out_buf t = msg_out_buf s" "msg_cnt t = msg_cnt s" "wire (os t) = wire (os s)"
    "map n_data (clients t) = map n_data (clients s) @ [new_client f pr a]"
    using register_client_safe [OF ownedD(1,2) [OF s] f m cnt, where a = a] by blast
  have "accounts t" if "accounts s" using that t(4-7) by (auto simp: accounts_def pending_def)
  with ledger_step [OF ownedD(3) [OF s], of t] t show ?thesis by (auto simp: owned_def joined_def)
qed

lemma accept_owned:
  assumes "server_accept pr a0 s = (rc, f, a, t)" and s: "owned s"
  shows "owned t" and "same_core s t"
  using accept_core(1) [OF assms(1)] same_core_wf [of s t] ownedD [OF s]
  by (auto simp: same_core_def intro: owned_same [OF s])

lemma tcp_polling_owned:
  assumes s: "owned s" and fr: "fresh_fds s" and cnt: "unat (client_cnt s) < 65536"
    and g: "greets (snd ` set (new_conns (os s))) s"
  shows "ends UNIV (tcp_polling s) (\<lambda>t. owned t \<and> greets {} t)"
proof -
  obtain rc f a u where ac: "server_accept e_tcp zero_addr s = (rc, f, a, u)"
    by (cases "server_accept e_tcp zero_addr s")
  note u = accept_owned [OF ac s]
  have same: "clients u = clients s" "inbox (os u) = inbox (os s)" "sockfd_udp_welcome u = sockfd_udp_welcome s"
    "client_cnt u = client_cnt s" "msg_out_buf u = msg_out_buf s" using u(2) by (simp_all add: same_core_def)
  show ?thesis
  proof (cases rc)
    case None
    have f: "f \<noteq> -1" "(f, a) \<in> set (new_conns (os s))" using accept_core(3) [OF ac None] by simp_all
    then have "fresh_fd s f" using fr by (force simp: fresh_fds_def)
    then obtain x t where t: "register_client e_tcp f a u = Ok (Some x, t)" "owned t" "inbox (os t) = inbox (os u)"
      "sockfd_udp_welcome t = sockfd_udp_welcome u" "map n_data (clients t) = map n_data (clients u) @ [new_client f e_tcp a]"
      using register_owned [OF u(1), of f e_tcp a] cnt same by (auto simp: fresh_fd_def)
    have ad: "(\<lambda>n. c_addr (n_data n)) ` set (clients t) = insert a ((\<lambda>n. c_addr (n_data n)) ` set (clients s))"
      using arg_cong [OF t(5), of "\<lambda>cs. c_addr ` set cs"] same(1) by (simp add: image_image new_client_def)
    have i: "inbox (os t) (get_udp_socket t) = inbox (os s) (get_udp_socket s)"
      using t(3,4) same(2,3) by (simp add: get_udp_socket_def)
    have "a \<in> snd ` set (new_conns (os s))" using f(2) by force
    with g have "greets {} t" unfolding greets_def i ad by auto
    with t(1,2) ac None show ?thesis by (simp add: tcp_polling_def)
  next
    case (Some e)
    have "greets {} u" using g same by (auto simp: greets_def get_udp_socket_def)
    with Some ac u(1) show ?thesis by (simp add: tcp_polling_def)
  qed
qed

lemma udp_polling_owned:
  assumes s: "owned s" and cnt: "unat (client_cnt s) < 65536" and g: "greets {} s"
    and fr: "\<forall>f \<in> set (new_socks (os s)). f \<le> 0 \<or> f \<notin> set (fds (clients s)) \<and> f \<noteq> sockfd_udp_welcome s"
  shows "ends UNIV (udp_polling s) owned"
proof -
  obtain rc f a u where ac: "server_accept e_udp zero_addr s = (rc, f, a, u)"
    by (cases "server_accept e_udp zero_addr s")
  note u = accept_owned [OF ac s]
  have same: "clients u = clients s" "inbox (os u) = inbox (os s)" "sockfd_udp_welcome u = sockfd_udp_welcome s"
    "client_cnt u = client_cnt s" "msg_out_buf u = msg_out_buf s" using u(2) by (simp_all add: same_core_def)
  let ?w = "get_udp_socket u"
  show ?thesis
  proof (cases "rc = None \<and> inbox (os u) ?w \<noteq> []")
    case False
    then show ?thesis using ac u(1) owned.socket_system(2) [OF u(1), of f]
      by (cases rc) (simp_all add: udp_polling_def input.no_datagram)
  next
    case True
    then obtain bs x r where i: "inbox (os u) ?w = (bs, x) # r" by (cases "inbox (os u) ?w") auto
    let ?b = "take STRING_MAX_LENGTH bs" and ?u = "u\<lparr>os := (os u)\<lparr>inbox := (inbox (os u))(?w := r)\<rparr>\<rparr>"
    obtain m where m: "parse e_udp ?b (length ?b) zero_msg = Ok (None, m)"
      and new: "\<forall>n \<in> set (clients s). \<not> is_equal_addr (c_addr (n_data n)) x"
      using g i same by (auto simp: greets_def get_udp_socket_def)
    let ?v = "os_log (LogRecv x (msg_type m)) ?u"
    have v: "owned ?v" using owned.socket_read [OF u(1), of e_udp ?w zero_addr] i
      by (intro owned.socket_system(3)) (simp add: server_read_sock_def Let_def)
    have f: "0 < f" "f \<notin> set (fds (clients s))" "f \<noteq> sockfd_udp_welcome s"
      using accept_core(4) [OF ac] True fr by force+
    obtain y t where t: "register_client e_udp f x ?v = Ok (Some y, t)" "owned t"
      using register_owned [OF v f(1), of e_udp x] f(2,3) cnt same by (auto simp: os_log_def)
    have "udp_polling s = process_msg (Some y) m t"
      using ac True i m new t(1) same(1)
      by (simp add: udp_polling_def read_msg_def server_read_sock_def store_addr_def Let_def no_such_addr os_log_def)
    with owned.process_msg_I [OF t(2)] show ?thesis by simp
  qed
qed

section \<open>One round\<close>

lemma owned_fields:
  assumes s: "owned s"
  shows "owned (s\<lparr>poll := set_revents rs (poll s)\<rparr>)" and "owned (s\<lparr>stop_timeout := n\<rparr>)" and "owned (s\<lparr>stop_flag := True\<rparr>)"
  using ownedD(1,2) [OF s] wf_server_poll [OF ownedD(1) [OF s], of rs]
  by (auto simp: quiet_def wf_server_def intro!: owned_same [OF s])

lemma poll_ready_owned:
  assumes s: "owned s" and fr: "fresh_fds s" and cnt: "unat (client_cnt s) < 65535"
    and g: "greets (snd ` set (new_conns (os s))) s"
  shows "ends UNIV (poll_ready s) owned"
proof -
  let ?ok = "\<lambda>t. owned t \<and> greets {} t \<and> unat (client_cnt t) < 65536 \<and>
    (\<forall>f \<in> set (new_socks (os t)). f \<le> 0 \<or> f \<notin> set (fds (clients t)) \<and> f \<noteq> sockfd_udp_welcome t)"
  have tcp: "ends UNIV (if b then tcp_polling s else Ok s) ?ok" for b
  proof (cases b)
    case True
    with tcp_polling_safe [OF ownedD(1,2) [OF s] fr] tcp_polling_owned [OF s fr _ g] cnt
    show ?thesis by (auto simp: joined_def)
  next
    case False
    with s greets_mono [OF g] fr cnt show ?thesis by (auto simp: fresh_fds_def fresh_fd_def)
  qed
  have udp: "ends UNIV (if b then udp_polling t else Ok t) owned" if "?ok t" for t b
    using that udp_polling_owned [of t] by auto
  show ?thesis
    unfolding poll_ready_def ends_simps(3)
    by (rule any_wp, rule ends_wp [OF tcp], rule any_wp, rule ends_wp [OF udp], assumption, rule owned.poll_loop_I)
qed

lemma poll_idle_owned:
  assumes "owned s"
  shows "ends UNIV (poll_idle 75 s) (\<lambda>t. exited t \<noteq> None \<or> owned t)"
proof -
  have "ends UNIV (stop 0 s) (\<lambda>t. exited t \<noteq> None \<or> owned t)"
    using stop_exited by (fastforce simp: ends_UNIV)
  moreover have "ends UNIV (do_udp_timeout 75 (s\<lparr>stop_timeout := n\<rparr>)) (\<lambda>t. exited t \<noteq> None \<or> owned t)" for n
    by (rule ends_wp [OF timeout_owned(1) [OF owned_fields(2) [OF assms]]]) simp
  ultimately show ?thesis by (simp add: poll_idle_def)
qed

lemma sigint_owned: "owned s \<Longrightarrow> ends UNIV (sigint_handler s) owned"
  unfolding sigint_handler_def Let_def by (rule owned.sigint_loop_I) (rule owned_fields(3))

lemma main_iter_owned:
  assumes s: "owned s" and fr: "fresh_fds s" and cnt: "unat (client_cnt s) < 65535"
    and g: "greets (snd ` set (new_conns (os s))) s"
  shows "ends UNIV (main_iter ev s) (\<lambda>t. exited t \<noteq> None \<or> owned t)"
proof (cases ev)
  case (Ready rs)
  have "ends UNIV (poll_ready (s\<lparr>poll := set_revents rs (poll s)\<rparr>)) owned"
    using fr cnt g by (intro poll_ready_owned owned_fields(1) [OF s])
      (auto simp: fresh_fds_def fresh_fd_def greets_def get_udp_socket_def)
  then show ?thesis using Ready by (auto simp: main_iter_def elim: ends_wp)
next
  case Idle
  with poll_idle_owned [OF owned_fields(1) [OF s]] show ?thesis by (simp add: main_iter_def poll_timeout_75)
next
  case Interrupted
  have "ends UNIV (sigint_handler s) (\<lambda>t. ends UNIV (poll_idle 75 t) (\<lambda>t. exited t \<noteq> None \<or> owned t))"
    by (rule ends_wp [OF sigint_owned [OF s]]) (rule poll_idle_owned)
  with Interrupted show ?thesis by (simp add: main_iter_def poll_timeout_75)
qed

text \<open>The interrupt sends at most one message to each client.\<close>

lemma sigint_wire:
  assumes "wf_server s" and "quiet s"
  shows "ends F (sigint_handler s) (\<lambda>t. length (wire (os t)) \<le> length (wire (os s)) + length (clients s))"
proof (rule ends_wp [OF sigint_farewell [OF assms]])
  fix t assume "farewell s (clients t) t"
  then obtain ds ws where "ds @ actives [] = actives (clients s)" "deliveries bye_msg (msg_cnt s) ds = Ok ws"
    "wire (os t) = wire (os s) @ ws" by (auto simp: farewell_def)
  moreover have "length (actives (clients s)) \<le> length (clients s)" by (metis actives_def length_filter_le length_map)
  ultimately show "length (wire (os t)) \<le> length (wire (os s)) + length (clients s)"
    by (auto simp: actives_def dest: deliveries_length)
qed

lemma poll_idle_total:
  assumes "owned s" and "length (wire (os s)) < 65536"
  shows "ends F (poll_idle 75 s) sound"
proof (rule poll_idle_rule [OF ownedD(1) [OF assms(1)]])
  show "ends F (do_udp_timeout 75 (s\<lparr>stop_timeout := n\<rparr>)) (shrinks (s\<lparr>stop_timeout := n\<rparr>))" for n
    using assms(2) by (intro timeout_owned(2) owned_fields(2) assms(1)) simp
qed

lemma main_iter_total:
  assumes s: "owned s" and "fresh_fds s" and "unat (client_cnt s) < 65535" and "input_ok F True s"
    and room: "length (wire (os s)) + length (clients s) < 65536"
  shows "ends F (main_iter ev s) sound"
proof (cases ev)
  case (Ready rs)
  with main_ready_safe [OF ownedD(1,2) [OF s] assms(2-4)] show ?thesis by simp
next
  case Idle
  then show ?thesis using poll_idle_total [OF owned_fields(1) [OF s], of "[]" F] room
    by (simp add: main_iter_def poll_timeout_75)
next
  case Interrupted
  have "ends F (sigint_handler s) (\<lambda>t. ends F (poll_idle 75 t) sound)"
    using ends_conj_UNIV [OF sigint_wire [OF ownedD(1,2) [OF s]] sigint_owned [OF s]]
    by (rule ends_wp) (use room poll_idle_total in auto)
  with Interrupted show ?thesis by (simp add: main_iter_def poll_timeout_75 sound_def)
qed

section \<open>Runs\<close>

text \<open>
  Every packet is well named, as a line and as a datagram, and the datagrams on the welcome socket are
  messages from new addresses.
\<close>

definition mixed_input :: "server \<Rightarrow> bool" where
  "mixed_input s \<longleftrightarrow> greets (snd ` set (new_conns (os s))) s \<and>
     (\<forall>f. \<forall>x \<in> set (inbox (os s) f). well_named e_tcp (fst x) \<and> well_named e_udp (fst x))"

inductive mixed_run :: "string list \<Rightarrow> server \<Rightarrow> bool" for args where
  start: "main_init args sys = Ok s \<Longrightarrow> mixed_run args s"
| env: "mixed_run args s \<Longrightarrow> exited s = None \<Longrightarrow> env_change (os s) sys \<Longrightarrow> mixed_run args (s\<lparr>os := sys\<rparr>)"
| round: "mixed_run args s \<Longrightarrow> exited s = None \<Longrightarrow> benign s \<Longrightarrow> mixed_input s \<Longrightarrow>
    main_iter ev s = Ok s' \<Longrightarrow> mixed_run args s'"

lemma mixed_run_benign: "mixed_run args s \<Longrightarrow> benign_run args s"
  by (induction rule: mixed_run.induct) (auto intro: benign_run.intros)

lemma mixed_input_ok: "mixed_input s \<Longrightarrow> input_ok {} True s"
proof -
  assume "mixed_input s"
  then have "packet_ok {} pr (fst x)" if "x \<in> set (inbox (os s) f)" for pr f x
    using that well_named_ok by (cases pr) (auto simp: mixed_input_def)
  then show ?thesis by (simp add: input_ok_def)
qed

lemma mixed_run_ledger: "mixed_run args s \<Longrightarrow> exited s = None \<Longrightarrow> wf_server s \<and> ledger s"
proof (induction rule: mixed_run.induct)
  case (start sys s)
  then show ?case using main_init_state [of args sys s] main_init_wf [of args sys s]
    by (simp add: ledger_def accounts_def)
next
  case (env s sys)
  then have "wf_server (s\<lparr>os := sys\<rparr>)" by (simp add: wf_server_def)
  moreover have "ledger (s\<lparr>os := sys\<rparr>)"
    using env by (auto simp: env_change_def intro: ledger_same)
  ultimately show ?case ..
next
  case (round s ev s')
  then have "owned s" by (simp add: owned_def benign_def)
  from ends_OkD [OF main_iter_owned [OF this] round.hyps(5)] round.hyps(3,4) round.prems show ?case
    by (auto simp: benign_def mixed_input_def owned_def)
qed

text \<open>
  C2. A server that TCP and UDP clients use never faults as long as its rounds are benign (no send and
  no allocation fails, descriptors are fresh, fewer than 65535 clients have connected), packets are well
  named, the datagrams on the UDP welcome socket are messages from new addresses, and the packets sent
  and the clients are fewer than 65536: in every state of such a run, whatever the next event is, the
  round returns; afterwards the program has exited, or the invariant holds and (while fewer than 65536
  packets were sent) every unconfirmed message waits for a client of the queue.
\<close>

theorem mixed_run_total:
  assumes "mixed_run args s" and "exited s = None" and "benign s" and "mixed_input s"
    and "length (wire (os s)) + length (clients s) < 65536"
  shows "\<exists>t. main_iter ev s = Ok t \<and> mixed_run args t \<and> (exited t \<noteq> None \<or> wf_server t \<and>
     (length (wire (os t)) < 65536 \<longrightarrow> msg_fds (msg_out_buf t) \<subseteq> set (fds (clients t))))"
proof -
  have "owned s" using mixed_run_ledger [OF assms(1,2)] assms(3) by (simp add: owned_def benign_def)
  from main_iter_total [OF this _ _ mixed_input_ok [OF assms(4)] assms(5), of ev] assms(3)
  obtain t where t: "main_iter ev s = Ok t" by (cases "main_iter ev s") (auto simp: benign_def)
  have "mixed_run args t" by (rule mixed_run.round [OF assms(1-4) t])
  moreover from mixed_run_ledger [OF this]
  have "exited t \<noteq> None \<or> wf_server t \<and> (length (wire (os t)) < 65536 \<longrightarrow> msg_fds (msg_out_buf t) \<subseteq> set (fds (clients t)))"
    by (auto simp: ledger_def accounts_def pending_def msg_fds_def)
  ultimately show ?thesis using t by blast
qed

lemma ledger_fresh:
  assumes "ledger s" and room: "length (wire (os s)) + length (clients s) < 65536"
  shows "fresh_ids s" and "\<forall>n \<in> set (msg_out_buf s). pending (clients s) n"
proof -
  have a: "accounts s" using assms by (simp add: ledger_def)
  then show "\<forall>n \<in> set (msg_out_buf s). pending (clients s) n" by (simp add: accounts_def)
  have "ucast (msg_cnt s + of_nat j) \<notin> set (ids (msg_out_buf s))" if "j < length (clients s)" for j
  proof -
    have j: "unat (msg_cnt s) + j < 65536" using a room that by (simp add: accounts_def)
    then have "unat (msg_cnt s + of_nat j) = unat (msg_cnt s) + j"
      by (simp add: unat_word_ariths unat_of_nat)
    with j have "unat (ucast (msg_cnt s + of_nat j) :: id_t) = unat (msg_cnt s) + j"
      by (simp add: unsigned_ucast_eq take_bit_nat_eq_self_iff)
    with a show ?thesis by (force simp: accounts_def)
  qed
  with a show "fresh_ids s" by (simp add: fresh_ids_def accounts_def)
qed

text \<open>
  C8. When such a server, after a run as in C2 with fewer than 65536 packets sent and clients together,
  is interrupted for the first time while no send and no allocation fails, it ends even when no UDP
  client ever answers: after at most 65536 idle rounds for the first transmission and for each
  retransmission that the settings allow, and 7 more, the program exits with code 0 and the welcome
  sockets are closed.
\<close>

theorem mixed_server_exits:
  assumes "mixed_run args s" and "exited s = None" and "quiet s" and "\<not> stop_flag s"
    and "length (wire (os s)) + length (clients s) < 65536"
  shows "\<exists>j t. j \<le> (unat (udp_retransmissions (argv s)) + 1) * 65536 + 7 \<and>
     andthen (main_iter Interrupted s) (idle_rounds j) = Ok t \<and> exited t = Some 0 \<and>
     {get_tcp_socket s, get_udp_socket s} \<subseteq> set (closed (os t))"
proof (rule interrupt_terminates)
  show "wf_server s" "quiet s" using mixed_run_ledger [OF assms(1,2)] assms(3) by simp_all
  show "\<forall>n \<in> set (msg_out_buf s). pending (clients s) n" "fresh_ids s"
    using ledger_fresh [OF _ assms(5)] mixed_run_ledger [OF assms(1,2)] by simp_all
  show "stop_timeout s \<le> STOP_TIMEOUT" by (rule benign_run_timer [OF mixed_run_benign [OF assms(1)] assms(2)])
  show "\<not> stop_flag s" by (rule assms(4))
qed

text \<open>
  C27. What a server sends from its first interrupt on, over any number of idle rounds and including
  the interrupt itself, is bounded: for every client one BYE and the retransmissions that the settings
  allow, and for every message that was buffered the retransmissions that were left for it (after a run
  as in C2, while no send and no allocation fails).
\<close>

theorem shutdown_traffic_bounded:
  assumes "mixed_run args s" and "exited s = None" and "quiet s" and "\<not> stop_flag s"
    and "length (wire (os s)) + length (clients s) < 65536"
    and "andthen (main_iter Interrupted s) (idle_rounds j) = Ok t"
  shows "length (wire (os t)) \<le> length (wire (os s)) +
     (unat (udp_retransmissions (argv s)) + 1) * length (clients s) +
     (\<Sum>n \<leftarrow> msg_out_buf s. unat (udp_retransmissions (argv s)) - unat (retry_count (n_data n)))"
proof -
  have l: "wf_server s" "ledger s" using mixed_run_ledger [OF assms(1,2)] by simp_all
  have "stop_timeout s \<le> STOP_TIMEOUT" by (rule benign_run_timer [OF mixed_run_benign [OF assms(1)] assms(2)])
  from interrupt_sends_little [OF l(1) assms(3) _ _ this assms(4,6)] ledger_fresh [OF l(2) assms(5)]
  show ?thesis by (simp add: debt_def budget_def unsent_def)
qed

section \<open>A run\<close>

text \<open>A UDP client sends AUTH to the welcome socket.\<close>

definition auth_packet :: bytes where
  "auth_packet = [CHR 0x02, NUL, CHR 0x01] @ ''eve'' @ [NUL] @ ''Eve'' @ [NUL] @ ''pw'' @ [NUL]"

definition guest_os :: os_t where
  "guest_os = calm_os\<lparr>new_socks := [3, 4, 7], inbox := (\<lambda>f. if f = 4 then [(auth_packet, demo_addr 9)] else [])\<rparr>"

lemma auth_packet_ok: "well_named e_tcp auth_packet" "well_named e_udp auth_packet"
  "take STRING_MAX_LENGTH auth_packet = auth_packet"
  "(case parse e_udp auth_packet (length auth_packet) zero_msg of Ok (None, m) \<Rightarrow> True | _ \<Rightarrow> False)"
  by code_simp+

lemma guest_started:
  obtains s where "main_init [] guest_os = Ok s" "exited s = None" "benign s" "mixed_input s"
    "wire (os s) = []" "clients s = []"
proof -
  have "ends {} (main_init [] guest_os) (\<lambda>s. exited s = None \<and> benign s \<and> os s = guest_os\<lparr>new_socks := [7]\<rparr> \<and>
      clients s = [] \<and> get_udp_socket s = 4)"
    by (simp add: main_init_def parse_argv_def default_argv_def init_server_def guest_os_def calm_os_def
        os_alloc_def pop_def make_queue_def server_open_def os_socket_def os_call_def Let_def
        benign_def quiet_def fresh_fds_def fresh_fd_def get_udp_socket_def)
  then obtain s where s: "main_init [] guest_os = Ok s" "exited s = None" "benign s" "os s = guest_os\<lparr>new_socks := [7]\<rparr>"
    "clients s = []" "get_udp_socket s = 4" by (cases "main_init [] guest_os") auto
  have "\<exists>m. parse e_udp auth_packet (length auth_packet) zero_msg = Ok (None, m)"
    using auth_packet_ok(4) by (auto split: res.splits option.splits)
  then have "mixed_input s" using s(4-6) auth_packet_ok
    by (auto simp: mixed_input_def greets_def guest_os_def calm_os_def)
  with that s show ?thesis by (simp add: guest_os_def calm_os_def)
qed

theorem mixed_run_total_witness:
  "\<exists>s t. main_init [] guest_os = Ok s \<and> main_iter (Ready [False, True]) s = Ok t \<and> mixed_run [] t"
proof -
  obtain s where s: "main_init [] guest_os = Ok s" "exited s = None" "benign s" "mixed_input s"
    "wire (os s) = []" "clients s = []" by (rule guest_started)
  from mixed_run_total [OF mixed_run.start [OF s(1)] s(2-4)] s show ?thesis by auto
qed

text \<open>After that round the client is in the queue, and the server is interrupted.\<close>

lemma guest_joined:
  "andthen (main_init [] guest_os) (\<lambda>s. andthen (main_iter (Ready [False, True]) s) (\<lambda>t.
     Ok ((exited t, stop_flag t, send_fail (os t), alloc_fail (os t)), length (wire (os t)),
       map (c_protocol \<circ> n_data) (clients t),
       map (\<lambda>n. (udp_retransmissions (argv t), retry_count (n_data n))) (msg_out_buf t)))) =
   Ok ((None, False, [], []), 2, [e_udp], [(3, 0)])"
  by code_simp

lemma guest_waits:
  obtains s t where "main_init [] guest_os = Ok s" "main_iter (Ready [False, True]) s = Ok t" "mixed_run [] t"
    "exited t = None" "\<not> stop_flag t" "quiet t" "length (wire (os t)) = 2" "length (clients t) = 1"
    "map (c_protocol \<circ> n_data) (clients t) = [e_udp]"
    "map (\<lambda>n. (udp_retransmissions (argv t), retry_count (n_data n))) (msg_out_buf t) = [(3, 0)]"
proof -
  obtain s where s: "main_init [] guest_os = Ok s" "exited s = None" "benign s" "mixed_input s" by (rule guest_started)
  with guest_joined obtain t where t: "main_iter (Ready [False, True]) s = Ok t" "exited t = None" "\<not> stop_flag t"
    "send_fail (os t) = []" "alloc_fail (os t) = []" "length (wire (os t)) = 2" "map (c_protocol \<circ> n_data) (clients t) = [e_udp]"
    "map (\<lambda>n. (udp_retransmissions (argv t), retry_count (n_data n))) (msg_out_buf t) = [(3, 0)]"
    by (auto simp: andthen_Ok_iff)
  have "mixed_run [] t" by (rule mixed_run.round [OF mixed_run.start [OF s(1)] s(2-4) t(1)])
  moreover have "length (clients t) = 1" using arg_cong [OF t(7), of length] by simp
  ultimately show ?thesis using that s(1) t by (simp add: quiet_def)
qed

theorem mixed_server_exits_witness:
  "\<exists>s t u j. main_init [] guest_os = Ok s \<and> main_iter (Ready [False, True]) s = Ok t \<and>
     map (c_protocol \<circ> n_data) (clients t) = [e_udp] \<and>
     andthen (main_iter Interrupted t) (idle_rounds j) = Ok u \<and> exited u = Some 0"
proof -
  obtain s t where t: "main_init [] guest_os = Ok s" "main_iter (Ready [False, True]) s = Ok t" "mixed_run [] t"
    "exited t = None" "\<not> stop_flag t" "quiet t" "length (wire (os t)) = 2" "length (clients t) = 1"
    "map (c_protocol \<circ> n_data) (clients t) = [e_udp]" by (rule guest_waits)
  with mixed_server_exits [OF t(3,4,6,5)] show ?thesis by auto
qed

text \<open>One more BYE, and three retransmissions of each of the two messages.\<close>

theorem shutdown_traffic_bounded_witness:
  "\<exists>s t u j. main_init [] guest_os = Ok s \<and> main_iter (Ready [False, True]) s = Ok t \<and>
     andthen (main_iter Interrupted t) (idle_rounds j) = Ok u \<and> exited u = Some 0 \<and> length (wire (os u)) \<le> 9"
proof -
  obtain s t where t: "main_init [] guest_os = Ok s" "main_iter (Ready [False, True]) s = Ok t" "mixed_run [] t"
    "exited t = None" "\<not> stop_flag t" "quiet t" "length (wire (os t)) = 2" "length (clients t) = 1"
    "map (\<lambda>n. (udp_retransmissions (argv t), retry_count (n_data n))) (msg_out_buf t) = [(3, 0)]"
    by (rule guest_waits)
  then have few: "length (wire (os t)) + length (clients t) < 65536" by simp
  have wf: "wf_server t" "ledger t" using mixed_run_ledger [OF t(3,4)] by simp_all
  have st: "stop_timeout t \<le> STOP_TIMEOUT" by (rule benign_run_timer [OF mixed_run_benign [OF t(3)] t(4)])
  from interrupt_terminates [OF wf(1) t(6) _ _ st t(5)] ledger_fresh [OF wf(2) few] obtain j u where
    u: "andthen (main_iter Interrupted t) (idle_rounds j) = Ok u" "exited u = Some 0" by blast
  obtain n where n: "msg_out_buf t = [n]" "udp_retransmissions (argv t) = 3" "retry_count (n_data n) = 0"
    using t(9) by (auto simp: map_eq_Cons_conv)
  have "length (wire (os u)) \<le> 9"
    using shutdown_traffic_bounded [OF t(3,4,6,5) few u(1)] t(7,8) n by simp
  with t(1,2) u show ?thesis by blast
qed

end
