(* ===== verification/Roles.thy ===== *)
theory Roles
  imports Journey
begin

text \<open>
  The clients over whole runs, whatever the operating system answers: their arrays keep their
  sizes and their states are consistent with their channels, between the rounds and inside them.  So
  what is said in a channel stays among the clients that are authorized, and clients that wait for
  their authorization hear of each other.
\<close>

section \<open>Roles\<close>

definition in_channel :: "client_t \<Rightarrow> bool" where
  "in_channel c \<longleftrightarrow> buf_at (c_names c) 40 \<noteq> NUL"

text \<open>The sizes of the arrays in \<open>client_t\<close>.\<close>

definition typed :: "client_t \<Rightarrow> bool" where
  "typed c \<longleftrightarrow> length (c_names c) \<le> 60 \<and> length (msg_in_confirmed c) = MAX_CONFIRMED_MSG"

fun role :: "client_t \<Rightarrow> bool" where
  "role c = (case c_state c of s_ac \<Rightarrow> \<not> in_channel c | s_op \<Rightarrow> in_channel c | s_en \<Rightarrow> True | _ \<Rightarrow> False)"

declare role.simps [simp del]

text \<open>
  \<open>except p Q s\<close>: everybody has a role but the client at \<open>p\<close>, which satisfies \<open>Q\<close>, also when it is
  moved to the end state.
\<close>

definition except :: "ptr \<Rightarrow> (client_t \<Rightarrow> bool) \<Rightarrow> server \<Rightarrow> bool" where
  "except p Q s \<longleftrightarrow> distinct (ptrs (clients s)) \<and> (\<forall>n \<in> set (clients s). n_ptr n < next_addr s \<and>
     typed (n_data n) \<and> (if p = Some (n_ptr n) then Q (n_data n) \<and> Q (to_end (n_data n)) else role (n_data n)))"

definition roles :: "server \<Rightarrow> bool" where
  "roles s = except None role s"

definition failing :: "client_t \<Rightarrow> bool" where
  "failing c \<longleftrightarrow> c_state c = s_er \<or> c_state c = s_en"

lemma to_end_simps [simp]:
  "role (to_end c)" "typed (to_end c) = typed c" "in_channel (to_end c) = in_channel c"
  "to_end (to_end c) = to_end c" "failing (to_end c)"
  by (simp_all add: role.simps to_end_def typed_def in_channel_def failing_def)

lemma roles_except: "roles s = except p role s"
  by (auto simp: roles_def except_def)

lemma c_channel_empty: "c_channel_id c = '''' \<longleftrightarrow> \<not> in_channel c"
proof -
  have "drop 40 (client_bytes c) = buf_at (c_names c) 40 # drop 41 (client_bytes c)"
    by (subst Cons_nth_drop_Suc [symmetric]) (auto simp: client_bytes_def nth_append nth_buf_slice)
  then show ?thesis by (simp add: c_channel_id_def cstr_def in_channel_def)
qed

section \<open>Sending and closing\<close>

lemma ql_map_node: "n \<in> set (ql_map a f q) \<Longrightarrow> \<exists>m \<in> set q. n_ptr n = n_ptr m \<and>
    n_data n = (if n_ptr m = a then f (n_data m) else n_data m)"
  by (auto simp: ql_map_def)

lemma ql_remove_distinct [simp]: "distinct (ptrs q) \<Longrightarrow> distinct (ptrs (snd (ql_remove i q)))"
  by (rule distinct_ql_remove)

interpretation except: sender_inv "except p Q" UNIV for p Q
  by unfold_locales (auto simp: except_def dest!: ql_map_node dest: set_ql_remove [THEN subsetD])

lemma upd_client_except:
  assumes "except p Q s" and "\<And>c. typed c \<Longrightarrow> Q c \<Longrightarrow> typed (f c) \<and> Q' (f c) \<and> Q' (to_end (f c))"
  shows "ends UNIV (upd_client p f s) (except p Q')"
proof -
  have "except p Q' (s\<lparr>clients := ql_map a f (clients s)\<rparr>)" if "p = Some a" for a
    using assms that by (auto simp: except_def dest!: ql_map_node)
  then show ?thesis by (auto simp: upd_client_def ql_upd_def ends_UNIV andthen_Ok_iff ql_at_Ok_iff
      dest: ql_find_SomeD)
qed

lemma except_at:
  assumes "except p Q s" and "client_at p s = Ok c" and "Q' c" and "Q' (to_end c)"
  shows "except p Q' s"
proof -
  from client_at_node [OF assms(2)] obtain n where n: "n \<in> set (clients s)" "p = Some (n_ptr n)" "c = n_data n"
    by blast
  have "n_data m = c" if "m \<in> set (clients s)" "p = Some (n_ptr m)" for m
    using that n assms(1) by (auto simp: except_def ptrs_def distinct_map dest: inj_onD)
  with assms show ?thesis unfolding except_def by metis
qed

lemma role_at: "roles s \<Longrightarrow> client_at p s = Ok c \<Longrightarrow> role c"
  by (auto simp: roles_def except_def dest!: client_at_node)

section \<open>Executing a message\<close>

text \<open>Names are written within their arrays.\<close>

lemma names_typed:
  "typed c \<Longrightarrow> length b \<le> 20 \<Longrightarrow> typed (set_username b c)"
  "typed c \<Longrightarrow> length b \<le> 20 \<Longrightarrow> typed (set_display_name b c)"
  "typed c \<Longrightarrow> length b \<le> 20 \<Longrightarrow> typed (set_channel_id b c)"
  by (auto simp: typed_def set_username_def set_display_name_def set_channel_id_def)

lemma names_channel [simp]:
  "length b \<le> 20 \<Longrightarrow> in_channel (set_username b c) = in_channel c"
  "length b \<le> 20 \<Longrightarrow> in_channel (set_display_name b c) = in_channel c"
  "b \<noteq> [] \<Longrightarrow> in_channel (set_channel_id b c) \<longleftrightarrow> b ! 0 \<noteq> NUL"
  by (auto simp: in_channel_def set_username_def set_display_name_def set_channel_id_def buf_at_write)

lemma state_simps [simp]:
  "typed (set_state st c) = typed c" "in_channel (set_state st c) = in_channel c"
  "to_end (set_state st c) = to_end c" "failing (set_state s_er c)" "role (set_state s_en c)"
  "role (set_state s_op c) = in_channel c"
  by (simp_all add: typed_def in_channel_def set_state_def to_end_def failing_def role.simps)

text \<open>A JOIN that was received names a channel.\<close>

lemma received_join:
  assumes "received_msg m" and "msg_type m = e_join"
  shows "buf_at (data m) join_channel_id_off \<noteq> NUL"
proof -
  from assms(1) obtain pr b n where p: "parse pr b n zero_msg = Ok (None, m)" by (auto simp: received_msg_def)
  have ch: "ch ! 0 \<noteq> NUL" if "list_all alnum_dash ch" "1 \<le> length ch" for ch
    using that by (cases ch) auto
  show ?thesis
  proof (cases pr)
    case e_tcp
    with p have "parse_tcp_text (cstr 0 b) zero_msg = (None, m)"
      by (auto simp: parse_def parse_tcp_def split: if_splits)
    from parse_tcp_sound [OF this] obtain a where "grammar 1 a" "m = fill a zero_msg" by blast
    with assms(2) ch show ?thesis by (cases a) (auto simp: data_offsets buf_at_write)
  next
    case e_udp
    with p have "parse_udp b n zero_msg = (None, m)" by (simp add: parse_def)
    with assms(2) ch show ?thesis
      by (auto simp: parse_udp_def udp_fail_def Let_def case_prod_beta is_channel_id_iff
          data_offsets buf_at_write split: if_splits)
  qed
qed

text \<open>
  AUTH, JOIN and MSG write names, tell the channel and open the client: whoever is in a channel
  by then ends up open and in a channel.
\<close>

lemma open_client: "except p in_channel s \<Longrightarrow> ends UNIV (upd_client p (set_state s_op) s) roles"
  unfolding roles_except [of _ p] by (rule upd_client_except) simp_all

lemma enter_channel:
  assumes "except p Q s" and "\<And>c. typed c \<Longrightarrow> Q c \<Longrightarrow> typed (f c) \<and> in_channel (f c)"
  shows "ends UNIV (upd_client p f s) (except p in_channel)"
  using assms by (intro upd_client_except [where Q = Q]) simp_all

lemmas enter_wp = ends_wp [OF enter_channel [where Q = role]] ends_wp [OF open_client]
  reads_wp except.notify_wp

lemma exec_auth_roles: "roles s \<Longrightarrow> ends UNIV (exec_auth p m out s) (\<lambda>(o1, t). roles t)"
  by (auto simp: exec_auth_def Let_def names_typed roles_except [of s p] intro!: enter_wp)

lemma exec_join_roles:
  assumes "roles s" and "received_msg m" and "msg_type m = e_join"
  shows "ends UNIV (exec_join p m out s) (\<lambda>(o1, t). roles t)"
proof -
  have "buf_slice join_channel_id_off 20 (data m) ! 0 \<noteq> NUL"
    "buf_slice join_channel_id_off 20 (data m) \<noteq> []"
    using received_join [OF assms(2,3)] by (simp_all add: nth_buf_slice flip: length_greater_0_conv)
  then show ?thesis using assms(1) unfolding roles_except [of s p]
    by (auto simp: exec_join_def Let_def names_typed intro!: enter_wp)
qed

lemma exec_msg_roles:
  assumes "except p in_channel s"
  shows "ends UNIV (exec_msg p m s) (\<lambda>(o1, t). roles t)"
  using assms by (auto simp: exec_msg_def Let_def names_typed
      intro!: ends_wp [OF enter_channel [where Q = in_channel]] enter_wp(2-))

lemma exec_bye_roles: "roles s \<Longrightarrow> ends UNIV (exec_bye p s) roles"
proof -
  have "except p role t \<Longrightarrow> ends UNIV (upd_client p (set_state s_en) t) (except p role)" for p t
    by (rule upd_client_except) simp_all
  note bye = ends_wp [OF this]
  show "roles s \<Longrightarrow> ends UNIV (exec_bye p s) roles"
    unfolding roles_except [of _ p]
    by (auto simp: exec_bye_def split: option.split intro!: except.notify_wp bye except.close_client_I)
qed

text \<open>A client that may go on is open, unless it asks for authorization or is leaving.\<close>

lemma check_state_roles:
  assumes "roles s"
  shows "ends UNIV (check_state_transition p m s) (\<lambda>(b, t). roles t \<and> (b \<or> \<not> is_ending m) \<and>
     (b \<longrightarrow> is_ending m \<or> msg_type m = e_auth \<or> except p in_channel t))"
proof -
  have err: "ends UNIV (send_error pr f a e s) roles" for pr f a e
    using assms unfolding roles_except [of _ p] by (intro except.send_error_I) auto
  have "except p in_channel s" if "client_at p s = Ok c" "c_state c \<notin> {s_ac, s_au, s_en}" for c
    using except_at [OF assms [unfolded roles_except [of _ p]] that(1), of in_channel] role_at [OF assms that(1)] that(2)
    by (auto simp: role.simps split: fsm_state_t.splits)
  with assms show ?thesis
    by (auto simp: check_state_transition_def is_ending_def intro!: reads_wp ends_wp [OF err])
qed

text \<open>A message that is not allowed leaves its sender to be closed.\<close>

definition settled :: "ptr \<Rightarrow> msg_t \<Rightarrow> server \<Rightarrow> bool" where
  "settled p m t \<longleftrightarrow> roles t \<or> \<not> is_ending m \<and> except p failing t"

lemma fail_client:
  "roles s \<Longrightarrow> \<not> is_ending m \<Longrightarrow> ends UNIV (upd_client p (set_state s_er) s) (settled p m)"
  by (rule ends_wp [OF upd_client_except [where Q = role and Q' = failing]])
     (simp_all add: roles_except [of s p] settled_def)

lemma roles_settled: "roles t \<Longrightarrow> settled p m t"
  by (simp add: settled_def)

lemma execute_msg_roles:
  assumes "roles s" and "received_msg m" and "is_ending m \<or> msg_type m = e_auth \<or> except p in_channel s"
  shows "ends UNIV (execute_msg p m out s) (\<lambda>(b, o1, t). settled p m t)"
proof -
  have conf: "ends UNIV (exec_confirm p m s) roles"
    using assms(1) unfolding roles_except [of _ p] by (rule except.exec_confirm_I)
  show ?thesis
    using assms by (cases "msg_type m") (auto simp: execute_msg_def is_ending_def roles_settled
        intro!: ends_wp [OF conf] ends_wp [OF fail_client] ends_wp [OF exec_auth_roles]
          ends_wp [OF exec_join_roles] ends_wp [OF exec_msg_roles] ends_wp [OF exec_bye_roles])
qed

lemma check_execute_roles:
  assumes "roles s" and "received_msg m"
  shows "ends UNIV (check_execute p m s) (settled p m)"
proof -
  have send: "ends UNIV (send_msg (c_protocol c) f a o1 r t)
      (settled p m)"
    if "settled p m t" for c f a o1 r t
    using that unfolding settled_def roles_except [of _ p]
    by (elim disjE) (auto intro: ends_wp [OF except.send_msg_I])
  show ?thesis
    by (auto simp: check_execute_def intro!: ends_wp [OF check_state_roles [OF assms(1)]] ends_wp [OF fail_client]
        ends_wp [OF execute_msg_roles [OF _ assms(2)]] reads_wp send)
qed

lemma confirm_simps [simp]:
  "typed (confirm_record i c) = typed c" "role (confirm_record i c) = role c"
  "typed (c\<lparr>c_addr := x\<rparr>) = typed c" "role (c\<lparr>c_addr := x\<rparr>) = role c"
  by (simp_all add: confirm_record_def typed_def role.simps in_channel_def split: fsm_state_t.split)

lemma acknowledge_roles:
  assumes "roles s"
  shows "ends UNIV (acknowledge p m s) (\<lambda>(b, t). roles t)"
proof -
  have rec: "except p role t \<Longrightarrow> ends UNIV (upd_client p (confirm_record i) t) (except p role)" for i t
    by (rule upd_client_except) simp_all
  show ?thesis
    using assms unfolding roles_except [of _ p]
    by (auto simp: acknowledge_def intro!: reads_wp ends_wp [OF except.send_msg_I] ends_wp [OF rec])
qed

lemma process_msg_roles:
  assumes "roles s" and "received_msg m"
  shows "ends UNIV (process_msg p m s) roles"
proof -
  note ack = acknowledge_roles [OF assms(1), of p m]
  have close: "except p failing t \<Longrightarrow> ends UNIV (upd_client p to_end t) (\<lambda>u. ends UNIV (close_client p u) roles)" for t
    unfolding roles_except [of _ p]
    by (rule ends_wp [OF upd_client_except [where Q' = role] except.close_client_I]) simp_all
  have fin: "ends UNIV (client_at p t) (\<lambda>c. (c_state c = s_er \<longrightarrow>
      ends UNIV (upd_client p to_end t) (\<lambda>u. ends UNIV (close_client p u) roles)) \<and> (c_state c \<noteq> s_er \<longrightarrow> roles t))"
    if "roles t \<or> except p failing t" for t
  proof (rule reads_wp(1))
    fix c assume c: "client_at p t = Ok c"
    have "except p failing t" if "c_state c = s_er"
      using that \<open>roles t \<or> except p failing t\<close> role_at [OF _ c] by (auto simp: role.simps)
    moreover have "roles t" if "c_state c \<noteq> s_er"
    proof -
      have "role c" if "except p failing t"
        using that c \<open>c_state c \<noteq> s_er\<close> by (auto simp: except_def failing_def role.simps dest!: client_at_node)
      then show ?thesis using \<open>roles t \<or> except p failing t\<close> except_at [OF _ c, of failing role]
        by (auto simp: roles_except [of t p])
    qed
    ultimately show "(c_state c = s_er \<longrightarrow> ends UNIV (upd_client p to_end t)
        (\<lambda>u. ends UNIV (close_client p u) roles)) \<and> (c_state c \<noteq> s_er \<longrightarrow> roles t)"
      using close by blast
  qed
  show ?thesis
    by (auto simp: process_msg_def settled_def intro!: ends_wp [OF ack] ends_wp [OF check_execute_roles [OF _ assms(2)]]
        reads_wp fin)
qed

section \<open>Whole runs\<close>

lemma roles_iff: "roles s \<longleftrightarrow> distinct (ptrs (clients s)) \<and>
    (\<forall>n \<in> set (clients s). n_ptr n < next_addr s \<and> typed (n_data n) \<and> role (n_data n))"
  by (auto simp: roles_def except_def)

lemma new_client_role: "typed (new_client f pr a)" "role (new_client f pr a)"
  by (simp_all add: typed_def role.simps in_channel_def new_client_def)

interpretation roles: sender_inv roles UNIV
  unfolding roles_def by (rule except.sender_inv_axioms)

interpretation roles: run_inv roles UNIV
proof unfold_locales
  show "ends UNIV (process_msg cl m s) roles" if "roles s" "received_msg m" for cl m s
    using that by (rule process_msg_roles)
  show "roles (s\<lparr>next_addr := Suc (next_addr s), client_cnt := cnt,
      clients := clients s @ [\<lparr>n_ptr = next_addr s, n_id = i, n_data = new_client f pr x\<rparr>]\<rparr>)"
    if "roles s" for s cnt i f pr x
  proof -
    have "next_addr s \<notin> set (ptrs (clients s))" using that by (auto simp: roles_iff ptrs_def)
    with that show ?thesis by (auto simp: roles_iff new_client_role less_Suc_eq)
  qed
qed (auto simp: roles_iff new_client_role less_Suc_eq dest!: ql_map_node split: if_splits)

lemma main_init_empty:
  assumes "main_init args sys = Ok s"
  shows "clients s = [] \<and> msg_out_buf s = []"
proof -
  have fds: "close_fds js v = Ok w \<Longrightarrow> clients w = clients v \<and> msg_out_buf w = msg_out_buf v" for js v w
    by (induction js arbitrary: v) (auto simp: andthen_Ok_iff os_close_def split: if_splits)
  have stop: "clients t = [] \<and> msg_out_buf t = []" if "stop code u = Ok t" for code u t
    using that by (auto simp: stop_def Let_def andthen_Ok_iff server_close_def os_close_def dest!: fds)
  show ?thesis
    using assms unfolding main_init_def
    by (auto simp: andthen_Ok_iff Let_def case_prod_beta init_server_same server_open_ok set_errno_def
        split: if_splits option.splits dest: stop)
qed

lemma reachable_roles: "reachable args s \<Longrightarrow> roles s"
  by (erule roles.reachable_I) (simp add: roles_iff main_init_empty)

text \<open>The cells of the clients are distinct and allocated, and the arrays keep their sizes.\<close>

lemma clients_typed:
  assumes "reachable args s"
  shows "distinct (ptrs (clients s)) \<and> (\<forall>n \<in> set (clients s). n_ptr n < next_addr s \<and>
     length (c_names (n_data n)) \<le> 60 \<and> length (msg_in_confirmed (n_data n)) = MAX_CONFIRMED_MSG)"
  using reachable_roles [OF assms] by (auto simp: roles_iff typed_def)

text \<open>
  C6. In every state that the program can reach, a client waits for its authorization and is in no
  channel, or is open and in a channel, or has ended.  The states for a failed authorization and for
  an error are never seen between two rounds.
\<close>

theorem client_states:
  assumes "reachable args s" and "n \<in> set (clients s)"
  shows "c_state (n_data n) = s_ac \<and> c_channel_id (n_data n) = [] \<or>
     c_state (n_data n) = s_op \<and> c_channel_id (n_data n) \<noteq> [] \<or> c_state (n_data n) = s_en"
proof -
  have "role (n_data n)" using reachable_roles [OF assms(1)] assms(2) by (simp add: roles_iff)
  then show ?thesis by (auto simp: role.simps c_channel_empty split: fsm_state_t.splits)
qed

section \<open>Between and inside the rounds\<close>

text \<open>
  The states in which the server handles something: those between two rounds, and inside a round
  those before and after each of its calls (accept and register a connection, read a packet, process
  the message that was read, handle a whole socket).
\<close>

inductive serving :: "string list \<Rightarrow> server \<Rightarrow> bool" for args where
  between: "reachable args s \<Longrightarrow> serving args s"
| polled: "serving args s \<Longrightarrow> serving args (s\<lparr>poll := set_revents rs (poll s)\<rparr>)"
| accepted: "serving args s \<Longrightarrow> server_accept pr a s = (rc, f, b, t) \<Longrightarrow> serving args t"
| registered: "serving args s \<Longrightarrow> register_client pr f a s = Ok (p, t) \<Longrightarrow> serving args t"
| received: "serving args s \<Longrightarrow> read_msg pr f a r zero_msg s = Ok (k, b, m, t) \<Longrightarrow> serving args t"
| processed: "serving args s \<Longrightarrow> received_msg m \<Longrightarrow> process_msg p m s = Ok t \<Longrightarrow> serving args t"
| socket: "serving args s \<Longrightarrow> process_msg_sock f s = Ok t \<Longrightarrow> serving args t"

lemma serving_roles: "serving args s \<Longrightarrow> roles s"
proof (induction rule: serving.induct)
  case (between s)
  then show ?case by (rule reachable_roles)
next
  case (accepted s pr a rc f b t)
  then show ?case using roles.I_accept [of s pr a] by simp
next
  case (registered s pr f a p t)
  then show ?case using ends_OkD [OF roles.register_client_I [of s pr f a]] by fastforce
next
  case (received s pr f a r k b m t)
  then show ?case using ends_OkD [OF roles.read_msg_I [of s pr f a r]] by fastforce
next
  case (processed s m p t)
  then show ?case using ends_OkD [OF process_msg_roles] by blast
next
  case (socket s f t)
  then show ?case using ends_OkD [OF roles.process_msg_sock_I] by blast
qed (simp add: roles_iff)

text \<open>The members of a channel: whoever is in the channel of an open client is open.\<close>

lemma audience_open:
  assumes "roles s" and "n \<in> set (clients s)" and "c_state (n_data n) = s_op" and "c \<in> set (audience n (clients s))"
  shows "c \<in> n_data ` set (clients s) \<and> c_state c = s_op \<and> c_channel_id c = c_channel_id (n_data n)"
proof -
  have c: "c \<in> n_data ` set (clients s)" "c_state c \<noteq> s_en" "c_channel_id c = c_channel_id (n_data n)"
    using assms(4) by (auto simp: audience_def)
  have "in_channel (n_data n)" "role c" using assms(1-3) c(1) by (auto simp: roles_iff role.simps)
  with c show ?thesis using c_channel_empty [of c] c_channel_empty [of "n_data n"]
    by (auto simp: role.simps split: fsm_state_t.splits)
qed

lemma deliveries_to:
  "deliveries m cnt cs = Ok ws \<Longrightarrow> (f, a, b) \<in> set ws \<Longrightarrow> \<exists>c \<in> set cs. c_sockfd c = f \<and> c_addr c = a"
proof (induction cs arbitrary: cnt ws)
  case (Cons c cs)
  then obtain x vs where vs: "deliveries m (cnt + 1) cs = Ok vs" "ws = (c_sockfd c, c_addr c, x) # vs"
    by (auto simp: andthen_Ok_iff)
  with Cons.prems(2) Cons.IH [OF vs(1)] show ?case by auto
qed simp

text \<open>Where something may be sent that a client says: to the open clients of its channel.\<close>

definition confined :: "server \<Rightarrow> client_t node \<Rightarrow> (int \<times> sockaddr_in \<times> bytes) list \<Rightarrow> bool" where
  "confined s n ws \<longleftrightarrow> (\<forall>(f, a, b) \<in> set ws. \<exists>k \<in> set (clients s). c_sockfd (n_data k) = f \<and>
     c_addr (n_data k) = a \<and> c_state (n_data k) = s_op \<and> c_channel_id (n_data k) = c_channel_id (n_data n))"

lemma says_confined:
  assumes wf: "wf_server s" "quiet s" "roles s" and n: "n \<in> set (clients s)" "c_state (n_data n) = s_op"
    and run: "\<not> stop_flag s" and m: "msg_type m = e_msg" and ack: "acknowledge (Some (n_ptr n)) m s0 = Ok (False, s)"
  shows "ends only_overflow (process_msg (Some (n_ptr n)) m s0) (\<lambda>t. \<exists>ws. wire (os t) = wire (os s) @ ws \<and> confined s n ws)"
proof -
  let ?s = "s\<lparr>clients := ql_map (n_ptr n) (renamed m) (clients s)\<rparr>"
  note p = process_MSG [OF wf(1) n run m ack]
  show ?thesis
  proof (cases "deliveries m (msg_cnt s) (audience n (clients s))")
    case (Ok ws)
    with forward_renamed [OF wf(1,2) n(1), of m] obtain t where
      t: "forward_msg_channel (Some (n_ptr n)) m ?s = Ok t" "calm ?s t" "wire (os t) = wire (os s) @ ws" by auto
    have "confined s n ws"
      using deliveries_to [OF Ok] audience_open [OF wf(3) n] by (fastforce simp: confined_def)
    moreover have "n\<lparr>n_data := renamed m (n_data n)\<rparr> \<in> set (clients t)"
      using ql_map_member [OF n(1)] calmD(3) [OF t(2)] by simp
    from msg_tail_ok [OF calmD(1) [OF t(2)] this] have "msg_tail (Some (n_ptr n)) t =
      Ok (t\<lparr>clients := ql_map (n_ptr n) (set_state s_op) (clients t)\<rparr>)" by simp
    ultimately show ?thesis using t(1,3) by (auto simp: p)
  next
    case (Fault e)
    with forward_renamed [OF wf(1,2) n(1), of m] deliveries_Fault [OF Fault] show ?thesis by (simp add: p)
  qed
qed
text \<open>
  The confirmation of a UDP message goes to its sender.  The count of its messages follows the name of
  the channel in memory, so the name must be shorter than its array.
\<close>

lemma confined_confirmed:
  assumes "wf_server s" and n: "n \<in> set (clients s)" "c_state (n_data n) = s_op"
    and ch: "length (c_channel_id (n_data n)) < 20" and u: "clients u = ql_map (n_ptr n) (confirm_record i) (clients s)"
    and ws: "confined u (n\<lparr>n_data := confirm_record i (n_data n)\<rparr>) ws"
  shows "confined s n ((c_sockfd (n_data n), c_addr (n_data n), b) # ws)"
proof -
  have same: "c_sockfd (confirm_record i c) = c_sockfd c \<and> c_addr (confirm_record i c) = c_addr c \<and>
      c_state (confirm_record i c) = c_state c" for c by (simp add: confirm_record_def)
  have chan: "c_channel_id (confirm_record i (n_data n)) = c_channel_id (n_data n)"
    using channel_heard [OF ch, of "c_addr (n_data n)" i] by (simp add: heard_def)
  have self: "k = n" if "k \<in> set (clients s)" "n_ptr k = n_ptr n" for k
    using that assms(1) n(1) by (auto simp: wf_server_def ptrs_def distinct_map dest: inj_onD)
  have orig: "\<exists>k \<in> set (clients s). c_sockfd (n_data k) = c_sockfd (n_data j) \<and> c_addr (n_data k) = c_addr (n_data j) \<and>
      c_state (n_data k) = c_state (n_data j) \<and> c_channel_id (n_data k) = c_channel_id (n_data j)"
    if j: "j \<in> set (clients u)" for j
  proof -
    obtain k where k: "k \<in> set (clients s)" "n_ptr j = n_ptr k"
      "n_data j = (if n_ptr k = n_ptr n then confirm_record i (n_data k) else n_data k)"
      using ql_map_node [of j "n_ptr n" "confirm_record i" "clients s"] j by (force simp: u)
    show ?thesis using k self [OF k(1)] chan by (intro bexI [of _ k]) (auto simp: same)
  qed
  have "confined s n ws" unfolding confined_def
  proof clarify
    fix f a b assume "(f, a, b) \<in> set ws"
    with ws obtain j where j: "j \<in> set (clients u)" "c_sockfd (n_data j) = f" "c_addr (n_data j) = a"
      "c_state (n_data j) = s_op" "c_channel_id (n_data j) = c_channel_id (n_data n)"
      by (auto simp: confined_def chan)
    from orig [OF j(1)] show "\<exists>k \<in> set (clients s). c_sockfd (n_data k) = f \<and> c_addr (n_data k) = a \<and>
        c_state (n_data k) = s_op \<and> c_channel_id (n_data k) = c_channel_id (n_data n)" unfolding j(2-5) .
  qed
  with n show ?thesis by (auto simp: confined_def)
qed

text \<open>
  C5. Channels are private, in every state in which the server handles something, whatever happened
  before: when a client in the open state sends a MSG, then everything that is sent while the message is
  processed goes to clients that are themselves in the open state and in the same channel.  (No send
  and no allocation fails meanwhile, and over UDP the name of the channel is shorter than its array.)
\<close>

theorem channel_private:
  assumes "serving args s" and wf: "wf_server s" "quiet s"
    and n: "n \<in> set (clients s)" "c_state (n_data n) = s_op" and m: "msg_type m = e_msg"
    and ch: "c_protocol (n_data n) = e_tcp \<or> length (c_channel_id (n_data n)) < 20"
  shows "ends only_overflow (process_msg (Some (n_ptr n)) m s) (\<lambda>t. \<exists>ws. wire (os t) = wire (os s) @ ws \<and>
     (\<forall>(f, a, b) \<in> set ws. \<exists>k \<in> set (clients s). c_sockfd (n_data k) = f \<and> c_addr (n_data k) = a \<and>
       c_state (n_data k) = s_op \<and> c_channel_id (n_data k) = c_channel_id (n_data n)))"
proof -
  have r: "roles s" by (rule serving_roles [OF assms(1)])
  let ?own = "\<lambda>b. (c_sockfd (n_data n), c_addr (n_data n), b)"
  have "ends only_overflow (process_msg (Some (n_ptr n)) m s)
      (\<lambda>t. \<exists>ws. wire (os t) = wire (os s) @ ws \<and> confined s n ws)"
  proof (cases "stop_flag s \<or> c_protocol (n_data n) = e_udp \<and> is_msg_confirmed (n_data n) (msg_id m)")
    case True
    have own: "confined s n []" "confined s n [?own b]" for b using n by (auto simp: confined_def)
    have "\<exists>t ws. process_msg (Some (n_ptr n)) m s = Ok t \<and> wire (os t) = wire (os s) @ ws \<and> confined s n ws"
    proof (cases "stop_flag s")
      case True
      moreover have "\<not> is_ending m" using m by (simp add: is_ending_def)
      ultimately obtain t where "process_msg (Some (n_ptr n)) m s = Ok t" "wire (os t) = wire (os s) @
          (if c_protocol (n_data n) = e_udp then [?own (confirm_bytes (msg_id m))] else [])"
        using stopping_ignores [OF wf n(1)] by blast
      with own show ?thesis by (cases "c_protocol (n_data n)") auto
    next
      case False
      with True process_duplicate [OF wf client_at_ok [OF wf(1) n(1)], of m] m own show ?thesis by simp
    qed
    then show ?thesis by auto
  next
    case False
    show ?thesis
    proof (cases "c_protocol (n_data n)")
      case e_tcp
      with False says_confined [OF wf r n _ m acknowledge_tcp] wf n show ?thesis by simp
    next
      case e_udp
      let ?u = "confirmed n m s" and ?n = "n\<lparr>n_data := confirm_record (msg_id m) (n_data n)\<rparr>"
      have ack: "acknowledge (Some (n_ptr n)) m s = Ok (False, ?u)"
        using acknowledge_udp [OF wf n(1) e_udp] False e_udp m by simp
      note u = confirmed_simps [OF wf n(1) e_udp, of m]
      have "roles ?u" using ends_OkD [OF acknowledge_roles [OF r] ack] by simp
      moreover have "?n \<in> set (clients ?u)" "c_state (n_data ?n) = s_op"
        using ql_map_member [OF n(1), of "n_ptr n" "confirm_record (msg_id m)"] n(2) by (simp_all add: u confirm_record_def)
      ultimately have "ends only_overflow (process_msg (Some (n_ptr n)) m s)
          (\<lambda>t. \<exists>ws. wire (os t) = wire (os ?u) @ ws \<and> confined ?u ?n ws)"
        using says_confined [of ?u ?n m s] u(1,2,3) False ack m by simp
      then show ?thesis
        by (rule ends_wp) (use confined_confirmed [OF wf(1) n _ u(4)] e_udp ch u(7) in fastforce)
    qed
  qed
  then show ?thesis by (simp add: confined_def)
qed

section \<open>Clients that were never authorized\<close>





text \<open>No buffered message was sent again more often than the settings allow.\<close>

lemma retries_bounded:
  assumes "reachable args s" and "n \<in> set (msg_out_buf s)"
  shows "retry_count (n_data n) \<le> udp_retransmissions (argv s)"
proof -
  have "retries_ok s"
    by (rule retries.reachable_I [OF assms(1)]) (simp add: retries_ok_def main_init_empty)
  then show ?thesis using assms(2) by (simp add: retries_ok_def)
qed

section \<open>Runs\<close>

text \<open>Two clients connect over TCP and are authorized in the same round.\<close>

fun rounds :: "poll_event list \<Rightarrow> server \<Rightarrow> server res" where
  "rounds [] s = Ok s"
| "rounds (ev # evs) s = (if exited s = None then andthen (main_iter ev s) (rounds evs) else Ok s)"

lemma rounds_reachable: "rounds evs s = Ok t \<Longrightarrow> reachable args s \<Longrightarrow> reachable args t"
proof (induction evs arbitrary: s)
  case (Cons ev evs)
  show ?case
  proof (cases "exited s")
    case None
    with Cons.prems(1) obtain u where u: "main_iter ev s = Ok u" "rounds evs u = Ok t"
      by (auto simp: andthen_Ok_iff)
    have "reachable args u" by (rule reachable.step [OF Cons.prems(2) main_step.round [OF None u(1)]])
    with u(2) show ?thesis by (rule Cons.IH)
  qed (use Cons.prems in simp)
qed simp

definition chat_os :: os_t where
  "chat_os = calm_os\<lparr>new_socks := [3, 4], new_conns := [(5, demo_addr 5), (6, demo_addr 6)],
     inbox := (\<lambda>f. if f = 5 then [(tcp_wire (Auth ''ann'' ''Ann'' ''x''), demo_addr 5)]
       else if f = 6 then [(tcp_wire (Auth ''bob'' ''Bob'' ''y''), demo_addr 6)] else [])\<rparr>"

definition chat_run :: "server res" where
  "chat_run = andthen (main_init [] chat_os)
     (rounds [Ready [True], Ready [True], Ready [False, False, True, True]])"

text \<open>The same run up to the connections: two clients that wait.\<close>

definition wait_run :: "server res" where
  "wait_run = andthen (main_init [] chat_os) (rounds [Ready [True], Ready [True]])"

lemma run_reachable: "andthen (main_init args sys) (rounds evs) = Ok s \<Longrightarrow> reachable args s"
  by (auto simp: andthen_Ok_iff simp del: rounds.simps intro: rounds_reachable reachable.start)

text \<open>What the theorems ask of such a state.\<close>

definition snapshot :: "server \<Rightarrow> bool \<times> (nat list \<times> id_t list \<times> int list) \<times> (nat \<times> int) \<times>
    (fsm_state_t \<times> transport_protocol_t \<times> int) list" where
  "snapshot s = (poll_ok (poll s) \<and> quiet s \<and> msg_out_buf s = [],
     (ptrs (clients s), ids (clients s), fds (clients s)), (next_addr s, sockfd_udp_welcome s),
     map (\<lambda>n. (c_state (n_data n), c_protocol (n_data n), c_sockfd (n_data n))) (clients s))"

lemma snapshots:
  "andthen chat_run (\<lambda>s. Ok (snapshot s, unat (client_cnt s))) =
     Ok ((True, ([1, 2], [0, 1], [5, 6]), (3, 4), [(s_op, e_tcp, 5), (s_op, e_tcp, 6)]), 2)"
  "andthen wait_run (\<lambda>s. Ok (snapshot s, unat (client_cnt s))) =
     Ok ((True, ([1, 2], [0, 1], [5, 6]), (3, 4), [(s_ac, e_tcp, 5), (s_ac, e_tcp, 6)]), 2)"
  by code_simp+

lemma snapshot_shows:
  assumes "andthen r (\<lambda>s. Ok (snapshot s, unat (client_cnt s))) =
     Ok ((True, ([1, 2], [0, 1], [5, 6]), (3, 4), (st, pr, f) # ys), 2)"
  obtains s n where "r = Ok s" "wf_server s" "quiet s" "n \<in> set (clients s)" "c_state (n_data n) = st"
    "c_protocol (n_data n) = pr" "c_sockfd (n_data n) = f"
proof -
  obtain s where s: "r = Ok s" "snapshot s = (True, ([1, 2], [0, 1], [5, 6]), (3, 4), (st, pr, f) # ys)"
    "unat (client_cnt s) = 2" using assms by (auto simp: andthen_Ok_iff)
  then have "wf_server s" by (simp add: snapshot_def wf_server_def)
  moreover have "map (\<lambda>n. (c_state (n_data n), c_protocol (n_data n), c_sockfd (n_data n))) (clients s) = (st, pr, f) # ys"
    using s(2) by (simp add: snapshot_def)
  then obtain n q where "clients s = n # q" "c_state (n_data n) = st" "c_protocol (n_data n) = pr" "c_sockfd (n_data n) = f"
    by (auto simp: map_eq_Cons_conv)
  ultimately show ?thesis using that [of s n] s by (simp add: snapshot_def)
qed

lemma chat_ran:
  obtains s n where "chat_run = Ok s" "reachable [] s" "wf_server s" "quiet s" "n \<in> set (clients s)"
    "c_state (n_data n) = s_op" "c_protocol (n_data n) = e_tcp"
proof -
  obtain s n where s: "chat_run = Ok s" "wf_server s" "quiet s" "n \<in> set (clients s)" "c_state (n_data n) = s_op"
    "c_protocol (n_data n) = e_tcp" "c_sockfd (n_data n) = 5" by (rule snapshot_shows [OF snapshots(1)])
  have "reachable [] s" using s(1) unfolding chat_run_def by (rule run_reachable)
  from that [OF s(1) this s(2-6)] show ?thesis .
qed

theorem client_states_witness:
  "\<exists>s n. chat_run = Ok s \<and> n \<in> set (clients s) \<and> c_state (n_data n) = s_op \<and> c_channel_id (n_data n) \<noteq> []"
proof -
  obtain s n where "chat_run = Ok s" "reachable [] s" "n \<in> set (clients s)" "c_state (n_data n) = s_op"
    by (rule chat_ran)
  with client_states [of "[]" s n] show ?thesis by auto
qed


theorem channel_private_witness:
  "\<exists>s n. chat_run = Ok s \<and> n \<in> set (clients s) \<and>
     ends only_overflow (process_msg (Some (n_ptr n)) (fill (Msg ''Ann'' ''hello'') zero_msg) s)
       (\<lambda>t. \<exists>ws. wire (os t) = wire (os s) @ ws \<and> (\<forall>(f, a, b) \<in> set ws. \<exists>k \<in> set (clients s).
         c_sockfd (n_data k) = f \<and> c_state (n_data k) = s_op))"
proof -
  obtain s n where s: "chat_run = Ok s" "reachable [] s" "wf_server s" "quiet s" "n \<in> set (clients s)"
    "c_state (n_data n) = s_op" "c_protocol (n_data n) = e_tcp" by (rule chat_ran)
  have "ends only_overflow (process_msg (Some (n_ptr n)) (fill (Msg ''Ann'' ''hello'') zero_msg) s)
      (\<lambda>t. \<exists>ws. wire (os t) = wire (os s) @ ws \<and> (\<forall>(f, a, b) \<in> set ws. \<exists>k \<in> set (clients s).
        c_sockfd (n_data k) = f \<and> c_addr (n_data k) = a \<and> c_state (n_data k) = s_op \<and>
        c_channel_id (n_data k) = c_channel_id (n_data n)))"
    using serving.between [OF s(2)] s(3-7) by (intro channel_private) auto
  then have "ends only_overflow (process_msg (Some (n_ptr n)) (fill (Msg ''Ann'' ''hello'') zero_msg) s)
      (\<lambda>t. \<exists>ws. wire (os t) = wire (os s) @ ws \<and> (\<forall>(f, a, b) \<in> set ws. \<exists>k \<in> set (clients s).
        c_sockfd (n_data k) = f \<and> c_state (n_data k) = s_op))"
    by (rule ends_wp) fastforce
  with s(1,5) show ?thesis by blast
qed


end
