(* ===== verification/Fsm.thy ===== *)
theory Fsm
  imports Safety Demo
begin

text \<open>
  The state machine of a client.  The specification is a small machine over the five states and
  the types of messages; the theorem says that \<open>process_msg\<close> implements it, with everything it
  calls, and that it moves nobody but the sender.
\<close>

section \<open>The specification\<close>

text \<open>
  What a message does to its sender: it moves to a state, or the connection is closed.  \<open>b\<close> says
  whether a confirmation confirms a BYE of the server.
\<close>

datatype verdict = Goto fsm_state_t | Close

fun fsm :: "bool \<Rightarrow> msg_type_t \<Rightarrow> fsm_state_t \<Rightarrow> verdict" where
  "fsm b e_bye q = Close"
| "fsm b e_confirm q = (if b then Close else Goto q)"
| "fsm b t s_en = Goto s_en"
| "fsm b e_auth s_ac = Goto s_op"
| "fsm b e_auth s_au = Goto s_op"
| "fsm b t s_ac = Close"
| "fsm b t s_au = Close"
| "fsm b e_reply q = Close"
| "fsm b e_join q = Goto s_op"
| "fsm b e_msg q = Goto s_op"
| "fsm b t s_er = Close"
| "fsm b t q = Goto q"

text \<open>The state that is left: a closed TCP client is removed, a closed UDP client stays.\<close>

fun outcome :: "transport_protocol_t \<Rightarrow> verdict \<Rightarrow> fsm_state_t option" where
  "outcome pr (Goto q) = Some q"
| "outcome e_tcp Close = None"
| "outcome e_udp Close = Some s_en"

definition confirms_bye :: "msg_t \<Rightarrow> server \<Rightarrow> bool" where
  "confirms_bye m s \<longleftrightarrow> (case ql_get (confirm_ref_id (data m)) (msg_out_buf s) of None \<Rightarrow> False
     | Some a \<Rightarrow> (case ql_find a (msg_out_buf s) of None \<Rightarrow> False | Some k \<Rightarrow> msg_type (n_data k) = e_bye))"

text \<open>Duplicates, and during the shutdown everything but CONFIRM and BYE, are ignored.\<close>

definition ignored :: "client_t \<Rightarrow> msg_t \<Rightarrow> server \<Rightarrow> bool" where
  "ignored c m s \<longleftrightarrow> \<not> (msg_type m = e_confirm) \<and>
     (c_protocol c = e_udp \<and> is_msg_confirmed c (msg_id m) \<or> stop_flag s \<and> msg_type m \<noteq> e_bye)"

definition verdict_of :: "client_t \<Rightarrow> msg_t \<Rightarrow> server \<Rightarrow> verdict" where
  "verdict_of c m s = (if ignored c m s then Goto (c_state c)
     else fsm (confirms_bye m s) (msg_type m) (c_state c))"

text \<open>The abstraction of the server: the state of each client.\<close>

definition states :: "server \<Rightarrow> nat \<Rightarrow> fsm_state_t option" where
  "states s a = map_option (\<lambda>n. c_state (n_data n)) (ql_find a (clients s))"

section \<open>Tracking one client\<close>

definition here :: "nat \<Rightarrow> fsm_state_t \<Rightarrow> server \<Rightarrow> server \<Rightarrow> bool" where
  "here a q s0 s \<longleftrightarrow> level s0 s \<and> states s = (states s0)(a \<mapsto> q)"

lemma hereD: "here a q s0 s \<Longrightarrow> level s0 s"
  by (simp add: here_def)

lemma here_state: "here a q s0 s \<Longrightarrow> client_at (Some a) s = Ok c \<Longrightarrow> c_state c = q"
  by (auto simp: here_def states_def client_at_def ql_at_def fun_eq_iff andthen_Ok_iff split: option.splits
      dest!: spec [of _ a])

lemma read_here:
  "here a q s0 s \<Longrightarrow> present (Some a) s0 \<Longrightarrow>
     (\<And>c. client_at (Some a) s = Ok c \<Longrightarrow> c_state c = q \<Longrightarrow> Q c) \<Longrightarrow> ends F (client_at (Some a) s) Q"
  by (rule read_level [OF hereD]) (auto dest: here_state)

lemma states_buf [simp]: "states (s\<lparr>msg_out_buf := b\<rparr>) = states s"
  by (simp add: states_def fun_eq_iff)

lemma states_calm: "calm s t \<Longrightarrow> states t = states s"
  by (auto simp: states_def calm_def)

lemma states_map:
  "states (s\<lparr>clients := ql_map a f (clients s)\<rparr>) =
     (states s)(a := map_option (\<lambda>n. c_state (f (n_data n))) (ql_find a (clients s)))"
  by (auto simp: states_def ql_find_map fun_eq_iff option.map_comp comp_def)

lemma upd_here:
  assumes h: "here a q s0 s" and p: "present (Some a) s0"
    and f: "\<And>c. c_sockfd (f c) = c_sockfd c \<and> c_protocol (f c) = c_protocol c"
    and st: "\<And>c. c_state c = q \<Longrightarrow> c_state (f c) = q'"
  shows "ends F (upd_client (Some a) f s) (here a q' s0)"
proof -
  have u: "ends F (upd_client (Some a) f s) (level s0)" using upd_client_level [OF hereD [OF h] p f] .
  obtain n where n: "n \<in> set (clients s)" "n_ptr n = a"
    using level_present [OF hereD [OF h] p] by (auto simp: present_def)
  have w: "wf_server s" using levelD [OF hereD [OF h]] by simp
  have e: "upd_client (Some a) f s = Ok (s\<lparr>clients := ql_map a f (clients s)\<rparr>)"
    using w n by (auto simp: upd_client_def ql_upd_def ql_at_mem wf_server_def)
  have fd: "ql_find a (clients s) = Some n" using w n by (auto simp: wf_server_def ql_find_distinct)
  have "c_state (n_data n) = q" using here_state [OF h, of "n_data n"] client_at_ok [OF w n(1)] n(2) by simp
  then show ?thesis using u h st fd unfolding e
    by (auto simp: here_def states_map)
qed


lemma ql_find_filter: "ql_find b (filter (\<lambda>m. n_ptr m \<noteq> a) q) = (if b = a then None else ql_find b q)"
  by (induction q) auto

lemma close_here:
  assumes h: "here (n_ptr n) q s0 s" and n: "n \<in> set (clients s0)"
  shows "ends F (close_client (Some (n_ptr n)) s)
     (\<lambda>t. states t = (states s0)(n_ptr n := outcome (c_protocol (n_data n)) Close))"
proof -
  let ?a = "n_ptr n"
  have "identity n \<in> set (map identity (clients s))" using h n by (simp add: here_def level_def)
  then obtain k where k: "k \<in> set (clients s)" "n_ptr k = ?a" "c_protocol (n_data k) = c_protocol (n_data n)"
    by (auto simp: identity_def)
  have w: "wf_server s" "quiet s" using levelD [OF hereD [OF h]] .
  have fd: "ql_find ?a (clients s) = Some k"
    using ql_find_distinct [OF k(1)] w(1) k(2) by (simp add: wf_server_def)
  have q: "c_state (n_data k) = q" using here_state [OF h] client_at_ok [OF w(1) k(1)] k(2) by simp
  have "states t = (states s)(?a := outcome (c_protocol (n_data n)) Close)"
    if "clients t = closed_clients k (clients s)" for t
    using that fd k q states_map [where s = s and a = ?a and f = to_end]
    by (cases "c_protocol (n_data n)")
       (auto simp: closed_clients_def states_def ql_find_filter ends_to_end fun_eq_iff ql_find_map)
  then have "states t = (states s0)(?a := outcome (c_protocol (n_data n)) Close)"
    if "clients t = closed_clients k (clients s)" for t
    using that h by (simp add: here_def)
  with close_client_safe [OF w k(1), of F] k(2) show ?thesis by (auto elim!: ends_wp)
qed

lemma calm_here: "ends F r (calm s) \<Longrightarrow> here a q s0 s \<Longrightarrow> ends F r (here a q s0)"
  by (erule ends_wp) (auto simp: here_def states_calm intro: level_trans calm_level)

lemma send_here:
  assumes "here a q s0 s" and "client_at p s = Ok c" and "pr = c_protocol c"
  shows "may_send F m \<Longrightarrow> ends F (send_msg pr (c_sockfd c) (c_addr c) m r s) (here a q s0)"
    and "length e < 1400 \<Longrightarrow> ends F (send_error pr (c_sockfd c) (c_addr c) e s) (here a q s0)"
  unfolding send_error_def assms(3)
  by (rule calm_here [OF send_client_calm [OF levelD [OF hereD [OF assms(1)]] assms(2)] assms(1)];
      simp add: fits_error)+

lemma notify_here:
  assumes "here a q s0 s" and "present p s0"
  shows "may_send F m \<Longrightarrow> ends F (forward_msg_channel p m s) (here a q s0)"
    and "ends F (notify_join p s) (here a q s0)"
    and "ends F (notify_leave p s) (here a q s0)"
proof -
  note l = hereD [OF assms(1)]
  from present_client_at [OF levelD(1) level_present, OF l l assms(2)] obtain c where "client_at p s = Ok c" by blast
  note f = forward_calm [OF levelD [OF l] this]
  show "may_send F m \<Longrightarrow> ends F (forward_msg_channel p m s) (here a q s0)"
    "ends F (notify_join p s) (here a q s0)" "ends F (notify_leave p s) (here a q s0)"
    using calm_here [OF f(1) assms(1)] calm_here [OF f(2) assms(1)] calm_here [OF f(3) assms(1)] by auto
qed

lemma set_state_state [simp]: "c_state (set_state q c) = q"
  by (simp add: set_state_def)

lemma names_state [simp]:
  "c_state (set_username b c) = c_state c" "c_state (set_display_name b c) = c_state c"
  "c_state (set_channel_id b c) = c_state c" "c_state (confirm_record i c) = c_state c"
  by (simp_all add: set_username_def set_display_name_def set_channel_id_def confirm_record_def)

lemma upd_state_here:
  assumes "here a q s0 s" and "present (Some a) s0"
  shows "ends F (upd_client (Some a) (set_state q') s) (here a q' s0)"
    and "ends F (upd_client (Some a) to_end s) (here a s_en s0)"
  by (rule upd_here [OF assms]; simp add: ends_to_end)+

lemma upd_names_here:
  assumes "here a q s0 s" and "present (Some a) s0"
  shows "ends F (upd_client (Some a) (set_display_name x) s) (here a q s0)"
    and "ends F (upd_client (Some a) (confirm_record i) s) (here a q s0)"
    and "ends F (upd_client (Some a) (\<lambda>c. set_display_name x (set_channel_id y c)) s) (here a q s0)"
    and "ends F (upd_client (Some a) (\<lambda>c. set_channel_id x (set_display_name y (set_username z c))) s) (here a q s0)"
  by (rule upd_here [OF assms]; simp)+

lemmas here_wp =
  read_here upd_state_here [THEN ends_wp] upd_names_here [THEN ends_wp]
  send_here [THEN ends_wp] notify_here [THEN ends_wp]

section \<open>The handlers\<close>

lemma check_state_here:
  "here a q s0 s \<Longrightarrow> present (Some a) s0 \<Longrightarrow>
     ends F (check_state_transition (Some a) m s) (\<lambda>(b, t). here a q s0 t \<and>
       (b \<longleftrightarrow> \<not> (q \<in> {s_ac, s_au} \<and> msg_type m \<notin> {e_confirm, e_auth, e_bye}) \<and>
         \<not> (q = s_en \<and> msg_type m \<notin> {e_bye, e_confirm})))"
  by (auto simp: check_state_transition_def intro!: here_wp)

lemma exec_auth_here:
  "here a q s0 s \<Longrightarrow> present (Some a) s0 \<Longrightarrow> ends F (exec_auth (Some a) m out s)
     (\<lambda>(o1, t). here a (if q \<in> {s_op, s_er} then q else s_op) s0 t)"
  by (auto simp: exec_auth_def Let_def intro!: here_wp)

lemma exec_join_here:
  "here a q s0 s \<Longrightarrow> present (Some a) s0 \<Longrightarrow> ends F (exec_join (Some a) m out s) (\<lambda>(o1, t). here a s_op s0 t)"
  by (auto simp: exec_join_def Let_def intro!: here_wp)

lemma exec_msg_here:
  "here a q s0 s \<Longrightarrow> present (Some a) s0 \<Longrightarrow> ends only_overflow (exec_msg (Some a) m s)
     (\<lambda>(o1, t). here a s_op s0 t)"
  by (auto simp: exec_msg_def Let_def intro!: here_wp)


lemma exec_confirm_here:
  assumes h: "here (n_ptr n) q s0 s" and n: "n \<in> set (clients s0)"
  shows "ends F (exec_confirm (Some (n_ptr n)) m s) (\<lambda>t. states t = (states s0)(n_ptr n :=
     outcome (c_protocol (n_data n)) (if confirms_bye m s then Close else Goto q)))"
proof (cases "ql_get (confirm_ref_id (data m)) (msg_out_buf s)")
  case None
  with h show ?thesis by (simp add: exec_confirm_def confirms_bye_def here_def)
next
  case (Some x)
  let ?t = "s\<lparr>msg_out_buf := snd (ql_remove (confirm_ref_id (data m)) (msg_out_buf s))\<rparr>"
  have d: "distinct (ptrs (msg_out_buf s))" using levelD(1) [OF hereD [OF h]] by (simp add: wf_server_def)
  from ql_get_SomeD [OF Some] obtain k where k: "k \<in> set (msg_out_buf s)" "n_ptr k = x" by auto
  have "ql_find x (msg_out_buf s) = Some k" using ql_find_distinct [OF k(1) d] k(2) by simp
  with Some have b: "confirms_bye m s \<longleftrightarrow> msg_type (n_data k) = e_bye" by (simp add: confirms_bye_def)
  have t: "here (n_ptr n) q s0 ?t"
    using h remove_msg_level [OF hereD [OF h] set_ql_remove distinct_ql_remove [OF d]]
    by (simp add: here_def)
  with exec_confirm_eq [OF d _ k(1), of m "Some (n_ptr n)"] Some k(2) b close_here [OF t n, of F] show ?thesis
    by (simp add: here_def)
qed

lemma exec_bye_here:
  assumes h: "here (n_ptr n) q s0 s" and n: "n \<in> set (clients s0)"
  shows "ends F (exec_bye (Some (n_ptr n)) s)
     (\<lambda>t. states t = (states s0)(n_ptr n := outcome (c_protocol (n_data n)) Close))"
proof -
  have "present (Some (n_ptr n)) s0" using n by (auto simp: present_def)
  with h show ?thesis by (auto simp: exec_bye_def intro!: here_wp close_here [OF _ n])
qed

text \<open>The state between execution and the closing of clients in the error state.\<close>

definition after_exec :: "msg_type_t \<Rightarrow> fsm_state_t \<Rightarrow> fsm_state_t" where
  "after_exec t q = (if q \<in> {s_ac, s_au} \<and> t \<noteq> e_auth then s_er
     else case t of e_reply \<Rightarrow> s_er | e_join \<Rightarrow> s_op | e_msg \<Rightarrow> s_op
       | e_auth \<Rightarrow> if q \<in> {s_op, s_er} then q else s_op | _ \<Rightarrow> q)"

lemma execute_msg_here:
  assumes "here a q s0 s" and "present (Some a) s0" and "\<not> is_ending m"
    and "\<not> (q \<in> {s_ac, s_au} \<and> msg_type m \<noteq> e_auth)"
  shows "ends only_overflow (execute_msg (Some a) m out s) (\<lambda>(b, o1, t). here a (after_exec (msg_type m) q) s0 t)"
  using assms
  by (cases "msg_type m")
     (auto simp: execute_msg_def is_ending_def after_exec_def intro!: here_wp
       exec_auth_here [THEN ends_wp] exec_join_here [THEN ends_wp] exec_msg_here [THEN ends_wp])

lemma check_execute_here:
  assumes h: "here a q s0 s" and p: "present (Some a) s0" and e: "\<not> is_ending m" and q: "q \<noteq> s_en"
  shows "ends only_overflow (check_execute (Some a) m s) (here a (after_exec (msg_type m) q) s0)"
proof -
  let ?q = "after_exec (msg_type m) q"
  have run: "ends only_overflow (andthen (execute_msg (Some a) m zero_msg t) (\<lambda>(answer, msg_out, s2).
      if answer then andthen (client_at (Some a) s2) (\<lambda>c.
        send_msg (c_protocol c) (c_sockfd c) (c_addr c) msg_out False s2) else Ok s2)) (here a ?q s0)"
    if "here a q s0 t" "\<not> (q \<in> {s_ac, s_au} \<and> msg_type m \<noteq> e_auth)" for t
    using p by (auto intro!: ends_wp [OF execute_msg_here [OF that(1) p e that(2)]] here_wp)
  have refuse: "ends only_overflow (upd_client (Some a) (set_state s_er) t) (here a ?q s0)"
    if "here a q s0 t" "q \<in> {s_ac, s_au} \<and> msg_type m \<noteq> e_auth" for t
    using upd_state_here(1) [OF that(1) p, of only_overflow s_er] that(2) by (simp add: after_exec_def)
  show ?thesis
    unfolding check_execute_def ends_simps(3) [of _ "check_state_transition (Some a) m s"]
    by (rule ends_wp [OF check_state_here [OF h p]])
       (use run refuse e q in \<open>auto simp: is_ending_def simp del: ends_simps(3)\<close>)
qed


lemma acknowledge_here:
  assumes wf: "wf_server s" "quiet s" and n: "n \<in> set (clients s)"
  shows "ends F (acknowledge (Some (n_ptr n)) m s) (\<lambda>(d, t). here (n_ptr n) (c_state (n_data n)) s t \<and>
     (d \<longleftrightarrow> c_protocol (n_data n) = e_udp \<and> msg_type m \<noteq> e_confirm \<and> is_msg_confirmed (n_data n) (msg_id m)) \<and>
     (msg_type m = e_confirm \<longrightarrow> t = s))"
proof -
  let ?p = "Some (n_ptr n)" and ?c = "n_data n"
  have at: "client_at ?p s = Ok ?c" using client_at_ok [OF wf(1) n] .
  have p: "present ?p s" using n by (auto simp: present_def)
  have "states s (n_ptr n) = Some (c_state ?c)"
    using n wf(1) by (simp add: states_def ql_find_distinct wf_server_def)
  then have h: "here (n_ptr n) (c_state ?c) s s" using level_refl [OF wf] by (auto simp: here_def)
  have sent: "ends F (send_msg e_udp (c_sockfd ?c) (c_addr ?c) (confirm_msg (msg_id m)) False s)
      (\<lambda>t. here (n_ptr n) (c_state ?c) s t \<and> client_at ?p t = Ok ?c)" if "c_protocol ?c = e_udp"
    using send_client_calm [OF wf at, of F "confirm_msg (msg_id m)" False] unfolding that
    by (rule ends_wp)
       (use h at in \<open>auto simp: here_def states_calm calm_level client_at_def calm_def [of s]\<close>)
  show ?thesis
    unfolding acknowledge_def using at h p
    by (auto intro!: ends_wp [OF sent] upd_names_here(2) [THEN ends_wp])
qed

lemma after_exec_fsm:
  assumes "msg_type m \<noteq> e_confirm" and "msg_type m \<noteq> e_bye" and "q \<noteq> s_en"
  shows "fsm b (msg_type m) q = (if after_exec (msg_type m) q = s_er then Close else Goto (after_exec (msg_type m) q))"
  using assms by (cases "msg_type m"; cases q) (simp_all add: after_exec_def)

text \<open>After the acknowledgement: the message is executed.\<close>

lemma process_rest:
  assumes h: "here (n_ptr n) q s0 t" and n: "n \<in> set (clients s0)" and e: "\<not> is_ending m" and q: "q \<noteq> s_en"
  shows "ends only_overflow (andthen (check_execute (Some (n_ptr n)) m t) (\<lambda>s2.
      andthen (client_at (Some (n_ptr n)) s2) (\<lambda>c2. if c_state c2 = s_er
        then andthen (upd_client (Some (n_ptr n)) to_end s2) (close_client (Some (n_ptr n))) else Ok s2)))
     (\<lambda>t. states t = (states s0)(n_ptr n := outcome (c_protocol (n_data n)) (fsm b (msg_type m) q)))"
proof -
  let ?q = "after_exec (msg_type m) q"
  have p: "present (Some (n_ptr n)) s0" using n by (auto simp: present_def)
  have v: "fsm b (msg_type m) q = (if ?q = s_er then Close else Goto ?q)"
    using e q by (intro after_exec_fsm) (auto simp: is_ending_def)
  have "ends only_overflow (andthen (client_at (Some (n_ptr n)) u) (\<lambda>c2. if c_state c2 = s_er
        then andthen (upd_client (Some (n_ptr n)) to_end u) (close_client (Some (n_ptr n))) else Ok u))
      (\<lambda>t. states t = (states s0)(n_ptr n := outcome (c_protocol (n_data n)) (fsm b (msg_type m) q)))"
    if "here (n_ptr n) ?q s0 u" for u
  proof (cases "?q = s_er")
    case True
    with that p show ?thesis unfolding v
      by (auto intro!: read_here [OF that p] ends_wp [OF upd_state_here(2) [OF that p]] close_here [OF _ n])
  next
    case False
    have "states u = (states s0)(n_ptr n \<mapsto> ?q)" using that by (simp add: here_def)
    with False show ?thesis unfolding v by (auto intro!: read_here [OF that p])
  qed
  then show ?thesis unfolding ends_simps(3) [of _ "check_execute (Some (n_ptr n)) m t"]
    by (intro ends_wp [OF check_execute_here [OF h p e q]])
qed

lemma process_ending:
  assumes h: "here (n_ptr n) q s0 t" and n: "n \<in> set (clients s0)" and e: "is_ending m"
    and t: "msg_type m = e_confirm \<Longrightarrow> t = s0"
  shows "ends F (check_execute (Some (n_ptr n)) m t) (\<lambda>t. states t = (states s0)(n_ptr n :=
     outcome (c_protocol (n_data n)) (fsm (confirms_bye m s0) (msg_type m) q)))"
proof (cases "msg_type m = e_confirm")
  case True
  obtain c where "client_at (Some (n_ptr n)) t = Ok c"
    using read_here [OF h, of "\<lambda>c. True" "{}"] n
    by (cases "client_at (Some (n_ptr n)) t") (auto simp: present_def)
  with True t exec_confirm_here [OF h n, of F m] show ?thesis
    by (simp add: check_execute_def check_state_transition_def execute_msg_def)
next
  case False
  then have b: "msg_type m = e_bye" using e by (simp add: is_ending_def)
  have p: "present (Some (n_ptr n)) s0" using n by (auto simp: present_def)
  show ?thesis unfolding check_execute_def ends_simps(3) [of _ "check_state_transition (Some (n_ptr n)) m t"]
    by (rule ends_wp [OF check_state_here [OF h p]])
       (use b in \<open>auto simp: execute_msg_def intro!: exec_bye_here [OF _ n, THEN ends_wp]\<close>)
qed


lemma fsm_end: "msg_type m \<noteq> e_confirm \<Longrightarrow> msg_type m \<noteq> e_bye \<Longrightarrow> fsm b (msg_type m) s_en = Goto s_en"
  by (cases "msg_type m") simp_all

lemma process_msg_states:
  assumes wf: "wf_server s" "quiet s" and n: "n \<in> set (clients s)"
  shows "ends only_overflow (process_msg (Some (n_ptr n)) m s) (\<lambda>t. states t = (states s)(n_ptr n :=
     outcome (c_protocol (n_data n)) (verdict_of (n_data n) m s)))"
proof -
  let ?p = "Some (n_ptr n)" and ?c = "n_data n" and ?q = "c_state (n_data n)"
  let ?P = "\<lambda>t. states t = (states s)(n_ptr n := outcome (c_protocol ?c) (verdict_of ?c m s))"
  let ?dup = "c_protocol ?c = e_udp \<and> msg_type m \<noteq> e_confirm \<and> is_msg_confirmed ?c (msg_id m)"
  have p: "present ?p s" using n by (auto simp: present_def)
  have stay: "?P t" if "here (n_ptr n) ?q s t" "verdict_of ?c m s = Goto ?q" for t
    using that by (simp add: here_def)
  have exec: "ends only_overflow (andthen (check_execute ?p m t) (\<lambda>s2. if is_ending m then Ok s2
      else andthen (client_at ?p s2) (\<lambda>c2. if c_state c2 = s_er
        then andthen (upd_client ?p to_end s2) (close_client ?p) else Ok s2))) ?P"
    if t: "here (n_ptr n) ?q s t" "msg_type m = e_confirm \<longrightarrow> t = s" "\<not> ?dup"
      "\<not> (stop_flag t \<and> \<not> is_ending m)" "\<not> (?q = s_en \<and> \<not> is_ending m)" for t
  proof -
    have "stop_flag t = stop_flag s" using t(1) by (simp add: here_def level_def shrinks_def)
    with t(3,4) have v: "verdict_of ?c m s = fsm (confirms_bye m s) (msg_type m) ?q"
      by (auto simp: verdict_of_def ignored_def is_ending_def)
    show ?thesis unfolding v
      using process_rest [OF t(1) n, of m "confirms_bye m s"] process_ending [OF t(1) n, of m only_overflow] t(2,5)
      by (cases "is_ending m") (simp_all del: ends_simps(3))
  qed
  have "ends only_overflow (if d then Ok t else if stop_flag t \<and> \<not> is_ending m then Ok t
      else andthen (client_at ?p t) (\<lambda>c. if c_state c = s_en \<and> \<not> is_ending m then Ok t
        else andthen (check_execute ?p m t) (\<lambda>s2. if is_ending m then Ok s2
          else andthen (client_at ?p s2) (\<lambda>c2. if c_state c2 = s_er
            then andthen (upd_client ?p to_end s2) (close_client ?p) else Ok s2)))) ?P"
    if t: "here (n_ptr n) ?q s t" "d \<longleftrightarrow> ?dup" "msg_type m = e_confirm \<longrightarrow> t = s" for d t
  proof -
    have sf: "stop_flag t = stop_flag s" using t(1) by (simp add: here_def level_def shrinks_def)
    have "?P t" if "d \<or> stop_flag t \<and> \<not> is_ending m \<or> ?q = s_en \<and> \<not> is_ending m"
      using that t(2) sf fsm_end [of m] by (intro stay [OF t(1)]) (auto simp: verdict_of_def ignored_def is_ending_def)
    with exec [OF t(1,3)] t(2) show ?thesis
      by (auto simp del: ends_simps(3) simp: ends_simps(3) [of _ "client_at ?p t"] intro!: read_here [OF t(1) p])
  qed
  then show ?thesis
    unfolding process_msg_def ends_simps(3) [of _ "acknowledge ?p m s"]
    by (intro ends_wp [OF acknowledge_here [OF wf n]]) (auto simp del: ends_simps(3))
qed

text \<open>
  C4. Handling a message that fits returns normally, moves the sender as the machine says and
  leaves every other client where it was; a closed TCP client is gone, a closed UDP client is in
  the end state (no send and no allocation fails).
\<close>

theorem process_msg_refines_fsm:
  assumes "wf_server s" and "quiet s" and "n \<in> set (clients s)" and "msg_type m = e_msg \<Longrightarrow> fits m"
  shows "\<exists>t. process_msg (Some (n_ptr n)) m s = Ok t \<and> states t = (states s)(n_ptr n :=
     outcome (c_protocol (n_data n)) (verdict_of (n_data n) m s))"
proof -
  have "ends {} (process_msg (Some (n_ptr n)) m s) (shrinks s)"
    using assms by (intro process_msg_safe level_refl) (auto simp: present_def)
  with process_msg_states [OF assms(1-3), of m] show ?thesis
    by (cases "process_msg (Some (n_ptr n)) m s") simp_all
qed

theorem process_msg_refines_fsm_witness:
  "\<exists>t. process_msg (Some 4) (zero_msg\<lparr>msg_type := e_auth\<rparr>) demo_server = Ok t \<and>
     states t = (states demo_server)(4 \<mapsto> s_op)"
  using process_msg_refines_fsm [OF demo_wf demo_quiet, of dan "zero_msg\<lparr>msg_type := e_auth\<rparr>"]
  by (simp add: verdict_of_def ignored_def dan_def new_client_def)

end
