(* ===== verification/Spec2Isabelle.thy ===== *)
theory Spec2Isabelle
  imports Queue_Heap Mixed_Run Roles Fsm
begin

text \<open>
  \<^bold>\<open>The IPK24 chat server\<close> (src/src, C).  The server accepts clients over TCP and UDP, authorizes
  them, lets them join channels and forwards their messages; UDP messages are confirmed and sent
  again until they are.  It is one process with one loop around \<open>poll\<close>.

  \<^bold>\<open>Parts and theories\<close>

  \<^item> \<open>Prelude\<close>: outcomes of C calls (\<open>res\<close>: a value, or a fault for undefined behaviour), the triple
    \<open>ends F r P\<close> about them, and zero-filled byte buffers with C strings.
  \<^item> \<open>Regex\<close>: the POSIX basic regular expressions that types.c and parse.c hand to \<open>regexec\<close>: the
    matcher \<open>rmatch\<close>, its language \<open>rlang\<close>, and that they agree.  Without REG_NEWLINE a dot matches
    every character and the anchors match the ends of the text only.
  \<^item> \<open>Types\<close>, \<open>Errors\<close>: types.h, types.c, error.h, error.c.  Structs are records and enums datatypes.
    The union \<open>msg_data_t\<close> and the three name arrays of \<open>client_t\<close> are kept as bytes, because an array
    that is filled to its last byte has no terminator and is read on into its neighbour.
  \<^item> \<open>Parse\<close>, \<open>Compose\<close>: parse.c, compose.c.  \<open>Codec\<close> has the grammar of the README as an abstract
    specification (\<open>grammar\<close> with \<open>tcp_wire\<close>, the literals in capitals; \<open>abnf_line\<close>, the literals in any
    case, as ABNF has it) and the proof that the two implement the former.
  \<^item> \<open>Argv\<close>: argv.c.
  \<^item> \<open>Queue_Heap\<close>: queue.c over an explicit heap of cells.  \<open>Queue_List\<close>: the lists of items that the
    heap implements (locale \<open>queue_impl\<close>); main.c and utils.c are modelled over these lists, a
    pointer being the address of an item.
  \<^item> \<open>Utils\<close>: utils.c, with the ring buffer of confirmed ids (locale \<open>dedup_window\<close>).
  \<^item> \<open>Server\<close>: the globals as the record \<open>server\<close>, and server.c over an explicit operating system
    \<open>os\<close>: what it will answer, and what was sent, closed and logged.
  \<^item> \<open>Chat\<close>: main.c from \<open>delete_client\<close> to \<open>udp_polling\<close>.  \<open>Main_Loop\<close>: \<open>udp_timeout\<close>, \<open>sigint_handler\<close>,
    \<open>stop\<close>, \<open>main\<close>, and runs of the program (\<open>main_step\<close>, \<open>reachable\<close>).
  \<^item> \<open>State_Rel\<close>: the locales for properties that the functions of main.c keep, each with the laws it
    needs and the handlers proved once from them: \<open>own_inv\<close> (what is sent to a client on its own
    descriptor, closing, deleting), \<open>client_inv\<close> (a message is processed), \<open>socket_inv\<close> (a readable
    descriptor); \<open>sender_inv\<close>, \<open>handler_inv\<close>, \<open>main_inv\<close> and \<open>run_inv\<close> for properties that hold whatever
    the operating system answers; \<open>update_inv\<close>, \<open>state_inv\<close> and \<open>loop_inv\<close> are simpler sets of laws.  They are
    connected by \<open>sublocale\<close>.  Interpretations: settings are constant, history only grows, retries are
    bounded, a server with TCP clients keeps nothing for retransmission; \<open>input_ok\<close> in \<open>Safety_Loop\<close>;
    \<open>roles\<close> in \<open>Roles\<close>; \<open>owned\<close> in \<open>Owned\<close>.
  \<^item> \<open>Poll_Inv\<close>, \<open>Sizes\<close>, \<open>Sending\<close>, \<open>Safety\<close>, \<open>Safety_Loop\<close>: the invariant \<open>wf_server\<close> and memory safety.
    The rules are stated for a set \<open>F\<close> of faults that are tolerated: with \<open>F = {}\<close> they give total
    correctness, for messages that fit into the send buffer.  \<open>Demo\<close>: a state on which theorems are
    applied.
  \<^item> \<open>Roles\<close>: the clients in all reachable states and between the calls inside a round (\<open>serving\<close>), and
    what this means for who hears whom.
  \<^item> \<open>Tcp_Run\<close>: whole runs of a server that only TCP clients use, without any fault, up to the exit.
  \<^item> \<open>Owned\<close>, \<open>Mixed_Run\<close>: every unconfirmed message waits for a client of the queue, and whole runs with
    TCP and UDP clients, without any fault, up to the exit.
  \<^item> \<open>Fsm\<close>: the state machine of a client as a specification, and that \<open>process_msg\<close> implements it.
  \<^item> \<open>Delivery\<close>: who receives what.  \<open>Journey\<close>: messages from the bytes on one socket to the bytes on
    the others, and which input cannot cause a fault.
  \<^item> \<open>Failures\<close>: what a failing send, a repeated client id or a channel name without terminator does.  \<open>Timeouts\<close>: retransmission and
    messages without a client.  \<open>Farewell\<close>: what the interrupt sends and what the shutdown then waits for.
    \<open>Shutdown\<close>: the exit once nothing is waiting.  \<open>Last_Rounds\<close>: what a round sends again, why nothing
    waits for ever, and how much is sent before the exit.

  \<^bold>\<open>How code becomes definitions\<close>

  A function of the code is a definition of the same name (\<open>udp_timeout\<close> is \<open>do_udp_timeout\<close>, since
  a field has that name); a function that changes globals takes and returns the record \<open>server\<close>.
  Result codes that no caller reads are dropped.  A loop is a function of its own: by recursion
  over the list it walks, with a measure, or, where it walks a queue by pointers while the body may
  change the queue, with fuel.  The fuel is the length of the queue plus one (for the loop of
  \<open>process_msg_sock\<close>, the number of receives that are pending on the descriptor plus one; for the loop
  over the poll list, the number of polled descriptors plus one); running out of it is the fault
  \<open>OutOfFuel\<close>, which the safety theorems exclude.  \<open>send_msg\<close> and \<open>close_client\<close> call each other; the
  recursion ends because every call of \<open>close_client\<close> that sends has first moved a client to the end
  state.  Words have the width of the C type, and wrap.

  \<^bold>\<open>What is shown\<close>

  \<^item> Total correctness of whole benign runs (no send or allocation fails, fresh descriptors, fewer than
    65535 connections) of a server that only TCP clients use: every round returns and keeps
    the invariant, whatever packets with terminated display names arrive, and the first interrupt ends the
    program.  The same for TCP and UDP clients together, as long as fewer than 65536 messages are sent (ids
    have 16 bits) and the datagrams on the welcome socket are messages from new addresses; the defects
    listed below show what happens otherwise.
  \<^item> Every reachable state, whatever the operating system answers: clients have consistent states and
    channels.  So what an authorized client says is sent to authorized clients of its channel only, and a
    client that leaves without authorization is announced to those that wait for theirs.
  \<^item> Retransmission: which messages an idle round sends again, and how many packets a server sends at
    most after its interrupt.
  \<^item> Memory safety of whole runs: as long as sends and allocations succeed, descriptors are fresh and
    fewer than 65535 clients have connected, no round dereferences NULL or a freed cell and every loop
    ends; the invariant holds in every state.
  \<^item> A message moves its sender as the state machine says, and nobody else.
  \<^item> Forwarding reaches exactly the members of the channel, and a line that arrives leaves as the same
    line; duplicates are confirmed and ignored; what clients that are not authorized say (BYE
    apart) reaches nobody; authorization; confirmation.
  \<^item> Handling a client's socket returns normally for every input whose display names are terminated,
    as long as sends succeed.
  \<^item> The interrupt sends BYE to exactly the active clients and closes them, and the program then ends
    even when no UDP client answers.  The bound is 65536 idle rounds for each transmission of a message:
    the 16-bit timer goes down in steps of 75 and 75 is odd, so it hits 0 within one cycle.
  \<^item> The parser accepts exactly the lines of the README's grammar that have the literals in capitals, with
    limits raised by one; messages whose names are shorter than their arrays survive composing and
    parsing (over UDP up to their ids); settings survive printing and parsing.
  \<^item> The linked queue implements a list; the window recognises the last 31 ids; the poll list stays in
    bounds.
  \<^item> Defects: a use after free when a TCP send fails, a timer that passes zero, polled descriptors that
    are lost, ids that are decoded wrongly, buffers that overflow, clients without authorization that
    hear of each other, members of a channel with a long name that do not, a shutdown that one silent
    UDP client delays for an hour and that a second interrupt turns into a kill.

  \<^bold>\<open>What is not modelled\<close>

  The text of log lines (address and message type are), socket options and the bound address,
  debug output.  A signal is taken while \<open>poll\<close> waits.  The handler serves one SIGINT only, since the
  Makefile asks for \<open>--std=c11\<close> and \<open>signal\<close> then has the semantics of System V: the model lets a second
  SIGINT terminate the process, which counts as an exit with the status 130.  Freed memory is never reused, so that an access to it is always a fault.

  Every other function of the sources is a definition; the rest of the files is comments, includes and
  declarations.  The theorems about whole runs assume that sends and allocations succeed; what failing
  sends do is shown on single states only (\<open>Failures\<close>), since a failing send already leads to undefined
  behaviour.
\<close>

end
